(* ===== verification/Hashi_Prelude.thy ===== *)
theory Hashi_Prelude
  imports Main "HOL-Library.Word" "HOL-Library.Multiset"
begin

text \<open>
  Shared vocabulary of the development: the machine integers of the Rust sources,
  the results of fallible code, and the generic lemmas on words and lists that the
  component theories use.

  \<^item> Rust's \<^verbatim>\<open>u8\<close> to \<^verbatim>\<open>u64\<close> are words of their width. The release profile of the
    workspace does not set \<^verbatim>\<open>overflow-checks\<close>, so the plain operators wrap, as
    the operators on words do. \<^verbatim>\<open>saturating_*\<close>, \<^verbatim>\<open>checked_*\<close> and \<^verbatim>\<open>div_ceil\<close> are
    defined below from their documented results.
  \<^item> \<^verbatim>\<open>usize\<close> counts (lengths, depths) are natural numbers; where the code multiplies
    them the reduction modulo \<open>2 ^ 64\<close> is written out.
  \<^item> A \<^verbatim>\<open>Result\<close> is an \<open>outcome\<close>: \<open>Ok\<close>, \<open>Err\<close>, or \<open>Panic\<close> where an
    \<^verbatim>\<open>expect\<close>, \<^verbatim>\<open>unwrap\<close>, \<^verbatim>\<open>assert!\<close> or division by zero aborts.
\<close>

section \<open>Machine integers\<close>

type_synonym u8 = "8 word"
type_synonym u16 = "16 word"
type_synonym u32 = "32 word"
type_synonym u64 = "64 word"
type_synonym usize = nat

definition saturating_add :: "'a::len word \<Rightarrow> 'a word \<Rightarrow> 'a word" where
  "saturating_add a b = (if unat a + unat b < 2 ^ LENGTH('a) then a + b else - 1)"

definition saturating_sub :: "'a::len word \<Rightarrow> 'a word \<Rightarrow> 'a word" where
  "saturating_sub a b = (if a < b then 0 else a - b)"

definition saturating_mul :: "'a::len word \<Rightarrow> 'a word \<Rightarrow> 'a word" where
  "saturating_mul a b = (if unat a * unat b < 2 ^ LENGTH('a) then a * b else - 1)"

definition checked_add :: "'a::len word \<Rightarrow> 'a word \<Rightarrow> 'a word option" where
  "checked_add a b = (if unat a + unat b < 2 ^ LENGTH('a) then Some (a + b) else None)"

definition div_ceil :: "'a::len word \<Rightarrow> 'a word \<Rightarrow> 'a word" where
  "div_ceil a b = (if a mod b = 0 then a div b else a div b + 1)"

text \<open>Reading the operations as natural numbers.\<close>

named_theorems u_arith \<open>how the word operations read as natural numbers\<close>

lemma unat_max_word: "unat (- 1 :: 'a::len word) = 2 ^ LENGTH('a) - 1"
  by (simp add: unsigned_minus_1_eq_mask mask_eq_exp_minus_1)

lemma unat_saturating_add [u_arith]:
  "unat (saturating_add a b) = min (2 ^ LENGTH('a) - 1) (unat a + unat b)"
  for a b :: "'a::len word"
  by (auto simp: saturating_add_def unat_max_word unat_word_ariths)

lemma unat_saturating_sub [u_arith]: "unat (saturating_sub a b) = unat a - unat b"
  by (auto simp: saturating_sub_def unat_sub word_less_nat_alt word_le_nat_alt not_less)

lemma unat_saturating_mul [u_arith]:
  "unat (saturating_mul a b) = min (2 ^ LENGTH('a) - 1) (unat a * unat b)"
  for a b :: "'a::len word"
  by (auto simp: saturating_mul_def unat_max_word unat_word_ariths)

lemma unat_min_word [u_arith]: "unat (min a b) = min (unat a) (unat b)"
  by (auto simp: min_def word_le_nat_alt)

lemma unat_max_of_word [u_arith]: "unat (max a b) = max (unat a) (unat b)"
  by (auto simp: max_def word_le_nat_alt)

lemma unat_sub_le [u_arith]: "b \<le> a \<Longrightarrow> unat (a - b) = unat a - unat b"
  by (simp add: unat_sub)

lemma unat_lt_exp: "unat a < 2 ^ LENGTH('a)" for a :: "'a::len word"
  by (rule unsigned_less)

lemma unat_u64_less: "unat (a :: u64) < 2 ^ 64"
  using unat_lt_exp [of a] by simp

lemma checked_add_Some_iff:
  "checked_add a b = Some c \<longleftrightarrow> c = a + b \<and> unat c = unat a + unat b"
  for a b c :: "'a::len word"
  by (auto simp: checked_add_def unat_word_ariths)
    (metis le_less_trans mod_less_divisor not_less order_refl zero_less_numeral zero_less_power)

lemma div_ceil_bounds:
  fixes a b :: "'a::len word"
  assumes "b \<noteq> 0"
  shows "unat a \<le> unat b * unat (div_ceil a b)"
    and "0 < unat a \<Longrightarrow> unat b * (unat (div_ceil a b) - 1) < unat a"
    and "unat (div_ceil a b) \<le> unat a"
proof -
  let ?a = "unat a" and ?b = "unat b" and ?q = "unat a div unat b" and ?r = "unat a mod unat b"
  have b0: "0 < ?b" using assms by (simp add: unat_gt_0)
  have qr: "?a = ?b * ?q + ?r" by simp
  have r: "?r < ?b" using b0 by simp
  have mod0: "a mod b = 0 \<longleftrightarrow> ?r = 0"
    by (metis unat_eq_0 unat_mod_distrib)
  have dc: "unat (div_ceil a b) = (if ?r = 0 then ?q else ?q + 1)"
  proof (cases "?r = 0")
    case False
    have "?q < ?a \<or> ?b = 1"
      using b0 False by (metis div_by_1 div_less_dividend less_one linorder_neqE_nat mod_0 not_gr_zero)
    moreover have "?b \<noteq> 1" using False by auto
    ultimately have "?q < ?a" by blast
    then have "?q + 1 < 2 ^ LENGTH('a)"
      using unat_lt_exp [of a] by linarith
    then have "unat (a div b + 1) = ?q + 1"
      by (simp add: unat_word_ariths unat_div_distrib)
    then show ?thesis using False mod0 by (simp add: div_ceil_def)
  qed (simp add: div_ceil_def mod0 unat_div_distrib)
  consider "?r = 0" "unat (div_ceil a b) = ?q" | "0 < ?r" "unat (div_ceil a b) = ?q + 1"
    using dc by (metis gr0I)
  note dc_cases = this
  show "?a \<le> ?b * unat (div_ceil a b)"
    using dc_cases
  proof cases
    case 1 then show ?thesis by (metis qr add_0_right order_refl)
  next
    case 2
    have "?a \<le> ?b * ?q + ?b" using qr r by linarith
    then show ?thesis by (simp add: 2)
  qed
  show "0 < ?a \<Longrightarrow> ?b * (unat (div_ceil a b) - 1) < ?a"
    using dc_cases
  proof cases
    case 1
    assume "0 < ?a"
    then have "0 < ?q" using qr 1 by (metis add_0_right mult_is_0 neq0_conv)
    then have "?b * (?q - 1) < ?b * ?q" using b0 by simp
    then show ?thesis using 1 qr by (metis add_0_right)
  next
    case 2
    then have "?b * ?q < ?a" using qr by linarith
    then show ?thesis by (simp add: 2)
  qed
  show "unat (div_ceil a b) \<le> ?a"
    using dc_cases
  proof cases
    case 1 then show ?thesis by simp
  next
    case 2
    have "?q \<le> ?b * ?q" using b0 by simp
    then show ?thesis using 2 qr by linarith
  qed
qed

section \<open>Results of fallible code\<close>

datatype ('e, 'a) outcome = Ok 'a | Err 'e | Panic

primrec and_then :: "('e, 'a) outcome \<Rightarrow> ('a \<Rightarrow> ('e, 'b) outcome) \<Rightarrow> ('e, 'b) outcome" where
  "and_then (Ok a) f = f a"
| "and_then (Err e) f = Err e"
| "and_then Panic f = Panic"

primrec expect :: "'a option \<Rightarrow> ('e, 'a) outcome" where
  "expect None = Panic"
| "expect (Some a) = Ok a"

primrec ok_or :: "'e \<Rightarrow> 'a option \<Rightarrow> ('e, 'a) outcome" where
  "ok_or e None = Err e"
| "ok_or e (Some a) = Ok a"

definition ensure :: "bool \<Rightarrow> 'e \<Rightarrow> ('e, unit) outcome" where
  "ensure b e = (if b then Ok () else Err e)"

primrec is_ok :: "('e, 'a) outcome \<Rightarrow> bool" where
  "is_ok (Ok a) = True"
| "is_ok (Err e) = False"
| "is_ok Panic = False"

lemma and_then_eq_Ok [simp]: "and_then x f = Ok b \<longleftrightarrow> (\<exists>a. x = Ok a \<and> f a = Ok b)"
  by (cases x) auto

lemma and_then_eq_Err: "and_then x f = Err e \<longleftrightarrow> x = Err e \<or> (\<exists>a. x = Ok a \<and> f a = Err e)"
  by (cases x) auto

lemma and_then_eq_Panic: "and_then x f = Panic \<longleftrightarrow> x = Panic \<or> (\<exists>a. x = Ok a \<and> f a = Panic)"
  by (cases x) auto

lemma expect_eq [simp]:
  "expect x = Ok a \<longleftrightarrow> x = Some a" "expect x \<noteq> Err e" "expect x = Panic \<longleftrightarrow> x = None"
  by (cases x; simp)+

lemma ok_or_eq [simp]:
  "ok_or e x = Ok a \<longleftrightarrow> x = Some a" "ok_or e x = Err e' \<longleftrightarrow> x = None \<and> e' = e"
  "ok_or e x \<noteq> Panic"
  by (cases x; auto)+

lemma ensure_eq [simp]:
  "ensure b e = Ok u \<longleftrightarrow> b" "ensure b e = Err e' \<longleftrightarrow> \<not> b \<and> e' = e" "ensure b e \<noteq> Panic"
  by (auto simp: ensure_def)

lemma is_ok_iff: "is_ok x \<longleftrightarrow> (\<exists>a. x = Ok a)"
  by (cases x) auto

section \<open>Sums of words\<close>

lemma unat_sum_list:
  fixes ws :: "'a::len word list"
  assumes "sum_list (map unat ws) < 2 ^ LENGTH('a)"
  shows "unat (sum_list ws) = sum_list (map unat ws)"
  using assms
proof (induction ws)
  case (Cons w ws)
  then have "unat w + unat (sum_list ws) < 2 ^ LENGTH('a)" by simp
  then show ?case using Cons by (simp add: unat_add_lem)
qed simp

lemma sum_list_map_le_mset:
  "mset xs \<subseteq># mset ys \<Longrightarrow> sum_list (map f xs) \<le> (sum_list (map f ys) :: nat)"
  by (metis image_mset_subseteq_mono mset_map mset_subset_eq_exists_conv sum_mset.union
      sum_mset_sum_list le_add1)

end
