(* ===== verification/Guardian_Types.thy ===== *)
theory Guardian_Types
  imports Hashi_Prelude
begin

text \<open>
  The guardian's lifecycle stages and its error type
  (\<^verbatim>\<open>hashi-types/src/guardian/lifecycle.rs\<close> and \<^verbatim>\<open>errors.rs\<close>). Error messages keep the
  fixed text of the source; values a message interpolates are left out.
\<close>

type_synonym address = "u8 list"

datatype EnclaveMode = CeremonyMode | WithdrawMode

datatype CeremonyStage =
    CeremonyOperatorInitialized
  | AwaitingKeyProvisionerConfirmations
  | CeremonyCompleted

datatype WithdrawStage =
    WithdrawOperatorInitialized
  | ProvisionerInitialized
  | Activated

datatype EnclaveLifecycle = Ceremony CeremonyStage | Withdraw WithdrawStage

primrec lifecycle_mode :: "EnclaveLifecycle \<Rightarrow> EnclaveMode" where
  "lifecycle_mode (Ceremony s) = CeremonyMode"
| "lifecycle_mode (Withdraw s) = WithdrawMode"

primrec ceremony_predecessor :: "CeremonyStage \<Rightarrow> CeremonyStage option" where
  "ceremony_predecessor CeremonyOperatorInitialized = None"
| "ceremony_predecessor AwaitingKeyProvisionerConfirmations = Some CeremonyOperatorInitialized"
| "ceremony_predecessor CeremonyCompleted = Some AwaitingKeyProvisionerConfirmations"

primrec withdraw_predecessor :: "WithdrawStage \<Rightarrow> WithdrawStage option" where
  "withdraw_predecessor WithdrawOperatorInitialized = None"
| "withdraw_predecessor ProvisionerInitialized = Some WithdrawOperatorInitialized"
| "withdraw_predecessor Activated = Some ProvisionerInitialized"

primrec lifecycle_predecessor :: "EnclaveLifecycle \<Rightarrow> EnclaveLifecycle option" where
  "lifecycle_predecessor (Ceremony s) = map_option Ceremony (ceremony_predecessor s)"
| "lifecycle_predecessor (Withdraw s) = map_option Withdraw (withdraw_predecessor s)"

datatype GuardianError =
    InternalError string
  | S3Error string
  | InvalidS3Log string
  | InvalidInputs string
  | Unauthenticated string
  | BuildNotAllowlisted string
  | BuildNotCurrent string
  | LifecycleMismatch "EnclaveLifecycle option" "EnclaveLifecycle option"
  | LimiterSequenceMismatch u64 u64
  | CurrentSessionHeartbeatNotLive string "u64 option" u64
  | PriorSessionHeartbeatStillRecent string u64 u64
  | RateLimitExceeded u64 u64
  | Unavailable string

fun retry_after_secs :: "GuardianError \<Rightarrow> u64 option" where
  "retry_after_secs (CurrentSessionHeartbeatNotLive s age retry) = Some retry"
| "retry_after_secs (PriorSessionHeartbeatStillRecent s age quiet) = Some (saturating_sub quiet age)"
| "retry_after_secs e = None"

end
