(* ===== verification/Limiter.thy ===== *)
theory Limiter
  imports Guardian_Types
begin

text \<open>
  The withdrawal rate limiter. The guardian holds the authoritative token bucket
  (\<^verbatim>\<open>hashi-types/src/guardian/limiter.rs\<close>); every node mirrors it
  (\<^verbatim>\<open>hashi/src/guardian_limiter.rs\<close>) and decides from the drift between the two when to
  snap the mirror. A method that takes \<^verbatim>\<open>&mut self\<close> (or a write lock) and returns a
  \<^verbatim>\<open>Result\<close> is a function to the state it leaves and the result.

  The locale \<open>token_bucket\<close> is the contract of a bucket: which consumes it accepts and
  what an accepted one does. Both limiters are instances of it, and the bounds on what a
  bucket lets out are proved once, for the contract.
\<close>

section \<open>The guardian's limiter\<close>

record LimiterConfig =
  refill_rate :: u64
  max_bucket_capacity :: u64

record LimiterState =
  num_tokens_available :: u64
  last_updated_at :: u64
  next_seq :: u64

definition genesis :: "LimiterConfig \<Rightarrow> LimiterState" where
  "genesis config =
     \<lparr>num_tokens_available = max_bucket_capacity config, last_updated_at = 0, next_seq = 0\<rparr>"

definition capped_to :: "LimiterState \<Rightarrow> LimiterConfig \<Rightarrow> LimiterState" where
  "capped_to s config =
     s\<lparr>num_tokens_available := min (num_tokens_available s) (max_bucket_capacity config)\<rparr>"

definition capacity_at :: "LimiterState \<Rightarrow> LimiterConfig \<Rightarrow> u64 \<Rightarrow> u64" where
  "capacity_at s config timestamp =
     (let elapsed = saturating_sub timestamp (last_updated_at s);
          refilled = saturating_mul elapsed (refill_rate config)
      in min (saturating_add (num_tokens_available s) refilled) (max_bucket_capacity config))"

record RateLimiter =
  rl_config :: LimiterConfig
  rl_state :: LimiterState

definition rate_limiter_new ::
    "LimiterConfig \<Rightarrow> LimiterState \<Rightarrow> (GuardianError, RateLimiter) outcome" where
  "rate_limiter_new config s =
     (if max_bucket_capacity config < num_tokens_available s
      then Err (InvalidInputs ''num_tokens_available exceeds max_bucket_capacity'')
      else Ok \<lparr>rl_config = config, rl_state = s\<rparr>)"

definition consume ::
    "RateLimiter \<Rightarrow> u64 \<Rightarrow> u64 \<Rightarrow> u64 \<Rightarrow> RateLimiter \<times> (GuardianError, unit) outcome" where
  "consume l seq timestamp amount_sats =
     (let s = rl_state l in
      if seq \<noteq> next_seq s then (l, Err (LimiterSequenceMismatch (next_seq s) seq))
      else if timestamp < last_updated_at s
      then (l, Err (InvalidInputs ''timestamp < last_updated_at''))
      else let capacity = capacity_at s (rl_config l) timestamp in
        if capacity < amount_sats then (l, Err (RateLimitExceeded amount_sats capacity))
        else (l\<lparr>rl_state := s\<lparr>last_updated_at := timestamp,
                               num_tokens_available := capacity - amount_sats,
                               next_seq := next_seq s + 1\<rparr>\<rparr>, Ok ()))"

section \<open>The node's mirror of it\<close>

record LimiterView =
  lv_config :: LimiterConfig
  lv_state :: LimiterState

datatype LocalLimiterError =
    StaleTimestamp u64 u64
  | InsufficientCapacity u64 u64
  | SeqMismatch u64 u64

definition view_capacity_at :: "LimiterView \<Rightarrow> u64 \<Rightarrow> u64" where
  "view_capacity_at v timestamp_secs = capacity_at (lv_state v) (lv_config v) timestamp_secs"

definition validate_consume ::
    "LimiterView \<Rightarrow> u64 \<Rightarrow> u64 \<Rightarrow> u64 \<Rightarrow> (LocalLimiterError, unit) outcome" where
  "validate_consume v expected_seq timestamp_secs amount_sats =
     (if expected_seq \<noteq> next_seq (lv_state v)
      then Err (SeqMismatch (next_seq (lv_state v)) expected_seq)
      else if timestamp_secs < last_updated_at (lv_state v)
      then Err (StaleTimestamp (last_updated_at (lv_state v)) timestamp_secs)
      else let capacity = view_capacity_at v timestamp_secs in
        if capacity < amount_sats then Err (InsufficientCapacity amount_sats capacity)
        else Ok ())"

definition apply_consume ::
    "LimiterView \<Rightarrow> u64 \<Rightarrow> u64 \<Rightarrow> u64 \<Rightarrow> LimiterView \<times> (LocalLimiterError, unit) outcome" where
  "apply_consume v applied_seq timestamp_secs amount_sats =
     (let s = lv_state v in
      if applied_seq \<noteq> next_seq s then (v, Err (SeqMismatch (next_seq s) applied_seq))
      else if timestamp_secs < last_updated_at s
      then (v, Err (StaleTimestamp (last_updated_at s) timestamp_secs))
      else let capacity = view_capacity_at v timestamp_secs in
        if capacity < amount_sats then (v, Err (InsufficientCapacity amount_sats capacity))
        else (v\<lparr>lv_state := s\<lparr>num_tokens_available := capacity - amount_sats,
                               last_updated_at := timestamp_secs,
                               next_seq := next_seq s + 1\<rparr>\<rparr>, Ok ()))"

definition adopt_config :: "LimiterView \<Rightarrow> LimiterConfig \<Rightarrow> LimiterView \<times> LimiterConfig option" where
  "adopt_config v config =
     (let previous = lv_config v in
      if previous = config then (v, None)
      else (v\<lparr>lv_config := config, lv_state := capped_to (lv_state v) config\<rparr>, Some previous))"

definition reconcile_to :: "LimiterView \<Rightarrow> LimiterState \<Rightarrow> LimiterView" where
  "reconcile_to v s = v\<lparr>lv_state := s\<rparr>"

definition reconcile_token_drift :: "LimiterView \<Rightarrow> LimiterState \<Rightarrow> LimiterView \<times> bool" where
  "reconcile_token_drift v s =
     (if next_seq (lv_state v) \<noteq> next_seq s then (v, False)
      else let common = max (last_updated_at (lv_state v)) (last_updated_at s) in
        if view_capacity_at v common = capacity_at s (lv_config v) common then (v, False)
        else (v\<lparr>lv_state := s\<rparr>, True))"

section \<open>Pacing of finalize requests\<close>

definition should_defer_guardian_finalize ::
    "u64 \<Rightarrow> (u64 \<times> address) option \<Rightarrow> address \<Rightarrow> u64 option \<Rightarrow> bool" where
  "should_defer_guardian_finalize next last_finalized wid guardian_next_seq =
     (case last_finalized of
        None \<Rightarrow> False
      | Some (last_seq, last_wid) \<Rightarrow>
          next \<le> last_seq \<and> wid \<noteq> last_wid \<and>
          (case guardian_next_seq of None \<Rightarrow> True | Some guardian_seq \<Rightarrow> last_seq < guardian_seq))"

record FinalizePacing =
  last_finalized :: "(u64 \<times> address) option"
  guardian_next_seq :: "u64 option"
  generation :: u64

definition pacing_default :: FinalizePacing where
  "pacing_default = \<lparr>last_finalized = None, guardian_next_seq = None, generation = 0\<rparr>"

definition record_finalized :: "FinalizePacing \<Rightarrow> u64 \<Rightarrow> address \<Rightarrow> FinalizePacing" where
  "record_finalized p seq wid =
     (if (case last_finalized p of None \<Rightarrow> False | Some (prev_seq, _) \<Rightarrow> seq < prev_seq) then p
      else p\<lparr>last_finalized := Some (seq, wid), guardian_next_seq := None,
             generation := generation p + 1\<rparr>)"

definition record_guardian_next_seq :: "FinalizePacing \<Rightarrow> u64 \<Rightarrow> u64 \<Rightarrow> FinalizePacing" where
  "record_guardian_next_seq p next read_generation =
     (if read_generation = generation p then p\<lparr>guardian_next_seq := Some next\<rparr> else p)"

definition should_defer :: "FinalizePacing \<Rightarrow> u64 \<Rightarrow> address \<Rightarrow> bool" where
  "should_defer p next wid =
     should_defer_guardian_finalize next (last_finalized p) wid (guardian_next_seq p)"

section \<open>The stall tracker\<close>

definition STALL_RECONCILE_TICKS :: usize where
  "STALL_RECONCILE_TICKS = 20"

record LimiterStallTracker =
  guardian_seq_window :: "u64 list"
  finalize_refused :: bool

definition tracker_default :: LimiterStallTracker where
  "tracker_default = \<lparr>guardian_seq_window = [], finalize_refused = False\<rparr>"

definition set_finalize_refused :: "LimiterStallTracker \<Rightarrow> bool \<Rightarrow> LimiterStallTracker" where
  "set_finalize_refused t refused =
     (let t = t\<lparr>finalize_refused := refused\<rparr>
      in if refused then t\<lparr>guardian_seq_window := []\<rparr> else t)"

definition observe :: "LimiterStallTracker \<Rightarrow> u64 \<Rightarrow> u64 \<Rightarrow> LimiterStallTracker \<times> bool" where
  "observe t local_seq guardian_seq =
     (if finalize_refused t then (t, False)
      else
        let w = guardian_seq_window t;
            stalled = (length w = STALL_RECONCILE_TICKS \<and>
              (case w of [] \<Rightarrow> False
               | windowed_seq # _ \<Rightarrow> local_seq < windowed_seq \<or> guardian_seq < local_seq))
        in if stalled then (t\<lparr>guardian_seq_window := []\<rparr>, True)
           else let w = w @ [guardian_seq];
                    w = (if STALL_RECONCILE_TICKS < length w then tl w else w)
                in (t\<lparr>guardian_seq_window := w\<rparr>, False))"

section \<open>Serving a sequence of requests\<close>

text \<open>
  A consume request is \<open>(seq, timestamp, amount)\<close>. \<open>serve\<close> presents requests in order to
  a limiter's consume operation and returns the limiter it leaves and the requests it
  accepted. \<open>observe_all\<close> feeds the stall tracker one tick after another.
\<close>

type_synonym consume_request = "u64 \<times> u64 \<times> u64"

primrec serve ::
    "('s \<Rightarrow> u64 \<Rightarrow> u64 \<Rightarrow> u64 \<Rightarrow> 's \<times> ('e, unit) outcome) \<Rightarrow> 's \<Rightarrow> consume_request list
       \<Rightarrow> 's \<times> consume_request list" where
  "serve c s [] = (s, [])"
| "serve c s (r # rs) =
     (case r of (seq, t, amt) \<Rightarrow>
        let (s1, res) = c s seq t amt; (s2, acc) = serve c s1 rs
        in (s2, if is_ok res then r # acc else acc))"

primrec observe_all ::
    "LimiterStallTracker \<Rightarrow> (u64 \<times> u64) list \<Rightarrow> LimiterStallTracker \<times> bool list" where
  "observe_all t [] = (t, [])"
| "observe_all t (o1 # os) =
     (let (t1, b) = observe t (fst o1) (snd o1); (t2, bs) = observe_all t1 os in (t2, b # bs))"

text \<open>
  What happens to the pacing state over time: a finalize is recorded, or a reading of the guardian's
  sequence number, taken at some generation, comes in.
\<close>

datatype pacing_event = Finalized u64 address | Reading u64 u64

primrec pacing_step :: "FinalizePacing \<Rightarrow> pacing_event \<Rightarrow> FinalizePacing" where
  "pacing_step p (Finalized seq wid) = record_finalized p seq wid"
| "pacing_step p (Reading next g) = record_guardian_next_seq p next g"

abbreviation req_seq :: "consume_request \<Rightarrow> u64" where "req_seq r \<equiv> fst r"
abbreviation req_time :: "consume_request \<Rightarrow> u64" where "req_time r \<equiv> fst (snd r)"
abbreviation req_amount :: "consume_request \<Rightarrow> u64" where "req_amount r \<equiv> snd (snd r)"

definition outflow :: "consume_request list \<Rightarrow> nat" where
  "outflow acc = sum_list (map (\<lambda>r. unat (req_amount r)) acc)"

section \<open>Capacity as exact arithmetic\<close>

text \<open>
  The saturating operations never show: the capacity is the exact stored amount plus the
  exact refill, cut off at the configured maximum.
\<close>

lemma unat_capacity_at:
  "unat (capacity_at s c t) =
     min (unat (max_bucket_capacity c))
       (unat (num_tokens_available s) +
        (unat t - unat (last_updated_at s)) * unat (refill_rate c))"
  using unat_u64_less [of "max_bucket_capacity c"]
  by (simp add: capacity_at_def Let_def u_arith)

lemma capacity_at_le_max: "unat (capacity_at s c t) \<le> unat (max_bucket_capacity c)"
  by (simp add: unat_capacity_at)

lemma capacity_at_mono: "t \<le> t' \<Longrightarrow> capacity_at s c t \<le> capacity_at s c t'"
  unfolding word_le_nat_alt unat_capacity_at
  by (intro min.mono add_mono mult_le_mono diff_le_mono order_refl)

lemma capacity_at_shift:
  assumes "last_updated_at s \<le> t" "t \<le> t'"
  shows "unat (capacity_at s c t') =
    min (unat (max_bucket_capacity c))
      (unat (capacity_at s c t) + (unat t' - unat t) * unat (refill_rate c))"
proof -
  have "unat t' - unat (last_updated_at s) =
      (unat t - unat (last_updated_at s)) + (unat t' - unat t)"
    using assms by (simp add: word_le_nat_alt)
  then show ?thesis
    by (auto simp: unat_capacity_at add_mult_distrib min_def)
qed

section \<open>The contract of a token bucket\<close>

locale token_bucket =
  fixes tb_consume :: "'s \<Rightarrow> u64 \<Rightarrow> u64 \<Rightarrow> u64 \<Rightarrow> 's \<times> ('e, unit) outcome"
    and tb_config :: "'s \<Rightarrow> LimiterConfig"
    and tb_state :: "'s \<Rightarrow> LimiterState"
  assumes accept_iff:
      "is_ok (snd (tb_consume s seq t amt)) \<longleftrightarrow>
         seq = next_seq (tb_state s) \<and> last_updated_at (tb_state s) \<le> t \<and>
         amt \<le> capacity_at (tb_state s) (tb_config s) t"
    and rejected: "\<not> is_ok (snd (tb_consume s seq t amt)) \<Longrightarrow> fst (tb_consume s seq t amt) = s"
    and keeps_config: "tb_config (fst (tb_consume s seq t amt)) = tb_config s"
    and accepted:
      "is_ok (snd (tb_consume s seq t amt)) \<Longrightarrow>
         tb_state (fst (tb_consume s seq t amt)) =
           \<lparr>num_tokens_available = capacity_at (tb_state s) (tb_config s) t - amt,
            last_updated_at = t, next_seq = next_seq (tb_state s) + 1\<rparr>"
begin

lemma serve_config: "serve tb_consume s rs = (s', acc) \<Longrightarrow> tb_config s' = tb_config s"
proof (induction rs arbitrary: s acc)
  case (Cons r rs)
  then show ?case
    using keeps_config [of s "req_seq r" "req_time r" "req_amount r"]
    by (auto simp: Let_def split: prod.splits if_splits)
qed simp

lemma serve_Cons_cases:
  assumes "serve tb_consume s (r # rs) = (s', acc)"
  obtains
    (rejects) "\<not> is_ok (snd (tb_consume s (req_seq r) (req_time r) (req_amount r)))"
      "serve tb_consume s rs = (s', acc)"
  | (accepts) s1 acc' where
      "is_ok (snd (tb_consume s (req_seq r) (req_time r) (req_amount r)))"
      "fst (tb_consume s (req_seq r) (req_time r) (req_amount r)) = s1"
      "serve tb_consume s1 rs = (s', acc')" "acc = r # acc'"
  using assms rejected [of s "req_seq r" "req_time r" "req_amount r"]
  by (cases "is_ok (snd (tb_consume s (req_seq r) (req_time r) (req_amount r)))")
    (auto simp: Let_def split: prod.splits)

lemma accepted_numbers:
  assumes "is_ok (snd (tb_consume s seq t amt))" "fst (tb_consume s seq t amt) = s1"
  shows "last_updated_at (tb_state s) \<le> t" "last_updated_at (tb_state s1) = t"
    "next_seq (tb_state s1) = next_seq (tb_state s) + 1" "seq = next_seq (tb_state s)"
    "unat amt + unat (num_tokens_available (tb_state s1)) =
       unat (capacity_at (tb_state s) (tb_config s) t)"
  using assms accept_iff [of s seq t amt] accepted [of s seq t amt]
  by (auto simp: unat_sub_le word_le_nat_alt)

lemma serve_outflow:
  assumes "serve tb_consume s rs = (s', acc)"
  shows "last_updated_at (tb_state s) \<le> last_updated_at (tb_state s') \<and>
    outflow acc + unat (num_tokens_available (tb_state s')) \<le>
      unat (num_tokens_available (tb_state s)) +
      (unat (last_updated_at (tb_state s')) - unat (last_updated_at (tb_state s))) *
        unat (refill_rate (tb_config s))"
  using assms
proof (induction rs arbitrary: s acc)
  case (Cons r rs)
  from Cons.prems show ?case
  proof (cases rule: serve_Cons_cases)
    case rejects
    then show ?thesis using Cons.IH by blast
  next
    case (accepts s1 acc')
    let ?rate = "unat (refill_rate (tb_config s))"
    let ?t = "req_time r" and ?l = "last_updated_at (tb_state s)"
      and ?l' = "last_updated_at (tb_state s')"
    note n = accepted_numbers [OF accepts(1,2)]
    have c1: "tb_config s1 = tb_config s" using accepts(2) keeps_config by blast
    have IH: "?t \<le> ?l'"
      "outflow acc' + unat (num_tokens_available (tb_state s')) \<le>
        unat (num_tokens_available (tb_state s1)) + (unat ?l' - unat ?t) * ?rate"
      using Cons.IH [OF accepts(3)] n(2) c1 by auto
    have cap: "unat (req_amount r) + unat (num_tokens_available (tb_state s1)) \<le>
        unat (num_tokens_available (tb_state s)) + (unat ?t - unat ?l) * ?rate"
      using n(5) by (simp add: unat_capacity_at)
    have "unat ?l' - unat ?l = (unat ?t - unat ?l) + (unat ?l' - unat ?t)"
      using n(1) IH(1) by (simp add: word_le_nat_alt)
    then have "(unat ?l' - unat ?l) * ?rate =
        (unat ?t - unat ?l) * ?rate + (unat ?l' - unat ?t) * ?rate"
      by (simp add: add_mult_distrib)
    then show ?thesis
      using IH cap n(1) accepts(4) by (auto simp: outflow_def)
  qed
qed (simp add: outflow_def)

lemma serve_last_time:
  "serve tb_consume s rs = (s', acc) \<Longrightarrow>
     last_updated_at (tb_state s') = (if acc = [] then last_updated_at (tb_state s) else req_time (last acc))"
proof (induction rs arbitrary: s acc)
  case (Cons r rs)
  from Cons.prems show ?case
  proof (cases rule: serve_Cons_cases)
    case (accepts s1 acc')
    then show ?thesis
      using Cons.IH [OF accepts(3)] accepted_numbers(2) [OF accepts(1,2)] by auto
  qed (use Cons.IH in blast)
qed simp

lemma outflow_in_window:
  assumes "serve tb_consume s rs = (s', acc)" "acc \<noteq> []"
  shows "outflow acc \<le> unat (max_bucket_capacity (tb_config s)) +
    (unat (req_time (last acc)) - unat (req_time (hd acc))) * unat (refill_rate (tb_config s))"
  using assms
proof (induction rs arbitrary: s acc)
  case (Cons r rs)
  from Cons.prems(1) show ?case
  proof (cases rule: serve_Cons_cases)
    case rejects
    then show ?thesis using Cons.IH Cons.prems(2) by blast
  next
    case (accepts s1 acc')
    note n = accepted_numbers [OF accepts(1,2)]
    have c1: "tb_config s1 = tb_config s" using accepts(2) keeps_config by blast
    have "outflow acc' \<le> unat (num_tokens_available (tb_state s1)) +
        (unat (last_updated_at (tb_state s')) - unat (req_time r)) * unat (refill_rate (tb_config s))"
      using serve_outflow [OF accepts(3)] n(2) c1 by simp
    moreover have "unat (req_amount r) + unat (num_tokens_available (tb_state s1)) \<le>
        unat (max_bucket_capacity (tb_config s))"
      using n(5) capacity_at_le_max [of "tb_state s" "tb_config s" "req_time r"] by simp
    moreover have "last_updated_at (tb_state s') = req_time (last acc)"
      using serve_last_time [OF Cons.prems(1)] Cons.prems(2) by simp
    ultimately show ?thesis using accepts(4) by (simp add: outflow_def)
  qed
qed simp

lemma serve_bucket:
  assumes "num_tokens_available (tb_state s) \<le> max_bucket_capacity (tb_config s)"
  shows "num_tokens_available (tb_state (fst (serve tb_consume s rs))) \<le> max_bucket_capacity (tb_config s)"
  using assms
proof (induction rs arbitrary: s)
  case (Cons r rs)
  let ?c = "tb_consume s (req_seq r) (req_time r) (req_amount r)"
  have "num_tokens_available (tb_state (fst ?c)) \<le> max_bucket_capacity (tb_config s)"
  proof (cases "is_ok (snd ?c)")
    case True
    then show ?thesis
      using accepted_numbers(5) [OF True refl] capacity_at_le_max [of "tb_state s" "tb_config s" "req_time r"]
      by (simp add: word_le_nat_alt)
  next
    case False
    then show ?thesis using rejected Cons.prems by simp
  qed
  then have "num_tokens_available (tb_state (fst (serve tb_consume (fst ?c) rs))) \<le>
      max_bucket_capacity (tb_config s)"
    using Cons.IH [of "fst ?c"] keeps_config by simp
  then show ?case by (simp add: split_beta Let_def)
qed simp

lemma serve_seqs:
  "serve tb_consume s rs = (s', acc) \<Longrightarrow>
     map req_seq acc = map (\<lambda>i. next_seq (tb_state s) + of_nat i) [0..<length acc] \<and>
     next_seq (tb_state s') = next_seq (tb_state s) + of_nat (length acc)"
proof (induction rs arbitrary: s acc)
  case (Cons r rs)
  from Cons.prems show ?case
  proof (cases rule: serve_Cons_cases)
    case (accepts s1 acc')
    note n = accepted_numbers [OF accepts(1,2)]
    have "map req_seq acc' = map (\<lambda>i. next_seq (tb_state s) + of_nat i) (map Suc [0..<length acc'])"
      using Cons.IH [OF accepts(3)] n(3) by (simp add: add.assoc)
    moreover have "[0..<length acc] = 0 # map Suc [0..<length acc']"
      using accepts(4) by (simp add: map_Suc_upt upt_conv_Cons del: upt_Suc)
    ultimately show ?thesis
      using Cons.IH [OF accepts(3)] n(3,4) accepts(4) by (simp add: add.assoc)
  qed (use Cons.IH in blast)
qed simp

lemma serve_split:
  assumes "serve tb_consume s rs = (s', acc)"
  shows "\<exists>rs2 s1. tb_config s1 = tb_config s \<and> serve tb_consume s1 rs2 = (s', drop k acc)"
  using assms
proof (induction rs arbitrary: s acc k)
  case Nil
  then have "serve tb_consume s [] = (s', drop k acc)" by simp
  then show ?case by blast
next
  case (Cons r rs)
  from Cons.prems show ?case
  proof (cases rule: serve_Cons_cases)
    case rejects
    then show ?thesis using Cons.IH by blast
  next
    case (accepts s1 acc')
    show ?thesis
    proof (cases k)
      case 0
      then have "serve tb_consume s (r # rs) = (s', drop k acc)" using Cons.prems by simp
      then show ?thesis by blast
    next
      case (Suc k')
      have "tb_config s1 = tb_config s" using accepts(2) keeps_config by blast
      then show ?thesis using Cons.IH [OF accepts(3), of k'] Suc accepts(4) by auto
    qed
  qed
qed

lemma serve_prefix:
  assumes "serve tb_consume s rs = (s', acc)"
  shows "\<exists>rs1 s1. serve tb_consume s rs1 = (s1, take k acc)"
  using assms
proof (induction rs arbitrary: s acc k)
  case Nil
  then show ?case by (auto intro: exI [of _ "[]"])
next
  case (Cons r rs)
  from Cons.prems show ?case
  proof (cases rule: serve_Cons_cases)
    case rejects
    then show ?thesis using Cons.IH by blast
  next
    case (accepts s1 acc')
    show ?thesis
    proof (cases k)
      case 0
      have "serve tb_consume s [] = (s, take 0 acc)" by simp
      then show ?thesis using 0 by blast
    next
      case (Suc k')
      then obtain rs1 s2 where "serve tb_consume s1 rs1 = (s2, take k' acc')"
        using Cons.IH [OF accepts(3)] by blast
      then have "serve tb_consume s (r # rs1) = (s2, take k acc)"
        using accepts Suc by (auto simp: Let_def split: prod.splits)
      then show ?thesis by blast
    qed
  qed
qed

lemma outflow_any_window:
  assumes "serve tb_consume s rs = (s', acc)" "i \<le> j" "j < length acc"
  shows "outflow (take (Suc j - i) (drop i acc)) \<le> unat (max_bucket_capacity (tb_config s)) +
    (unat (req_time (acc ! j)) - unat (req_time (acc ! i))) * unat (refill_rate (tb_config s))"
proof -
  let ?w = "take (Suc j - i) (drop i acc)"
  obtain rs2 s1 where s1: "tb_config s1 = tb_config s" "serve tb_consume s1 rs2 = (s', drop i acc)"
    using serve_split [OF assms(1)] by blast
  obtain rs3 s2 where s2: "serve tb_consume s1 rs3 = (s2, ?w)"
    using serve_prefix [OF s1(2)] by blast
  have ne: "?w \<noteq> []" using assms(2,3) by auto
  have len: "length ?w = Suc j - i" using assms(2,3) by auto
  have "hd ?w = acc ! i" "last ?w = acc ! j"
    using assms(2,3) ne len by (auto simp: hd_conv_nth last_conv_nth)
  then show ?thesis using outflow_in_window [OF s2 ne] s1(1) by simp
qed

end

text \<open>Two buckets that start equal answer every request alike and stay equal.\<close>

locale token_bucket_pair =
  a: token_bucket consume_a config_a state_a + b: token_bucket consume_b config_b state_b
  for consume_a :: "'s \<Rightarrow> u64 \<Rightarrow> u64 \<Rightarrow> u64 \<Rightarrow> 's \<times> ('e, unit) outcome" and config_a state_a
    and consume_b :: "'v \<Rightarrow> u64 \<Rightarrow> u64 \<Rightarrow> u64 \<Rightarrow> 'v \<times> ('f, unit) outcome" and config_b state_b
begin

lemma step_lockstep:
  assumes "config_a s = config_b v" "state_a s = state_b v"
  shows "is_ok (snd (consume_a s q t m)) = is_ok (snd (consume_b v q t m)) \<and>
    config_a (fst (consume_a s q t m)) = config_b (fst (consume_b v q t m)) \<and>
    state_a (fst (consume_a s q t m)) = state_b (fst (consume_b v q t m))"
  using assms a.accept_iff [of s q t m] b.accept_iff [of v q t m]
    a.accepted [of s q t m] b.accepted [of v q t m] a.rejected [of s q t m]
    b.rejected [of v q t m] a.keeps_config [of s q t m] b.keeps_config [of v q t m]
  by (cases "is_ok (snd (consume_a s q t m))") auto

lemma serve_lockstep:
  assumes "config_a s = config_b v" "state_a s = state_b v"
  shows "snd (serve consume_a s rs) = snd (serve consume_b v rs) \<and>
    config_a (fst (serve consume_a s rs)) = config_b (fst (serve consume_b v rs)) \<and>
    state_a (fst (serve consume_a s rs)) = state_b (fst (serve consume_b v rs))"
  using assms
proof (induction rs arbitrary: s v)
  case (Cons r rs)
  note step = step_lockstep [OF Cons.prems, of "req_seq r" "req_time r" "req_amount r"]
  then show ?case
    using Cons.IH [of "fst (consume_a s (req_seq r) (req_time r) (req_amount r))"
        "fst (consume_b v (req_seq r) (req_time r) (req_amount r))"]
    by (auto simp: Let_def split: prod.splits)
qed simp

end

section \<open>Both limiters meet the contract\<close>

interpretation guardian: token_bucket consume rl_config rl_state
  by unfold_locales (auto simp: consume_def Let_def not_less split: if_splits)

interpretation mirror: token_bucket apply_consume lv_config lv_state
  by unfold_locales (auto simp: apply_consume_def view_capacity_at_def Let_def not_less
      split: if_splits)

interpretation lockstep: token_bucket_pair consume rl_config rl_state apply_consume lv_config lv_state
  by unfold_locales

section \<open>The stall tracker over a run of ticks\<close>


lemma observe_step_healthy:
  assumes "\<not> finalize_refused t"
    "guardian_seq_window t = drop (length h - STALL_RECONCILE_TICKS) h"
    "l \<le> g" "STALL_RECONCILE_TICKS \<le> length h \<Longrightarrow> h ! (length h - STALL_RECONCILE_TICKS) \<le> l"
  shows "observe t l g =
    (t\<lparr>guardian_seq_window := drop (length (h @ [g]) - STALL_RECONCILE_TICKS) (h @ [g])\<rparr>, False)"
proof (cases "STALL_RECONCILE_TICKS \<le> length h")
  case True
  let ?k = "length h - STALL_RECONCILE_TICKS"
  have "?k < length h" using True by (simp add: STALL_RECONCILE_TICKS_def)
  then have "drop ?k h = h ! ?k # drop (Suc ?k) h" by (simp add: Cons_nth_drop_Suc)
  moreover have "Suc (length h - 20) = length h - 19"
    using True by (simp add: STALL_RECONCILE_TICKS_def)
  ultimately show ?thesis using assms True
    by (auto simp: observe_def Let_def STALL_RECONCILE_TICKS_def)
qed (use assms in \<open>auto simp: observe_def Let_def not_le\<close>)

lemma observe_all_healthy:
  assumes "\<not> finalize_refused t"
    "guardian_seq_window t = drop (length h - STALL_RECONCILE_TICKS) h"
    "\<And>i. i < length os \<Longrightarrow> fst (os ! i) \<le> snd (os ! i)"
    "\<And>i j. i < length os \<Longrightarrow> j + STALL_RECONCILE_TICKS = length h + i \<Longrightarrow>
       (h @ map snd os) ! j \<le> fst (os ! i)"
  shows "snd (observe_all t os) = replicate (length os) False"
  using assms
proof (induction os arbitrary: t h)
  case (Cons q os)
  have "observe t (fst q) (snd q) =
    (t\<lparr>guardian_seq_window := drop (length (h @ [snd q]) - STALL_RECONCILE_TICKS) (h @ [snd q])\<rparr>, False)"
    using Cons.prems(1,2) Cons.prems(3) [of 0]
      Cons.prems(4) [of 0 "length h - STALL_RECONCILE_TICKS"]
    by (intro observe_step_healthy)
      (auto simp: nth_append STALL_RECONCILE_TICKS_def)
  moreover have "snd (observe_all
      (t\<lparr>guardian_seq_window := drop (length (h @ [snd q]) - STALL_RECONCILE_TICKS) (h @ [snd q])\<rparr>) os)
      = replicate (length os) False"
  proof (rule Cons.IH [of _ "h @ [snd q]"])
    show "fst (os ! i) \<le> snd (os ! i)" if "i < length os" for i
      using Cons.prems(3) [of "Suc i"] that by simp
    show "((h @ [snd q]) @ map snd os) ! j \<le> fst (os ! i)"
      if "i < length os" "j + STALL_RECONCILE_TICKS = length (h @ [snd q]) + i" for i j
      using Cons.prems(4) [of "Suc i" j] that by simp
  qed (use Cons.prems(1) in simp_all)
  ultimately show ?case by (simp add: split_beta)
qed simp


definition last_n :: "nat \<Rightarrow> 'a list \<Rightarrow> 'a list" where
  "last_n n xs = drop (length xs - n) xs"




lemma last_n_0 [simp]: "last_n 0 xs = []"
  by (simp add: last_n_def)






section \<open>Pacing over a run of events\<close>

lemma pacing_generation:
  "\<exists>k \<le> length es. generation (foldl pacing_step p es) = generation p + of_nat k"
proof (induction es rule: rev_induct)
  case (snoc e es)
  then obtain k where k: "k \<le> length es" "generation (foldl pacing_step p es) = generation p + of_nat k" by blast
  have "generation (foldl pacing_step p (es @ [e])) = generation p + of_nat k \<or>
      generation (foldl pacing_step p (es @ [e])) = generation p + of_nat (Suc k)"
    by (cases e) (simp_all add: record_finalized_def record_guardian_next_seq_def k(2) add.assoc add.commute [of 1])
  then show ?case using k(1) by (metis Suc_le_mono le_SucI length_append_singleton)
qed (intro exI [of _ 0], simp)

lemma generation_moved:
  assumes "length es < 2 ^ 64 - 1"
  shows "generation (foldl pacing_step (p\<lparr>generation := generation p + 1\<rparr>) es) \<noteq> generation p"
proof -
  obtain k where k: "k \<le> length es"
    "generation (foldl pacing_step (p\<lparr>generation := generation p + 1\<rparr>) es) = generation p + 1 + of_nat k"
    using pacing_generation [of es "p\<lparr>generation := generation p + 1\<rparr>"] by auto
  have "of_nat (Suc k) \<noteq> (0 :: u64)"
    using k(1) assms by (simp add: word_of_nat_eq_0_iff nat_dvd_not_less del: of_nat_Suc)
  then show ?thesis using k(2) by (simp add: add.assoc)
qed

text \<open>Reconciling leaves a mirror that agrees with the given state under the mirror's own policy.\<close>

lemma reconcile_under_config:
  assumes "reconcile_token_drift v g = (v', changed)"
  shows "(next_seq (lv_state v) \<noteq> next_seq g \<longrightarrow> v' = v \<and> \<not> changed) \<and>
    (next_seq (lv_state v) = next_seq g \<longrightarrow>
      (\<forall>t. last_updated_at (lv_state v) \<le> t \<longrightarrow> last_updated_at g \<le> t \<longrightarrow>
        view_capacity_at v' t = capacity_at g (lv_config v) t)) \<and>
    lv_config v' = lv_config v"
proof (intro conjI impI allI)
  fix t
  assume seq: "next_seq (lv_state v) = next_seq g"
    and t: "last_updated_at (lv_state v) \<le> t" "last_updated_at g \<le> t"
  let ?m = "max (last_updated_at (lv_state v)) (last_updated_at g)"
  show "view_capacity_at v' t = capacity_at g (lv_config v) t"
  proof (cases "view_capacity_at v ?m = capacity_at g (lv_config v) ?m")
    case True
    then have "v' = v" using assms seq by (auto simp: reconcile_token_drift_def Let_def)
    moreover have "unat (capacity_at (lv_state v) (lv_config v) t) = unat (capacity_at g (lv_config v) t)"
      using True t capacity_at_shift [of "lv_state v" ?m t "lv_config v"]
        capacity_at_shift [of g ?m t "lv_config v"]
      by (simp add: view_capacity_at_def)
    ultimately show ?thesis by (simp add: view_capacity_at_def word_unat_eq_iff)
  next
    case False
    then have "v' = v\<lparr>lv_state := g\<rparr>" using assms seq
      by (auto simp: reconcile_token_drift_def Let_def)
    then show ?thesis by (simp add: view_capacity_at_def)
  qed
qed (use assms in \<open>auto simp: reconcile_token_drift_def Let_def split: if_splits\<close>)

section \<open>Properties\<close>

text \<open>
  C2: whatever requests reach the guardian's limiter, the withdrawals it accepts between any
  two accepted ones (both included) total at most one full bucket plus the refill for the
  time between them.
\<close>
theorem guardian_outflow_bounded:
  assumes "serve consume l rs = (l', acc)" "i \<le> j" "j < length acc"
  shows "outflow (take (Suc j - i) (drop i acc)) \<le> unat (max_bucket_capacity (rl_config l)) +
    (unat (req_time (acc ! j)) - unat (req_time (acc ! i))) * unat (refill_rate (rl_config l))"
  by (rule guardian.outflow_any_window [OF assms])

text \<open>
  C10: the accepted requests carry consecutive sequence numbers from the limiter's own, so a
  sequence number is never spent twice, and the limiter counts them.
\<close>
theorem guardian_seqs_consecutive:
  assumes "serve consume l rs = (l', acc)"
  shows "map req_seq acc = map (\<lambda>i. next_seq (rl_state l) + of_nat i) [0..<length acc] \<and>
    next_seq (rl_state l') = next_seq (rl_state l) + of_nat (length acc)"
  by (rule guardian.serve_seqs [OF assms])

text \<open>
  C11: a node's mirror that starts with the guardian's configuration and state accepts exactly
  the requests the guardian accepts and ends in the guardian's state.
\<close>
theorem mirror_lockstep:
  assumes "rl_config l = lv_config v" "rl_state l = lv_state v"
  shows "snd (serve consume l rs) = snd (serve apply_consume v rs) \<and>
    rl_state (fst (serve consume l rs)) = lv_state (fst (serve apply_consume v rs))"
  using lockstep.serve_lockstep [OF assms] by blast

text \<open>
  C30: checking a consume before signing gives the verdict, and the error, that applying it
  gives; and the check passes exactly when the guardian would accept in the same state.
\<close>
theorem validate_agrees:
  "validate_consume v seq t amt = snd (apply_consume v seq t amt) \<and>
   (validate_consume v seq t amt = Ok () \<longleftrightarrow>
      snd (consume \<lparr>rl_config = lv_config v, rl_state = lv_state v\<rparr> seq t amt) = Ok ())"
  by (auto simp: validate_consume_def apply_consume_def consume_def view_capacity_at_def Let_def)

text \<open>
  C29: a mirror that adopts the guardian's policy and then reconciles token drift against the
  guardian's state. If it is at the guardian's sequence number, then from the later of the two
  update times on it offers exactly the capacity the guardian has, and its check of a withdrawal
  passes exactly when the guardian would accept it; at another sequence number the reconciliation
  changes nothing.
\<close>
theorem token_drift_reconciled:
  assumes "reconcile_token_drift (fst (adopt_config v (rl_config l))) (rl_state l) = (v', changed)"
  shows "(next_seq (lv_state v) \<noteq> next_seq (rl_state l) \<longrightarrow>
      v' = fst (adopt_config v (rl_config l)) \<and> \<not> changed) \<and>
    (next_seq (lv_state v) = next_seq (rl_state l) \<longrightarrow>
      (\<forall>t. last_updated_at (lv_state v) \<le> t \<longrightarrow> last_updated_at (rl_state l) \<le> t \<longrightarrow>
        view_capacity_at v' t = capacity_at (rl_state l) (rl_config l) t \<and>
        (\<forall>seq amt. validate_consume v' seq t amt = Ok () \<longleftrightarrow> is_ok (snd (consume l seq t amt))))) \<and>
    lv_config v' = rl_config l"
proof -
  let ?a = "fst (adopt_config v (rl_config l))"
  have a: "lv_config ?a = rl_config l" "next_seq (lv_state ?a) = next_seq (lv_state v)"
      "last_updated_at (lv_state ?a) = last_updated_at (lv_state v)"
    by (simp_all add: adopt_config_def capped_to_def Let_def)
  note r = reconcile_under_config [OF assms, unfolded a]
  have "next_seq (lv_state v') = next_seq (rl_state l)" "last_updated_at (lv_state v') \<le> t"
    if "next_seq (lv_state v) = next_seq (rl_state l)"
      "last_updated_at (lv_state v) \<le> t" "last_updated_at (rl_state l) \<le> t" for t
    using assms a that by (auto simp: reconcile_token_drift_def Let_def split: if_splits)
  then show ?thesis
    using r guardian.accept_iff [of l] by (auto simp: validate_consume_def Let_def not_less)
qed

text \<open>
  C32: the stall tracker raises no alarm while the mirror stays at or behind the guardian and
  has reached, at every tick, the sequence number the guardian showed a full window of ticks
  before.
\<close>
theorem stall_no_false_alarm:
  assumes "\<And>i. i < length os \<Longrightarrow> fst (os ! i) \<le> snd (os ! i)"
    "\<And>i j. i < length os \<Longrightarrow> j + STALL_RECONCILE_TICKS = i \<Longrightarrow> snd (os ! j) \<le> fst (os ! i)"
  shows "snd (observe_all tracker_default os) = replicate (length os) False"
  by (rule observe_all_healthy [where h = "[]"])
    (use assms in \<open>auto simp: tracker_default_def\<close>)


text \<open>
  Pacing. Once a finalize of \<open>wid\<close> at \<open>seq\<close> is recorded, a guardian reading taken before it
  changes nothing, however many finalizes and readings came in between (short of wrapping the
  64-bit generation). Until a reading of the new generation comes in, a different withdrawal at or
  before \<open>seq\<close> is deferred and the same one never is; such a reading defers it exactly while the
  guardian has consumed \<open>seq\<close>.
\<close>
theorem pacing_ignores_stale_reads:
  assumes "\<And>prev w. last_finalized p = Some (prev, w) \<Longrightarrow> prev \<le> seq" "length es < 2 ^ 64 - 1"
  shows "record_guardian_next_seq (foldl pacing_step (record_finalized p seq wid) es) n (generation p) =
      foldl pacing_step (record_finalized p seq wid) es \<and>
    (n' \<le> seq \<longrightarrow> wid' \<noteq> wid \<longrightarrow> should_defer (record_finalized p seq wid) n' wid') \<and>
    \<not> should_defer (record_finalized p seq wid) n' wid \<and>
    (n' \<le> seq \<longrightarrow> wid' \<noteq> wid \<longrightarrow>
      should_defer (record_guardian_next_seq (record_finalized p seq wid) g
        (generation (record_finalized p seq wid))) n' wid' = (seq < g))"
proof -
  have f: "record_finalized p seq wid =
      p\<lparr>last_finalized := Some (seq, wid), guardian_next_seq := None, generation := generation p + 1\<rparr>"
    using assms(1) by (auto simp: record_finalized_def not_less split: option.splits)
  define p0 where "p0 = p\<lparr>last_finalized := Some (seq, wid), guardian_next_seq := None\<rparr>"
  have "record_finalized p seq wid = p0\<lparr>generation := generation p0 + 1\<rparr>" "generation p0 = generation p"
    by (simp_all add: f p0_def)
  then have "generation (foldl pacing_step (record_finalized p seq wid) es) \<noteq> generation p"
    using generation_moved [OF assms(2), of p0] by simp
  then have "record_guardian_next_seq (foldl pacing_step (record_finalized p seq wid) es) n (generation p) =
      foldl pacing_step (record_finalized p seq wid) es"
    by (simp add: record_guardian_next_seq_def)
  then show ?thesis
    by (simp add: f record_guardian_next_seq_def should_defer_def should_defer_guardian_finalize_def)
qed

text \<open>
  C31: a limiter that is created holds no more than its bucket, every request keeps it so, and
  adopting a new configuration on a mirror leaves what the bucket can hold under the new
  configuration, never more tokens than before, and the same time and sequence number.
\<close>
theorem bucket_within_capacity:
  "(rate_limiter_new c s = Ok l \<longrightarrow>
      unat (num_tokens_available (rl_state (fst (serve consume l rs)))) \<le> unat (max_bucket_capacity c)) \<and>
   (num_tokens_available (lv_state v) \<le> max_bucket_capacity (lv_config v) \<longrightarrow>
      lv_config (fst (adopt_config v c)) = c \<and>
      lv_state (fst (adopt_config v c)) = capped_to (lv_state v) c \<and>
      num_tokens_available (lv_state (fst (adopt_config v c))) \<le> max_bucket_capacity c \<and>
      num_tokens_available (lv_state (fst (adopt_config v c))) \<le> num_tokens_available (lv_state v))"
proof (intro conjI impI)
  assume "rate_limiter_new c s = Ok l"
  then have "rl_config l = c" "unat (num_tokens_available (rl_state l)) \<le> unat (max_bucket_capacity c)"
    by (auto simp: rate_limiter_new_def word_le_nat_alt not_less split: if_splits)
  then show "unat (num_tokens_available (rl_state (fst (serve consume l rs)))) \<le> unat (max_bucket_capacity c)"
    using guardian.serve_bucket [of l rs] by (simp add: word_le_nat_alt)
qed (auto simp: adopt_config_def capped_to_def Let_def)

section \<open>Witnesses\<close>

definition wit_config :: LimiterConfig where
  "wit_config = \<lparr>refill_rate = 10, max_bucket_capacity = 100\<rparr>"

definition wit_limiter :: RateLimiter where
  "wit_limiter = \<lparr>rl_config = wit_config, rl_state = genesis wit_config\<rparr>"

definition wit_mirror :: LimiterView where
  "wit_mirror = \<lparr>lv_config = wit_config, lv_state = genesis wit_config\<rparr>"

definition wit_requests :: "consume_request list" where
  "wit_requests = [(0, 5, 80), (1, 6, 40), (1, 8, 40), (7, 9, 1), (2, 9, 20)]"

lemma wit_limiter_sel [simp]:
  "rl_config wit_limiter = wit_config" "lv_config wit_mirror = wit_config"
  "rl_state wit_limiter = genesis wit_config" "lv_state wit_mirror = genesis wit_config"
  by (simp_all add: wit_limiter_def wit_mirror_def)

lemma wit_config_sel [simp]: "refill_rate wit_config = 10" "max_bucket_capacity wit_config = 100"
  by (simp_all add: wit_config_def)

lemmas wit_eval = wit_requests_def wit_limiter_def wit_config_def genesis_def consume_def
  capacity_at_def saturating_add_def saturating_sub_def saturating_mul_def Let_def

lemma wit_serve:
  "snd (serve consume wit_limiter wit_requests) = [(0, 5, 80), (1, 8, 40), (2, 9, 20)]"
  by (simp add: wit_eval)

theorem guardian_outflow_bounded_witness:
  "outflow (take 2 (drop 1 (snd (serve consume wit_limiter wit_requests)))) \<le>
     unat (max_bucket_capacity (rl_config wit_limiter)) + (9 - 8) * 10"
  using guardian_outflow_bounded [OF prod.collapse [symmetric, of "serve consume wit_limiter wit_requests"], of 1 2]
  by (simp add: wit_serve)

theorem guardian_seqs_consecutive_witness:
  "map req_seq (snd (serve consume wit_limiter wit_requests)) = [0, 1, 2]"
  using guardian_seqs_consecutive [OF prod.collapse [symmetric, of "serve consume wit_limiter wit_requests"]]
  by (simp add: wit_serve)

theorem mirror_lockstep_witness:
  "snd (serve apply_consume wit_mirror wit_requests) = [(0, 5, 80), (1, 8, 40), (2, 9, 20)]"
  using mirror_lockstep [of wit_limiter wit_mirror wit_requests]
  by (simp add: wit_serve)

theorem token_drift_reconciled_witness:
  "view_capacity_at (fst (reconcile_token_drift (fst (adopt_config (wit_mirror\<lparr>lv_config := \<lparr>refill_rate = 1,
      max_bucket_capacity = 20\<rparr>\<rparr>) wit_config)) \<lparr>num_tokens_available = 30, last_updated_at = 4, next_seq = 0\<rparr>)) 6 = 50"
proof -
  let ?g = "\<lparr>num_tokens_available = 30, last_updated_at = 4, next_seq = 0\<rparr> :: LimiterState"
  let ?l = "\<lparr>rl_config = wit_config, rl_state = ?g\<rparr>"
  let ?v = "wit_mirror\<lparr>lv_config := \<lparr>refill_rate = 1, max_bucket_capacity = 20\<rparr>\<rparr>"
  let ?r = "reconcile_token_drift (fst (adopt_config ?v (rl_config ?l))) (rl_state ?l)"
  have "view_capacity_at (fst ?r) 6 = capacity_at ?g wit_config 6"
    using token_drift_reconciled [of ?v ?l "fst ?r" "snd ?r"] by (simp add: genesis_def)
  moreover have "capacity_at ?g wit_config 6 = 50" by (simp add: wit_eval)
  ultimately show ?thesis by simp
qed

theorem stall_no_false_alarm_witness:
  "snd (observe_all tracker_default (map (\<lambda>i. if i < 25 then (4, 4) else (4, 6)) [0..<30])) =
     replicate 30 False"
proof -
  let ?os = "map (\<lambda>i. if i < 25 then (4::u64, 4::u64) else (4, 6)) [0..<30]"
  have "snd (observe_all tracker_default ?os) = replicate (length ?os) False"
    by (rule stall_no_false_alarm) (auto simp: STALL_RECONCILE_TICKS_def simp del: upt_rec_numeral)
  then show ?thesis by (simp del: upt_rec_numeral)
qed

theorem pacing_ignores_stale_reads_witness:
  "record_guardian_next_seq (foldl pacing_step (record_finalized pacing_default 5 [1]) [Finalized 6 [2]]) 7 0 =
     foldl pacing_step (record_finalized pacing_default 5 [1]) [Finalized 6 [2]] \<and>
   should_defer (record_finalized pacing_default 5 [1]) 5 [2]"
  using pacing_ignores_stale_reads [of pacing_default 5 "[Finalized 6 [2]]" "[1]" 7 5 "[2]" 0]
  by (simp add: pacing_default_def)

theorem bucket_within_capacity_witness:
  "rate_limiter_new wit_config (genesis wit_config) = Ok wit_limiter \<and>
   unat (num_tokens_available (rl_state (fst (serve consume wit_limiter wit_requests)))) \<le> 100 \<and>
   num_tokens_available (lv_state (fst (adopt_config wit_mirror (wit_config\<lparr>max_bucket_capacity := 60\<rparr>)))) \<le> 60"
proof -
  have new: "rate_limiter_new wit_config (genesis wit_config) = Ok wit_limiter"
    by (simp add: rate_limiter_new_def wit_limiter_def genesis_def)
  moreover have "num_tokens_available (lv_state wit_mirror) \<le> max_bucket_capacity (lv_config wit_mirror)"
    by (simp add: genesis_def)
  ultimately have
    "num_tokens_available (lv_state (fst (adopt_config wit_mirror
      (wit_config\<lparr>max_bucket_capacity := 60\<rparr>)))) \<le>
      max_bucket_capacity (wit_config\<lparr>max_bucket_capacity := 60\<rparr>)"
    "unat (num_tokens_available (rl_state (fst (serve consume wit_limiter wit_requests)))) \<le>
      unat (max_bucket_capacity wit_config)"
    using bucket_within_capacity [of "wit_config\<lparr>max_bucket_capacity := 60\<rparr>" _ _ _ wit_mirror]
      bucket_within_capacity [of wit_config "genesis wit_config" wit_limiter] by blast+
  then show ?thesis using new by simp
qed

end
