(* ===== verification/Hashi_Ordering.thy ===== *)
theory Hashi_Ordering
  imports Hashi_Prelude
begin

text \<open>
  Rust's \<^verbatim>\<open>Ordering\<close>, comparator functions and the stable \<^verbatim>\<open>sort_by\<close>, and iterator
  adaptors whose closure may panic. The locale \<open>comparator\<close> is what \<^verbatim>\<open>sort_by\<close> requires
  of a comparison function; for such a function the sort is a sorted permutation. Each
  comparison of the program is shown to satisfy it in the theory that defines it.
\<close>

section \<open>Comparisons\<close>

datatype ordering = Less | Equal | Greater

definition cmp :: "'a::linorder \<Rightarrow> 'a \<Rightarrow> ordering" where
  "cmp a b = (if a < b then Less else if a = b then Equal else Greater)"

fun then_with :: "ordering \<Rightarrow> ordering \<Rightarrow> ordering" where
  "then_with Equal o2 = o2"
| "then_with o1 o2 = o1"

lemma cmp_simps [simp]:
  "cmp a b = Less \<longleftrightarrow> a < b" "cmp a b = Equal \<longleftrightarrow> a = b" "cmp a b = Greater \<longleftrightarrow> b < a"
  "cmp a a = Equal"
  by (auto simp: cmp_def)

lemma then_with_simps:
  "then_with p q = Less \<longleftrightarrow> p = Less \<or> p = Equal \<and> q = Less"
  "then_with p q = Greater \<longleftrightarrow> p = Greater \<or> p = Equal \<and> q = Greater"
  "then_with p q = Equal \<longleftrightarrow> p = Equal \<and> q = Equal"
  by (cases p; simp)+

lemma then_with_not_Greater:
  "then_with p q \<noteq> Greater \<longleftrightarrow> p = Less \<or> p = Equal \<and> q \<noteq> Greater"
  by (cases p) simp_all

section \<open>Stable sorting\<close>

primrec insert_by :: "('a \<Rightarrow> 'a \<Rightarrow> ordering) \<Rightarrow> 'a \<Rightarrow> 'a list \<Rightarrow> 'a list" where
  "insert_by c x [] = [x]"
| "insert_by c x (y # ys) = (if c x y = Greater then y # insert_by c x ys else x # y # ys)"

primrec sort_by :: "('a \<Rightarrow> 'a \<Rightarrow> ordering) \<Rightarrow> 'a list \<Rightarrow> 'a list" where
  "sort_by c [] = []"
| "sort_by c (x # xs) = insert_by c x (sort_by c xs)"

lemma mset_insert_by [simp]: "mset (insert_by c x xs) = add_mset x (mset xs)"
  by (induction xs) auto

lemma mset_sort_by [simp]: "mset (sort_by c xs) = mset xs"
  by (induction xs) auto

lemma set_sort_by [simp]: "set (sort_by c xs) = set xs"
  by (metis mset_sort_by set_mset_mset)

lemma length_sort_by [simp]: "length (sort_by c xs) = length xs"
  by (metis mset_sort_by size_mset)

lemma sum_list_sort_by [simp]:
  "sum_list (map f (sort_by c xs)) = (sum_list (map f xs) :: 'b::comm_monoid_add)"
  by (metis mset_map mset_sort_by sum_mset_sum_list)

lemma distinct_map_sort_by [simp]: "distinct (map f (sort_by c xs)) = distinct (map f xs)"
  by (metis mset_eq_imp_distinct_iff mset_map mset_sort_by)

locale comparator =
  fixes c :: "'a \<Rightarrow> 'a \<Rightarrow> ordering"
  assumes flip: "c a b = Greater \<longleftrightarrow> c b a = Less"
    and trans: "c x y \<noteq> Greater \<Longrightarrow> c y z \<noteq> Greater \<Longrightarrow> c x z \<noteq> Greater"
begin

lemma greater_imp: "c a b = Greater \<Longrightarrow> c b a \<noteq> Greater"
  using flip by fastforce

lemma insert_by_sorted:
  "sorted_wrt (\<lambda>a b. c a b \<noteq> Greater) xs \<Longrightarrow> sorted_wrt (\<lambda>a b. c a b \<noteq> Greater) (insert_by c x xs)"
proof (induction xs)
  case (Cons y ys)
  have "set (insert_by c x ys) = insert x (set ys)"
    by (metis mset_insert_by set_mset_add_mset_insert set_mset_mset)
  then show ?case using Cons greater_imp [of x y] trans [of x y] by auto
qed simp

lemma sorted: "sorted_wrt (\<lambda>a b. c a b \<noteq> Greater) (sort_by c xs)"
  by (induction xs) (simp_all add: insert_by_sorted)

lemma insert_by_stable:
  assumes "\<And>y. y \<in> set xs \<Longrightarrow> P y \<Longrightarrow> c x y \<noteq> Greater" "P x"
  shows "filter P (insert_by c x xs) = x # filter P xs"
  using assms by (induction xs) auto

text \<open>Stability: elements that compare equal to each other keep their order.\<close>

lemma stable:
  assumes "\<And>a b. P a \<Longrightarrow> P b \<Longrightarrow> c a b = Equal"
  shows "filter P (sort_by c xs) = filter P xs"
proof (induction xs)
  case (Cons x xs)
  show ?case
  proof (cases "P x")
    case True
    then show ?thesis
      using Cons assms by (simp add: insert_by_stable)
  next
    case False
    have "filter P (insert_by c x ys) = filter P ys" for ys
      using False by (induction ys) auto
    then show ?thesis using False Cons by simp
  qed
qed simp

end

section \<open>Adaptors over closures that may panic\<close>

primrec traverse :: "('a \<Rightarrow> ('e, 'b) outcome) \<Rightarrow> 'a list \<Rightarrow> ('e, 'b list) outcome" where
  "traverse f [] = Ok []"
| "traverse f (x # xs) =
     and_then (f x) (\<lambda>y. and_then (traverse f xs) (\<lambda>ys. Ok (y # ys)))"

primrec filter_by :: "('a \<Rightarrow> ('e, bool) outcome) \<Rightarrow> 'a list \<Rightarrow> ('e, 'a list) outcome" where
  "filter_by p [] = Ok []"
| "filter_by p (x # xs) =
     and_then (p x) (\<lambda>b. and_then (filter_by p xs) (\<lambda>ys. Ok (if b then x # ys else ys)))"

lemma traverse_Ok: "(\<And>x. x \<in> set xs \<Longrightarrow> f x = Ok (g x)) \<Longrightarrow> traverse f xs = Ok (map g xs)"
  by (induction xs) auto

lemma filter_by_Ok:
  "(\<And>x. x \<in> set xs \<Longrightarrow> p x = Ok (q x)) \<Longrightarrow> filter_by p xs = Ok (filter q xs)"
  by (induction xs) auto

lemma filter_by_eq_Ok:
  "filter_by p xs = Ok ys \<Longrightarrow> ys = filter (\<lambda>x. p x = Ok True) xs"
  by (induction xs arbitrary: ys) auto

lemma filter_by_Err:
  "(\<And>x e. p x \<noteq> Err e) \<Longrightarrow> filter_by p xs \<noteq> Err e"
  by (induction xs) (auto simp: and_then_eq_Err)

lemma traverse_Err:
  "(\<And>x e. f x \<noteq> Err e) \<Longrightarrow> traverse f xs \<noteq> Err e"
  by (induction xs) (auto simp: and_then_eq_Err)

section \<open>The largest elements first\<close>

lemma sum_list_remove1:
  "x \<in> set ys \<Longrightarrow> sum_list ys = x + sum_list (remove1 x ys)" for x :: nat
  by (induction ys) auto

lemma sum_take_Suc_le:
  fixes xs :: "nat list"
  assumes "\<And>y. y \<in> set xs \<Longrightarrow> y \<le> x" "0 < k"
  shows "sum_list (take k xs) \<le> x + sum_list (take (k - 1) xs)"
proof (cases "k - 1 < length xs")
  case True
  then have "take k xs = take (k - 1) xs @ [xs ! (k - 1)]"
    using assms(2) by (metis Suc_diff_1 take_Suc_conv_app_nth)
  then show ?thesis using assms(1) True by simp
qed (use assms in simp)

text \<open>No selection of at most \<open>k\<close> elements beats the first \<open>k\<close> of a descending list.\<close>

lemma sum_le_take_of_sorted:
  fixes xs ys :: "nat list"
  assumes "sorted_wrt (\<ge>) xs" "mset ys \<subseteq># mset xs" "length ys \<le> k"
  shows "sum_list ys \<le> sum_list (take k xs)"
  using assms
proof (induction xs arbitrary: ys k)
  case (Cons x xs)
  show ?case
  proof (cases "ys = []")
    case False
    then have k: "0 < k" using Cons.prems(3) by (cases k) auto
    then obtain k' where k': "k = Suc k'" using gr0_implies_Suc by blast
    show ?thesis
    proof (cases "x \<in> set ys")
      case True
      have "mset (remove1 x ys) \<subseteq># mset xs"
        using Cons.prems(2) True by (simp add: insert_subset_eq_iff subset_eq_diff_conv)
      moreover have "length (remove1 x ys) \<le> k'"
        using Cons.prems(3) True k' by (simp add: length_remove1)
      ultimately have "sum_list (remove1 x ys) \<le> sum_list (take k' xs)"
        using Cons.IH [of "remove1 x ys" k'] Cons.prems(1) by simp
      moreover have "sum_list ys = x + sum_list (remove1 x ys)"
        using True by (rule sum_list_remove1)
      ultimately show ?thesis using k' by simp
    next
      case False
      then have "mset ys \<subseteq># mset xs"
        using Cons.prems(2) by (metis (no_types, lifting) add_mset_remove_trivial diff_single_trivial
            mset.simps(2) set_mset_mset subset_eq_diff_conv add_mset_add_single)
      then have "sum_list ys \<le> sum_list (take k xs)"
        using Cons.IH [of ys k] Cons.prems(1,3) by simp
      also have "\<dots> \<le> x + sum_list (take (k - 1) xs)"
        using Cons.prems(1) k by (intro sum_take_Suc_le) auto
      finally show ?thesis using k' by simp
    qed
  qed simp
qed simp

end
