(* ===== verification/Utxo_Pool.thy ===== *)
theory Utxo_Pool
  imports Guardian_Types Hashi_Ordering "HOL-Library.List_Lexorder" "HOL-Library.Product_Lexorder"
begin

text \<open>
  The data of coin selection and its transaction builder
  (\<^verbatim>\<open>hashi/src/utxo_pool/mod.rs\<close>): spend paths, candidates, requests, parameters, errors,
  weights, fees and the checks a transaction under construction must pass.

  \<^verbatim>\<open>Weight\<close> and satoshi amounts are 64-bit words whose sums wrap, as in a release build.
  \<^verbatim>\<open>FeeRate\<close> is a type variable with a linear order and a Bitcoin address a type variable:
  the two functions of the \<^verbatim>\<open>bitcoin\<close> crate the code calls on them, \<^verbatim>\<open>FeeRate::fee_wu\<close> and
  \<^verbatim>\<open>Address::script_pubkey\<close>, are the fields of a record that every definition using them
  takes as a parameter.
\<close>

section \<open>The bitcoin crate\<close>

record ('r, 'a) bitcoin_crate =
  fee_wu :: "'r \<Rightarrow> u64 \<Rightarrow> u64 option"
  script_pubkey :: "'a \<Rightarrow> u8 list"

section \<open>Outpoints\<close>

datatype UtxoId = UtxoId (txid: "u8 list") (vout: u32)

instantiation UtxoId :: linorder
begin

definition less_eq_UtxoId :: "UtxoId \<Rightarrow> UtxoId \<Rightarrow> bool" where
  "less_eq_UtxoId a b \<longleftrightarrow> (txid a, vout a) \<le> (txid b, vout b)"

definition less_UtxoId :: "UtxoId \<Rightarrow> UtxoId \<Rightarrow> bool" where
  "less_UtxoId a b \<longleftrightarrow> (txid a, vout a) < (txid b, vout b)"

instance
proof
  fix a b c :: UtxoId
  show "(a < b) = (a \<le> b \<and> \<not> b \<le> a)"
    unfolding less_eq_UtxoId_def less_UtxoId_def by (rule less_le_not_le)
  show "a \<le> a" unfolding less_eq_UtxoId_def by simp
  show "a \<le> b \<Longrightarrow> b \<le> c \<Longrightarrow> a \<le> c" unfolding less_eq_UtxoId_def by (rule order_trans)
  show "a \<le> b \<Longrightarrow> b \<le> a \<Longrightarrow> a = b"
    unfolding less_eq_UtxoId_def by (metis UtxoId.expand antisym prod.inject)
  show "a \<le> b \<or> b \<le> a" unfolding less_eq_UtxoId_def by (rule linear)
qed

end

section \<open>Constants\<close>

definition TXIN_BASE_WEIGHT :: u64 where "TXIN_BASE_WEIGHT = 164"
definition TXOUT_BASE_WEIGHT :: u64 where "TXOUT_BASE_WEIGHT = 36"
definition DUST_RELAY_MIN_VALUE :: u64 where "DUST_RELAY_MIN_VALUE = 546"
definition TR_DUST_RELAY_MIN_VALUE :: u64 where "TR_DUST_RELAY_MIN_VALUE = 330"
definition WPKH_DUST_RELAY_MIN_VALUE :: u64 where "WPKH_DUST_RELAY_MIN_VALUE = 294"
definition RECOVERY_PRIORITY_AGE_BLOCKS :: u32 where "RECOVERY_PRIORITY_AGE_BLOCKS = 30 * 24 * 6"
definition MAX_ANCESTOR_DEPTH :: usize where "MAX_ANCESTOR_DEPTH = 25"

section \<open>Candidates and requests\<close>

datatype SpendPath = TaprootScriptPath2of2 | TaprootKeyPath | Custom u64

primrec satisfaction_weight :: "SpendPath \<Rightarrow> u64" where
  "satisfaction_weight TaprootScriptPath2of2 = 268"
| "satisfaction_weight TaprootKeyPath = 66"
| "satisfaction_weight (Custom w) = w"

definition input_weight :: "SpendPath \<Rightarrow> ('e, u64) outcome" where
  "input_weight p = expect (checked_add TXIN_BASE_WEIGHT (satisfaction_weight p))"

record AncestorTx =
  anc_id :: address
  anc_confirmations :: u32
  anc_tx_weight :: u64
  anc_tx_fee :: u64

datatype UtxoStatus = Confirmed | Pending "AncestorTx list"

primrec chain_depth :: "UtxoStatus \<Rightarrow> usize" where
  "chain_depth Confirmed = 0"
| "chain_depth (Pending chain) = length chain"

primrec mempool_chain_depth :: "UtxoStatus \<Rightarrow> usize" where
  "mempool_chain_depth Confirmed = 0"
| "mempool_chain_depth (Pending chain) = length (filter (\<lambda>a. anc_confirmations a = 0) chain)"

primrec status_unconfirmed_ancestor_weight :: "UtxoStatus \<Rightarrow> u64" where
  "status_unconfirmed_ancestor_weight Confirmed = 0"
| "status_unconfirmed_ancestor_weight (Pending chain) =
     sum_list (map anc_tx_weight (filter (\<lambda>a. anc_confirmations a = 0) chain))"

record UtxoCandidate =
  u_id :: UtxoId
  u_amount :: u64
  u_confirmation_age_blocks :: "u32 option"
  u_spend_path :: SpendPath
  u_status :: UtxoStatus

record WithdrawalRequest =
  r_id :: address
  r_recipient :: "u8 list"
  r_amount :: u64
  r_timestamp_ms :: u64

record ('r, 'a) CoinSelectionParams =
  max_tx_weight :: u64
  max_ancestor_package_weight :: u64
  max_inputs :: usize
  max_withdrawal_requests :: usize
  max_fee_per_request :: u64
  min_fee_rate :: 'r
  long_term_fee_rate :: 'r
  high_fee_rate_threshold :: 'r
  input_budget :: usize
  max_mempool_chain_depth :: usize
  change_address :: 'a

text \<open>
  \<open>CoinSelectionParams::new\<close>: the \<open>DEFAULT_*\<close> constants written where they are used, and the
  crate's conversions between a fee rate and satoshis per virtual byte as parameters.
\<close>

definition params_new ::
    "(u64 \<Rightarrow> 'r) \<Rightarrow> ('r \<Rightarrow> u64) \<Rightarrow> 'a \<Rightarrow> ('r, 'a) CoinSelectionParams" where
  "params_new from_sat_per_vb to_sat_per_vb_floor change =
     (let tx_vbytes = 11 + 10 * 100 + 2 * 43
      in \<lparr>max_tx_weight = 400000, max_ancestor_package_weight = 400000,
          max_inputs = 400, max_withdrawal_requests = 447,
          max_fee_per_request = to_sat_per_vb_floor (from_sat_per_vb 30) * tx_vbytes,
          min_fee_rate = from_sat_per_vb 3, long_term_fee_rate = from_sat_per_vb 10,
          high_fee_rate_threshold = from_sat_per_vb 30,
          input_budget = 10, max_mempool_chain_depth = 5, change_address = change\<rparr>)"

record WithdrawalOutput =
  o_request_id :: address
  o_recipient :: "u8 list"
  o_amount :: u64

record CoinSelectionResult =
  res_inputs :: "UtxoCandidate list"
  res_withdrawal_outputs :: "WithdrawalOutput list"
  res_change :: "u64 option"
  res_fee :: u64
  res_selected_requests :: "WithdrawalRequest list"

datatype CoinSelectionError =
    EmptyPool
  | NoRequests
  | FeeExceedsCap (fec_fee_per_request: u64) (fec_max_fee_per_request: u64)
      (fec_total_deduction: u64) (fec_n_requests: usize) (fec_transaction_fee: u64)
      (fec_cpfp_deficit: u64) (fec_selected_inputs: usize) (fec_pending_inputs: usize)
      (fec_unconfirmed_ancestors: usize)
  | SubDustChange (sdc_change: u64) (sdc_dust_threshold: u64)
  | InsufficientFunds (if_available: u64) (if_selected: u64) (if_required: u64)
      (if_selected_inputs: usize) (if_max_inputs: usize)
  | ExceedsMaxWeight (emw_weight: u64) (emw_max_weight: u64)
  | ExceedsMaxAncestorPackageWeight (emp_weight: u64) (emp_ancestor_weight: u64)
      (emp_max_weight: u64) (emp_selected_inputs: usize) (emp_pending_inputs: usize)
      (emp_unconfirmed_ancestors: usize)
  | RequestAmountTooSmall (ras_request_id: address) (ras_amount: u64) (ras_fee_per_request: u64)

fun coin_error_metric_label :: "CoinSelectionError \<Rightarrow> string" where
  "coin_error_metric_label EmptyPool = ''empty_pool''"
| "coin_error_metric_label NoRequests = ''no_requests''"
| "coin_error_metric_label (FeeExceedsCap _ _ _ _ _ _ _ _ _) = ''fee_exceeds_cap''"
| "coin_error_metric_label (SubDustChange _ _) = ''sub_dust_change''"
| "coin_error_metric_label (InsufficientFunds _ _ _ _ _) = ''insufficient_funds''"
| "coin_error_metric_label (ExceedsMaxWeight _ _) = ''exceeds_max_weight''"
| "coin_error_metric_label (ExceedsMaxAncestorPackageWeight _ _ _ _ _ _) =
     ''exceeds_max_ancestor_package_weight''"
| "coin_error_metric_label (RequestAmountTooSmall _ _ _) = ''request_amount_too_small''"

section \<open>Weights, dust and fees\<close>

definition output_weight_for_recipient :: "WithdrawalRequest \<Rightarrow> u64" where
  "output_weight_for_recipient r =
     (if length (r_recipient r) = 20 then TXOUT_BASE_WEIGHT + 22 * 4 else TXOUT_BASE_WEIGHT + 34 * 4)"

definition output_weight_for_script :: "u8 list \<Rightarrow> u64" where
  "output_weight_for_script script = (8 + 1 + of_nat (length script)) * 4"

definition dust_threshold_for_change :: "u8 list \<Rightarrow> u64" where
  "dust_threshold_for_change script =
     (if length script = 22 then WPKH_DUST_RELAY_MIN_VALUE
      else if length script = 34 then TR_DUST_RELAY_MIN_VALUE
      else DUST_RELAY_MIN_VALUE)"

definition fee_for_weight :: "('r, 'a) bitcoin_crate \<Rightarrow> 'r \<Rightarrow> u64 \<Rightarrow> ('e, u64) outcome" where
  "fee_for_weight bc fee_rate w = expect (fee_wu bc fee_rate w)"

definition varint_weight :: "u64 \<Rightarrow> u64" where
  "varint_weight n =
     (let bytes = (if n \<le> 252 then 1 else if n \<le> 0xFFFF then 3 else if n \<le> 0xFFFFFFFF then 5 else 9)
      in bytes * 4)"

section \<open>The transaction builder\<close>

record PendingOutput =
  po_request :: WithdrawalRequest
  po_net_amount :: u64

record ('r, 'a) TransactionBuilder =
  tb_fee_rate :: 'r
  tb_params :: "('r, 'a) CoinSelectionParams"
  tb_inputs :: "UtxoCandidate list"
  tb_outputs :: "PendingOutput list"
  tb_raw_change :: "u64 option"
  tb_final_change :: "u64 option"

definition po_dust_threshold :: "PendingOutput \<Rightarrow> u64" where
  "po_dust_threshold o1 =
     (if length (r_recipient (po_request o1)) = 20 then WPKH_DUST_RELAY_MIN_VALUE
      else TR_DUST_RELAY_MIN_VALUE)"

definition change_script :: "('r, 'a) bitcoin_crate \<Rightarrow> ('r, 'a) TransactionBuilder \<Rightarrow> u8 list" where
  "change_script bc b = script_pubkey bc (change_address (tb_params b))"

definition change_dust_threshold :: "('r, 'a) bitcoin_crate \<Rightarrow> ('r, 'a) TransactionBuilder \<Rightarrow> u64" where
  "change_dust_threshold bc b = dust_threshold_for_change (change_script bc b)"

definition weight_for ::
    "('r, 'a) bitcoin_crate \<Rightarrow> ('r, 'a) TransactionBuilder \<Rightarrow> usize \<Rightarrow> u64 \<Rightarrow> bool \<Rightarrow> u64" where
  "weight_for bc b input_count input_weights has_change =
     (let output_count = length (tb_outputs b) + (if has_change then 1 else 0);
          fixed = (32 + 2) + varint_weight (of_nat input_count) + varint_weight (of_nat output_count);
          outputs = sum_list (map (\<lambda>o1. output_weight_for_recipient (po_request o1)) (tb_outputs b));
          change = (if has_change then output_weight_for_script (change_script bc b) else 0)
      in fixed + input_weights + outputs + change)"

definition tx_weight ::
    "('r, 'a) bitcoin_crate \<Rightarrow> ('r, 'a) TransactionBuilder \<Rightarrow> ('e, u64) outcome" where
  "tx_weight bc b =
     (let input_count = length (tb_inputs b);
          has_change = (case tb_raw_change b of None \<Rightarrow> True | Some v \<Rightarrow> 0 < v)
      in and_then (traverse (\<lambda>u. input_weight (u_spend_path u)) (tb_inputs b))
           (\<lambda>ws. Ok (weight_for bc b input_count (sum_list ws) has_change)))"

definition weight_with_candidate ::
    "('r, 'a) bitcoin_crate \<Rightarrow> ('r, 'a) TransactionBuilder \<Rightarrow> UtxoCandidate \<Rightarrow> u64 \<Rightarrow> ('e, u64) outcome" where
  "weight_with_candidate bc b candidate total_req =
     and_then (input_weight (u_spend_path candidate))
       (\<lambda>w. Ok (weight_for bc b 1 w (total_req < u_amount candidate)))"

definition input_total :: "('r, 'a) TransactionBuilder \<Rightarrow> u64" where
  "input_total b = sum_list (map u_amount (tb_inputs b))"

definition total_requested :: "('r, 'a) TransactionBuilder \<Rightarrow> u64" where
  "total_requested b = sum_list (map (\<lambda>o1. r_amount (po_request o1)) (tb_outputs b))"

definition compute_raw_change ::
    "('r, 'a) TransactionBuilder \<Rightarrow> ('e, ('r, 'a) TransactionBuilder \<times> u64) outcome" where
  "compute_raw_change b =
     (if total_requested b \<le> input_total b
      then let raw_change = input_total b - total_requested b
           in Ok (b\<lparr>tb_raw_change := Some raw_change\<rparr>, raw_change)
      else Panic)"

text \<open>\<open>seen\<close> is the set of identities the \<^verbatim>\<open>filter\<close> closure has inserted so far.\<close>

primrec unseen_ancestors :: "address set \<Rightarrow> AncestorTx list \<Rightarrow> AncestorTx list" where
  "unseen_ancestors seen [] = []"
| "unseen_ancestors seen (a # as) =
     (if anc_confirmations a = 0 \<and> anc_id a \<notin> seen
      then a # unseen_ancestors (insert (anc_id a) seen) as
      else unseen_ancestors seen as)"

primrec status_chain :: "UtxoStatus \<Rightarrow> AncestorTx list" where
  "status_chain Confirmed = []"
| "status_chain (Pending chain) = chain"

definition unconfirmed_ancestors :: "('r, 'a) TransactionBuilder \<Rightarrow> AncestorTx list" where
  "unconfirmed_ancestors b =
     unseen_ancestors {} (concat (map (\<lambda>u. status_chain (u_status u)) (tb_inputs b)))"

definition unconfirmed_ancestor_weight :: "('r, 'a) TransactionBuilder \<Rightarrow> u64" where
  "unconfirmed_ancestor_weight b = sum_list (map anc_tx_weight (unconfirmed_ancestors b))"

definition exceeds_max_weight ::
    "('r, 'a) bitcoin_crate \<Rightarrow> ('r, 'a) TransactionBuilder \<Rightarrow> ('e, bool) outcome" where
  "exceeds_max_weight bc b =
     and_then (tx_weight bc b) (\<lambda>w. Ok (max_tx_weight (tb_params b) < w))"

definition exceeds_max_ancestor_package_weight ::
    "('r, 'a) bitcoin_crate \<Rightarrow> ('r, 'a) TransactionBuilder \<Rightarrow> ('e, bool) outcome" where
  "exceeds_max_ancestor_package_weight bc b =
     and_then (tx_weight bc b)
       (\<lambda>w. Ok (max_ancestor_package_weight (tb_params b) < w + unconfirmed_ancestor_weight b))"

definition exceeds_any_weight_limit ::
    "('r, 'a) bitcoin_crate \<Rightarrow> ('r, 'a) TransactionBuilder \<Rightarrow> ('e, bool) outcome" where
  "exceeds_any_weight_limit bc b =
     and_then (exceeds_max_weight bc b)
       (\<lambda>x. if x then Ok True else exceeds_max_ancestor_package_weight bc b)"

definition pending_input_count :: "('r, 'a) TransactionBuilder \<Rightarrow> usize" where
  "pending_input_count b = length (filter (\<lambda>u. u_status u \<noteq> Confirmed) (tb_inputs b))"

definition check_weight ::
    "('r, 'a) bitcoin_crate \<Rightarrow> ('r, 'a) TransactionBuilder \<Rightarrow> (CoinSelectionError, unit) outcome" where
  "check_weight bc b =
     and_then (tx_weight bc b) (\<lambda>w.
       if max_tx_weight (tb_params b) < w
       then Err (ExceedsMaxWeight w (max_tx_weight (tb_params b)))
       else
         let ancestors = unconfirmed_ancestors b;
             ancestor_weight = sum_list (map anc_tx_weight ancestors)
         in if max_ancestor_package_weight (tb_params b) < w + ancestor_weight
            then Err (ExceedsMaxAncestorPackageWeight w ancestor_weight
                   (max_ancestor_package_weight (tb_params b)) (length (tb_inputs b))
                   (pending_input_count b) (length ancestors))
            else Ok ())"

definition cpfp_deficit ::
    "('r, 'a) bitcoin_crate \<Rightarrow> ('r, 'a) TransactionBuilder \<Rightarrow> ('e, u64) outcome" where
  "cpfp_deficit bc b =
     (let ancestors = unconfirmed_ancestors b;
          ancestor_weight = sum_list (map anc_tx_weight ancestors);
          ancestor_fee = sum_list (map anc_tx_fee ancestors)
      in and_then (fee_for_weight bc (tb_fee_rate b) ancestor_weight)
           (\<lambda>needed_ancestor_fee. Ok (saturating_sub needed_ancestor_fee ancestor_fee)))"

definition required_fee ::
    "('r, 'a) bitcoin_crate \<Rightarrow> ('r, 'a) TransactionBuilder \<Rightarrow> ('e, u64) outcome" where
  "required_fee bc b =
     and_then (tx_weight bc b) (\<lambda>w.
     and_then (fee_for_weight bc (tb_fee_rate b) w) (\<lambda>own_fee.
     and_then (cpfp_deficit bc b) (\<lambda>deficit. Ok (own_fee + deficit))))"

text \<open>The loop over the outputs at the end of the fee check.\<close>

primrec check_outputs ::
    "u64 \<Rightarrow> PendingOutput list \<Rightarrow> (CoinSelectionError, unit) outcome" where
  "check_outputs deduction_per_request [] = Ok ()"
| "check_outputs deduction_per_request (o1 # os) =
     (if r_amount (po_request o1) < deduction_per_request + po_dust_threshold o1
      then Err (RequestAmountTooSmall (r_id (po_request o1)) (r_amount (po_request o1))
             deduction_per_request)
      else check_outputs deduction_per_request os)"

definition check_fees ::
    "('r, 'a) bitcoin_crate \<Rightarrow> ('r, 'a) TransactionBuilder \<Rightarrow> (CoinSelectionError, unit) outcome" where
  "check_fees bc b =
     (let n = of_nat (length (tb_outputs b)) :: u64 in
      if n = 0 then Ok ()
      else
        and_then (tx_weight bc b) (\<lambda>w.
        and_then (fee_for_weight bc (tb_fee_rate b) w) (\<lambda>transaction_fee.
        and_then (cpfp_deficit bc b) (\<lambda>deficit.
          let total_deduction = transaction_fee + deficit;
              deduction_per_request = div_ceil total_deduction n
          in if max_fee_per_request (tb_params b) < deduction_per_request
             then Err (FeeExceedsCap deduction_per_request (max_fee_per_request (tb_params b))
                    total_deduction (unat n) transaction_fee deficit (length (tb_inputs b))
                    (pending_input_count b) (length (unconfirmed_ancestors b)))
             else check_outputs deduction_per_request (tb_outputs b)))))"

definition candidate_fits_fee_budget ::
    "('r, 'a) bitcoin_crate \<Rightarrow> ('r, 'a) TransactionBuilder \<Rightarrow> UtxoCandidate \<Rightarrow> u64 \<Rightarrow> ('e, bool) outcome" where
  "candidate_fits_fee_budget bc b candidate total_req =
     (if u_status candidate = Confirmed then Ok True
      else
        case check_fees bc
          \<lparr>tb_fee_rate = tb_fee_rate b, tb_params = tb_params b, tb_inputs = [candidate],
           tb_outputs = map (\<lambda>o1. \<lparr>po_request = po_request o1, po_net_amount = 0\<rparr>) (tb_outputs b),
           tb_raw_change = Some (saturating_sub (u_amount candidate) total_req),
           tb_final_change = None\<rparr> of
          Ok _ \<Rightarrow> Ok True
        | Err _ \<Rightarrow> Ok False
        | Panic \<Rightarrow> Panic)"

definition finalize_fees ::
    "('r, 'a) bitcoin_crate \<Rightarrow> ('r, 'a) TransactionBuilder
       \<Rightarrow> (CoinSelectionError, ('r, 'a) TransactionBuilder \<times> u64) outcome" where
  "finalize_fees bc b =
     and_then (expect (tb_raw_change b)) (\<lambda>raw_change.
       let dust_threshold = change_dust_threshold bc b in
       if 0 < raw_change \<and> raw_change < dust_threshold
       then Err (SubDustChange raw_change dust_threshold)
       else
         and_then (check_fees bc b) (\<lambda>_.
         and_then (required_fee bc b) (\<lambda>required.
           let n = of_nat (length (tb_outputs b)) in
           and_then (if n = 0 then Panic else Ok (div_ceil required n)) (\<lambda>deduction_per_request.
           let outputs = map (\<lambda>o1. o1\<lparr>po_net_amount := r_amount (po_request o1) - deduction_per_request\<rparr>)
                 (tb_outputs b);
               b' = b\<lparr>tb_outputs := outputs,
                      tb_final_change := (if 0 < raw_change then Some raw_change else None)\<rparr>;
               output_total = sum_list (map po_net_amount outputs);
               change = (case tb_final_change b' of None \<Rightarrow> 0 | Some c \<Rightarrow> c);
               miner_fee = input_total b' - output_total - change
           in and_then (required_fee bc b') (\<lambda>required'.
                if required' \<le> miner_fee then Ok (b', miner_fee) else Panic)))))"

end
