(* ===== verification/Coin_Selection.thy ===== *)
theory Coin_Selection
  imports Utxo_Pool "HOL-Library.Option_ord"
begin

text \<open>
  Coin selection for batched withdrawals (\<open>select_coins\<close> of
  \<^verbatim>\<open>hashi/src/utxo_pool/mod.rs\<close>), step by step as the code has it: the oldest requests, the
  eligible pool largest first, funding, consolidation with its undo, and fee allocation.
\<close>

section \<open>The three orders\<close>

definition request_order :: "WithdrawalRequest \<Rightarrow> WithdrawalRequest \<Rightarrow> ordering" where
  "request_order a b = cmp (r_timestamp_ms a) (r_timestamp_ms b)"

definition pool_order :: "UtxoCandidate \<Rightarrow> UtxoCandidate \<Rightarrow> ordering" where
  "pool_order a b = then_with (cmp (u_amount b) (u_amount a)) (cmp (u_id a) (u_id b))"

definition is_urgent :: "UtxoCandidate \<Rightarrow> bool" where
  "is_urgent u =
     (case u_confirmation_age_blocks u of None \<Rightarrow> False | Some age \<Rightarrow> RECOVERY_PRIORITY_AGE_BLOCKS < age)"

definition consolidation_order :: "UtxoCandidate \<Rightarrow> UtxoCandidate \<Rightarrow> ordering" where
  "consolidation_order a b =
     (case (is_urgent a, is_urgent b) of
        (True, True) \<Rightarrow>
          then_with (then_with (cmp (u_confirmation_age_blocks b) (u_confirmation_age_blocks a))
            (cmp (u_amount a) (u_amount b))) (cmp (u_id a) (u_id b))
      | (True, False) \<Rightarrow> Less
      | (False, True) \<Rightarrow> Greater
      | (False, False) \<Rightarrow> then_with (cmp (u_amount a) (u_amount b)) (cmp (u_id a) (u_id b)))"

section \<open>The steps\<close>

definition selected_outputs :: "('r, 'a) CoinSelectionParams \<Rightarrow> WithdrawalRequest list \<Rightarrow> PendingOutput list" where
  "selected_outputs params requests =
     map (\<lambda>r. \<lparr>po_request = r, po_net_amount = 0\<rparr>)
       (take (max_withdrawal_requests params) (sort_by request_order requests))"

definition eligible ::
    "('r, 'a) bitcoin_crate \<Rightarrow> ('r, 'a) TransactionBuilder \<Rightarrow> u64 \<Rightarrow> UtxoCandidate \<Rightarrow> ('e, bool) outcome" where
  "eligible bc b total_req u =
     (if \<not> (mempool_chain_depth (u_status u) \<le> max_mempool_chain_depth (tb_params b) \<and>
            mempool_chain_depth (u_status u) < MAX_ANCESTOR_DEPTH)
      then Ok False
      else and_then (weight_with_candidate bc b u total_req) (\<lambda>w.
        if status_unconfirmed_ancestor_weight (u_status u) + w \<le> max_ancestor_package_weight (tb_params b)
        then candidate_fits_fee_budget bc b u total_req
        else Ok False))"

primrec fund ::
    "usize \<Rightarrow> u64 \<Rightarrow> UtxoCandidate list \<Rightarrow> UtxoCandidate list \<Rightarrow> u64 \<Rightarrow> UtxoCandidate list \<times> u64" where
  "fund limit total_req [] inputs total_in = (inputs, total_in)"
| "fund limit total_req (u # us) inputs total_in =
     (if limit \<le> length inputs then (inputs, total_in)
      else if total_req \<le> total_in then (inputs, total_in)
      else fund limit total_req us (inputs @ [u]) (total_in + u_amount u))"

definition max_consolidation :: "('r::linorder, 'a) TransactionBuilder \<Rightarrow> usize" where
  "max_consolidation b =
     (let params = tb_params b in
      if tb_fee_rate b < long_term_fee_rate params
      then min (max_inputs params - length (tb_inputs b))
             ((length (tb_outputs b) * input_budget params) mod 2 ^ 64)
      else if tb_fee_rate b < high_fee_rate_threshold params
      then min (max_inputs params - length (tb_inputs b))
             (((length (tb_outputs b) * input_budget params) mod 2 ^ 64) div 2)
      else 0)"

definition remaining :: "UtxoCandidate list \<Rightarrow> UtxoCandidate list \<Rightarrow> UtxoCandidate list" where
  "remaining pool inputs =
     sort_by consolidation_order
       (filter (\<lambda>u. u_status u = Confirmed \<and> \<not> list_ex (\<lambda>s. u_id s = u_id u) inputs) pool)"

primrec consolidate ::
    "('r, 'a) bitcoin_crate \<Rightarrow> UtxoCandidate list \<Rightarrow> ('r, 'a) TransactionBuilder
       \<Rightarrow> (CoinSelectionError, ('r, 'a) TransactionBuilder) outcome" where
  "consolidate bc [] b = Ok b"
| "consolidate bc (u # us) b =
     (if max_inputs (tb_params b) \<le> length (tb_inputs b) then Ok b
      else
        and_then (compute_raw_change (b\<lparr>tb_inputs := tb_inputs b @ [u]\<rparr>)) (\<lambda>(b1, _).
        and_then
          (case check_fees bc b1 of
             Ok _ \<Rightarrow> exceeds_any_weight_limit bc b1
           | Err _ \<Rightarrow> Ok True
           | Panic \<Rightarrow> Panic)
          (\<lambda>over. if over
             then and_then (compute_raw_change (b1\<lparr>tb_inputs := butlast (tb_inputs b1)\<rparr>))
                    (\<lambda>(b2, _). Ok b2)
             else consolidate bc us b1)))"

definition consolidation_step ::
    "('r::linorder, 'a) bitcoin_crate \<Rightarrow> UtxoCandidate list \<Rightarrow> u64 \<Rightarrow> ('r, 'a) TransactionBuilder
       \<Rightarrow> (CoinSelectionError, ('r, 'a) TransactionBuilder) outcome" where
  "consolidation_step bc pool raw_change b =
     (if 0 < max_consolidation b \<and> 0 < raw_change
      then consolidate bc (take (max_consolidation b) (remaining pool (tb_inputs b))) b
      else Ok b)"

definition funding_step ::
    "('r, 'a) bitcoin_crate \<Rightarrow> UtxoCandidate list \<Rightarrow> ('r, 'a) TransactionBuilder
       \<Rightarrow> (CoinSelectionError, ('r, 'a) TransactionBuilder \<times> u64) outcome" where
  "funding_step bc pool b =
     (let required = total_requested b;
          (inputs, total_in) = fund (max_inputs (tb_params b)) required pool (tb_inputs b) 0;
          b = b\<lparr>tb_inputs := inputs\<rparr>
      in if total_in < required
         then Err (InsufficientFunds (sum_list (map u_amount pool)) total_in required
                (length (tb_inputs b)) (max_inputs (tb_params b)))
         else
           and_then (compute_raw_change b) (\<lambda>(b, raw_change).
           and_then (check_fees bc b) (\<lambda>_.
           and_then (check_weight bc b) (\<lambda>_. Ok (b, raw_change)))))"

definition initial_builder ::
    "('r::linorder, 'a) CoinSelectionParams \<Rightarrow> WithdrawalRequest list \<Rightarrow> 'r \<Rightarrow> ('r, 'a) TransactionBuilder" where
  "initial_builder params requests fee_rate =
     \<lparr>tb_fee_rate = max fee_rate (min_fee_rate params), tb_params = params, tb_inputs = [],
      tb_outputs = selected_outputs params requests, tb_raw_change = None, tb_final_change = None\<rparr>"

definition selection_result :: "('r, 'a) TransactionBuilder \<Rightarrow> u64 \<Rightarrow> CoinSelectionResult" where
  "selection_result b miner_fee =
     \<lparr>res_inputs = tb_inputs b,
      res_withdrawal_outputs =
        map (\<lambda>o1. \<lparr>o_request_id = r_id (po_request o1), o_recipient = r_recipient (po_request o1),
                  o_amount = po_net_amount o1\<rparr>) (tb_outputs b),
      res_change = tb_final_change b,
      res_fee = miner_fee,
      res_selected_requests = map po_request (tb_outputs b)\<rparr>"

definition select_coins ::
    "('r::linorder, 'a) bitcoin_crate \<Rightarrow> UtxoCandidate list \<Rightarrow> WithdrawalRequest list
       \<Rightarrow> ('r, 'a) CoinSelectionParams \<Rightarrow> 'r \<Rightarrow> (CoinSelectionError, CoinSelectionResult) outcome" where
  "select_coins bc utxos requests params fee_rate =
     (if utxos = [] then Err EmptyPool
      else if requests = [] then Err NoRequests
      else if max_withdrawal_requests params = 0 then Err NoRequests
      else
        let builder = initial_builder params requests fee_rate in
        and_then (filter_by (eligible bc builder (total_requested builder)) utxos) (\<lambda>candidates.
        let pool = sort_by pool_order candidates in
        and_then (funding_step bc pool builder) (\<lambda>(builder, raw_change).
        and_then (consolidation_step bc pool raw_change builder) (\<lambda>builder.
        and_then (compute_raw_change builder) (\<lambda>(builder, _).
        and_then (finalize_fees bc builder) (\<lambda>(builder, miner_fee).
          Ok (selection_result builder miner_fee)))))))"

section \<open>The orders are comparators\<close>

interpretation request_cmp: comparator request_order
  by unfold_locales (auto simp: request_order_def not_less)

interpretation pool_cmp: comparator pool_order
proof
  fix a b c :: UtxoCandidate
  show "pool_order a b = Greater \<longleftrightarrow> pool_order b a = Less"
    by (auto simp: pool_order_def then_with_simps)
  show "pool_order a b \<noteq> Greater \<Longrightarrow> pool_order b c \<noteq> Greater \<Longrightarrow> pool_order a c \<noteq> Greater"
    by (auto simp: pool_order_def then_with_not_Greater not_less)
qed

interpretation consolidation_cmp: comparator consolidation_order
proof
  fix a b c :: UtxoCandidate
  show "consolidation_order a b = Greater \<longleftrightarrow> consolidation_order b a = Less"
    by (auto simp: consolidation_order_def then_with_simps split: bool.splits)
  show "consolidation_order a b \<noteq> Greater \<Longrightarrow> consolidation_order b c \<noteq> Greater \<Longrightarrow>
      consolidation_order a c \<noteq> Greater"
    by (cases "is_urgent a"; cases "is_urgent b"; cases "is_urgent c")
      (auto simp: consolidation_order_def then_with_not_Greater then_with_simps not_less)
qed

lemma pool_sorted: "sorted_wrt (\<lambda>a b. u_amount b \<le> u_amount a) (sort_by pool_order us)"
  by (rule sorted_wrt_mono_rel [OF _ pool_cmp.sorted])
    (auto simp: pool_order_def then_with_simps)

section \<open>Funding takes a prefix of the pool\<close>

lemma fund_prefix:
  assumes "fund limit req pool ins tin = (inputs, t)"
  shows "\<exists>k \<le> length pool. inputs = ins @ take k pool \<and>
    t = tin + sum_list (map u_amount (take k pool)) \<and>
    (k = length pool \<or> limit \<le> length ins + k \<or> req \<le> t) \<and>
    (\<forall>j < k. length ins + j < limit \<and> tin + sum_list (map u_amount (take j pool)) < req)"
  using assms
proof (induction pool arbitrary: ins tin)
  case (Cons u us)
  show ?case
  proof (cases "limit \<le> length ins \<or> req \<le> tin")
    case True
    then show ?thesis using Cons.prems by (intro exI [of _ 0]) (auto split: if_splits)
  next
    case False
    then obtain k where k: "k \<le> length us" "inputs = (ins @ [u]) @ take k us"
      "t = tin + u_amount u + sum_list (map u_amount (take k us))"
      "k = length us \<or> limit \<le> length (ins @ [u]) + k \<or> req \<le> t"
      "\<forall>j < k. length (ins @ [u]) + j < limit \<and>
        tin + u_amount u + sum_list (map u_amount (take j us)) < req"
      using Cons.IH [of "ins @ [u]" "tin + u_amount u"] Cons.prems by auto
    have "length ins + j < limit \<and> tin + sum_list (map u_amount (take j (u # us))) < req"
      if "j < Suc k" for j
    proof (cases j)
      case (Suc i)
      then show ?thesis using k(5) that by (simp add: add.assoc)
    qed (use False in \<open>simp add: not_le\<close>)
    then show ?thesis using k(1-4) by (intro exI [of _ "Suc k"]) (auto simp: add.assoc)
  qed
qed simp

section \<open>Consolidation\<close>

lemma remaining_subset:
  assumes "mset inputs \<subseteq># mset pool"
  shows "mset inputs + mset (remaining pool inputs) \<subseteq># mset pool"
proof -
  let ?P = "\<lambda>u. u_status u = Confirmed \<and> \<not> list_ex (\<lambda>s. u_id s = u_id u) inputs"
  have "filter (\<lambda>u. \<not> ?P u) inputs = inputs"
    by (rule filter_True) (auto simp: list_ex_iff)
  then have "filter_mset (\<lambda>u. \<not> ?P u) (mset inputs) = mset inputs"
    by (metis mset_filter)
  then have "mset inputs \<subseteq># filter_mset (\<lambda>u. \<not> ?P u) (mset pool)"
    using multiset_filter_mono [OF assms, of "\<lambda>u. \<not> ?P u"] by (simp only:)
  then have "mset inputs + filter_mset ?P (mset pool) \<subseteq>#
      filter_mset (\<lambda>u. \<not> ?P u) (mset pool) + filter_mset ?P (mset pool)"
    by (rule subset_mset.add_right_mono)
  also have "\<dots> = mset pool"
    unfolding add.commute [of _ "filter_mset ?P (mset pool)"] by (rule multiset_partition [symmetric])
  finally have "mset inputs + filter_mset ?P (mset pool) \<subseteq># mset pool" .
  then show ?thesis by (simp add: remaining_def)
qed

text \<open>
  What holds of the builder between funding and fee allocation: the raw change is the surplus
  of the inputs over the requests, the inputs come from the pool, are few enough, and pass
  the fee and weight checks.
\<close>

definition builder_ok ::
    "('r, 'a) bitcoin_crate \<Rightarrow> UtxoCandidate list \<Rightarrow> ('r, 'a) TransactionBuilder \<Rightarrow> bool" where
  "builder_ok bc pool b \<longleftrightarrow>
     total_requested b \<le> input_total b \<and>
     tb_raw_change b = Some (input_total b - total_requested b) \<and>
     mset (tb_inputs b) \<subseteq># mset pool \<and>
     length (tb_inputs b) \<le> max_inputs (tb_params b) \<and>
     check_fees bc b = Ok () \<and> check_weight bc b = Ok ()"

lemma compute_raw_change_Ok:
  "compute_raw_change b = Ok (b', v) \<longleftrightarrow>
     total_requested b \<le> input_total b \<and> v = input_total b - total_requested b \<and>
     b' = b\<lparr>tb_raw_change := Some v\<rparr>"
  by (auto simp: compute_raw_change_def Let_def)

lemma compute_raw_change_no_Err: "compute_raw_change b \<noteq> Err e"
  by (auto simp: compute_raw_change_def Let_def)

lemma builder_ok_recompute:
  "builder_ok bc pool b \<Longrightarrow> compute_raw_change b = Ok (b, input_total b - total_requested b)"
  by (cases b) (simp add: builder_ok_def compute_raw_change_def Let_def)

lemma weight_limits_check:
  "(exceeds_any_weight_limit bc b :: (CoinSelectionError, bool) outcome) = Ok False \<longleftrightarrow>
     check_weight bc b = Ok ()"
  by (cases "tx_weight bc b :: (CoinSelectionError, u64) outcome")
    (auto simp: exceeds_any_weight_limit_def exceeds_max_weight_def check_weight_def Let_def
      exceeds_max_ancestor_package_weight_def unconfirmed_ancestor_weight_def)

text \<open>
  A run of consolidation either keeps the builder or appends a prefix of the given inputs;
  the builder that comes out satisfies the checks, and only inputs changed.
\<close>

lemma consolidate_ok:
  assumes "consolidate bc us b = Ok b'" "builder_ok bc pool b"
    "mset (tb_inputs b) + mset us \<subseteq># mset pool"
  shows "builder_ok bc pool b' \<and>
    (\<exists>k. tb_inputs b' = tb_inputs b @ take k us) \<and>
    tb_params b' = tb_params b \<and> tb_fee_rate b' = tb_fee_rate b \<and> tb_outputs b' = tb_outputs b \<and>
    tb_final_change b' = tb_final_change b"
  using assms
proof (induction us arbitrary: b)
  case Nil
  then show ?case by (auto intro: exI [of _ 0])
next
  case (Cons u us)
  show ?case
  proof (cases "max_inputs (tb_params b) \<le> length (tb_inputs b)")
    case True
    then show ?thesis using Cons.prems by (auto intro: exI [of _ 0])
  next
    case False
    then obtain p over where p_over:
      "(compute_raw_change (b\<lparr>tb_inputs := tb_inputs b @ [u]\<rparr>) :: (CoinSelectionError, _) outcome) = Ok p"
      "(case check_fees bc (fst p) of Ok _ \<Rightarrow> exceeds_any_weight_limit bc (fst p)
         | Err _ \<Rightarrow> Ok True | Panic \<Rightarrow> (Panic :: (CoinSelectionError, bool) outcome)) = Ok over"
      "(if over then and_then (compute_raw_change ((fst p)\<lparr>tb_inputs := butlast (tb_inputs (fst p))\<rparr>))
          (\<lambda>(b2, _). Ok b2) else consolidate bc us (fst p)) = Ok b'"
      using Cons.prems(1) by (auto simp: split_beta)
    obtain b1 v where p: "p = (b1, v)" by (cases p)
    note b1 = p_over [unfolded p fst_conv]
    show ?thesis
    proof (cases over)
      case True
      from b1(1) have "b1\<lparr>tb_inputs := butlast (tb_inputs b1)\<rparr> = b\<lparr>tb_raw_change := Some v\<rparr>"
        by (auto simp: compute_raw_change_Ok)
      then have "b' = b"
        using b1(3) True Cons.prems(2)
        by (auto simp: compute_raw_change_Ok builder_ok_def input_total_def total_requested_def)
      then show ?thesis using Cons.prems(2) by (auto intro: exI [of _ 0])
    next
      case False
      then have checks: "check_fees bc b1 = Ok ()" "check_weight bc b1 = Ok ()"
        using b1(2) by (auto simp: weight_limits_check split: outcome.splits)
      have b1_eq: "b1 = b\<lparr>tb_inputs := tb_inputs b @ [u], tb_raw_change := Some v\<rparr>"
        "v = input_total b1 - total_requested b1" "total_requested b1 \<le> input_total b1"
        using b1(1) by (auto simp: compute_raw_change_Ok input_total_def total_requested_def)
      have sub: "mset (tb_inputs b1) + mset us \<subseteq># mset pool"
        using Cons.prems(3) b1_eq(1) by simp
      have "tb_raw_change b1 = Some v" "length (tb_inputs b1) \<le> max_inputs (tb_params b1)"
        using b1_eq(1) \<open>\<not> max_inputs (tb_params b) \<le> length (tb_inputs b)\<close> by simp_all
      then have "builder_ok bc pool b1"
        using b1_eq(2,3) checks subset_mset.order_trans [OF mset_subset_eq_add_left sub]
        by (simp add: builder_ok_def)
      from Cons.IH [OF _ this sub] b1(3) False obtain k where
        "builder_ok bc pool b'" "tb_inputs b' = tb_inputs b1 @ take k us"
        "tb_params b' = tb_params b1" "tb_fee_rate b' = tb_fee_rate b1"
        "tb_outputs b' = tb_outputs b1" "tb_final_change b' = tb_final_change b1"
        by auto
      then show ?thesis using b1_eq(1) by (auto intro: exI [of _ "Suc k"])
    qed
  qed
qed

end
