(* ===== verification/Coin_Selection_Correct.thy ===== *)
theory Coin_Selection_Correct
  imports Coin_Selection
begin

text \<open>
  Correctness of coin selection. The lemmas read the builder's word arithmetic as exact
  arithmetic; \<open>select_coins_Ok\<close> takes a successful selection apart into the eligible pool,
  the funded and consolidated builder and the fee allocation, and every property of a
  successful selection follows from that one decomposition.
\<close>

section \<open>Assumptions on amounts and on the bitcoin crate\<close>

text \<open>
  \<open>amounts_fit\<close>: the value of all candidates and of all requests, in satoshis, is below
  \<open>2 ^ 64\<close> (all bitcoin there will ever be is below \<open>2 ^ 51\<close> satoshis).
  \<open>fee_wu_bounded\<close>: \<^verbatim>\<open>FeeRate::fee_wu\<close> returns a thousandth of a 64-bit product, rounded up, so
  the fee is at most one satoshi above a thousandth of \<open>2 ^ 64\<close>.
\<close>

definition amounts_fit :: "UtxoCandidate list \<Rightarrow> WithdrawalRequest list \<Rightarrow> bool" where
  "amounts_fit utxos requests \<longleftrightarrow>
     sum_list (map (\<lambda>u. unat (u_amount u)) utxos) < 2 ^ 64 \<and>
     sum_list (map (\<lambda>r. unat (r_amount r)) requests) < 2 ^ 64 \<and>
     length requests < 2 ^ 64"

definition fee_wu_bounded :: "('r, 'a) bitcoin_crate \<Rightarrow> bool" where
  "fee_wu_bounded bc \<longleftrightarrow>
     (\<forall>rate w f. fee_wu bc rate w = Some f \<longrightarrow> 1000 * unat f < 2 ^ 64 + 1000)"

section \<open>Fees\<close>

lemma check_outputs_Ok:
  "check_outputs d os = Ok () \<longleftrightarrow>
     (\<forall>o1 \<in> set os. d + po_dust_threshold o1 \<le> r_amount (po_request o1))"
  by (induction os) (auto simp: not_less)

lemma check_fees_Ok:
  assumes "check_fees bc b = Ok ()" "0 < length (tb_outputs b)" "length (tb_outputs b) < 2 ^ 64"
  obtains w f g where "(tx_weight bc b :: (CoinSelectionError, _) outcome) = Ok w"
    "fee_wu bc (tb_fee_rate b) w = Some f"
    "(cpfp_deficit bc b :: (CoinSelectionError, _) outcome) = Ok g"
    "(required_fee bc b :: (CoinSelectionError, _) outcome) = Ok (f + g)"
    "div_ceil (f + g) (of_nat (length (tb_outputs b))) \<le> max_fee_per_request (tb_params b)"
    "\<forall>o1 \<in> set (tb_outputs b).
       div_ceil (f + g) (of_nat (length (tb_outputs b))) + po_dust_threshold o1 \<le> r_amount (po_request o1)"
proof -
  have "(of_nat (length (tb_outputs b)) :: u64) \<noteq> 0"
    using assms(2,3) by (simp add: word_unat_eq_iff unat_of_nat take_bit_nat_eq_self_iff)
  then obtain w f g where w: "(tx_weight bc b :: (CoinSelectionError, _) outcome) = Ok w"
    and f: "(fee_for_weight bc (tb_fee_rate b) w :: (CoinSelectionError, _) outcome) = Ok f"
    and g: "(cpfp_deficit bc b :: (CoinSelectionError, _) outcome) = Ok g"
    and rest: "\<not> max_fee_per_request (tb_params b) < div_ceil (f + g) (of_nat (length (tb_outputs b)))"
      "check_outputs (div_ceil (f + g) (of_nat (length (tb_outputs b)))) (tb_outputs b) = Ok ()"
    using assms(1) by (auto simp: check_fees_def Let_def split: if_splits)
  show thesis
  proof (rule that [OF w _ g])
    show "fee_wu bc (tb_fee_rate b) w = Some f" using f by (simp add: fee_for_weight_def)
    show "(required_fee bc b :: (CoinSelectionError, _) outcome) = Ok (f + g)"
      using w f g by (simp add: required_fee_def)
  qed (use rest in \<open>simp_all add: check_outputs_Ok not_less\<close>)
qed

lemma po_dust_small: "unat (po_dust_threshold o1) \<le> 330" "294 \<le> unat (po_dust_threshold o1)"
  by (simp_all add: po_dust_threshold_def WPKH_DUST_RELAY_MIN_VALUE_def TR_DUST_RELAY_MIN_VALUE_def)

lemma fee_small: "fee_wu_bounded bc \<Longrightarrow> fee_wu bc r w = Some f \<Longrightarrow> unat f < 2 ^ 60"
  unfolding fee_wu_bounded_def by fastforce

lemma cpfp_deficit_small:
  assumes "fee_wu_bounded bc" "(cpfp_deficit bc b :: ('e, _) outcome) = Ok g"
  shows "unat g < 2 ^ 60"
proof -
  let ?w = "sum_list (map anc_tx_weight (unconfirmed_ancestors b))"
  obtain f where "fee_wu bc (tb_fee_rate b) ?w = Some f" "unat g \<le> unat f"
    using assms(2) by (auto simp: cpfp_deficit_def Let_def fee_for_weight_def u_arith)
  then show ?thesis using fee_small [OF assms(1)] by fastforce
qed

text \<open>
  \<open>share\<close> is the part of the fee each request bears: it covers the required fee together with
  the other requests' shares, and leaves every output above dust.
\<close>

lemma fee_share:
  assumes "check_fees bc b = Ok ()" "fee_wu_bounded bc"
    "0 < length (tb_outputs b)" "length (tb_outputs b) < 2 ^ 64"
    "(required_fee bc b :: (CoinSelectionError, _) outcome) = Ok req"
  defines "share \<equiv> div_ceil req (of_nat (length (tb_outputs b)))"
  shows "unat req \<le> length (tb_outputs b) * unat share"
    "0 < unat req \<Longrightarrow> length (tb_outputs b) * (unat share - 1) < unat req"
    "share \<le> max_fee_per_request (tb_params b)"
    "\<And>o1. o1 \<in> set (tb_outputs b) \<Longrightarrow>
       unat share + unat (po_dust_threshold o1) \<le> unat (r_amount (po_request o1))"
proof -
  obtain w f g where c: "fee_wu bc (tb_fee_rate b) w = Some f"
    "(cpfp_deficit bc b :: (CoinSelectionError, _) outcome) = Ok g" "req = f + g"
    "share \<le> max_fee_per_request (tb_params b)"
    "\<forall>o1 \<in> set (tb_outputs b). share + po_dust_threshold o1 \<le> r_amount (po_request o1)"
    using check_fees_Ok [OF assms(1,3,4)] assms(5) unfolding share_def by (metis outcome.inject(1))
  have n: "unat (of_nat (length (tb_outputs b)) :: u64) = length (tb_outputs b)"
    using assms(4) by (simp add: unat_of_nat take_bit_nat_eq_self_iff)
  then have n0: "(of_nat (length (tb_outputs b)) :: u64) \<noteq> 0" using assms(3) by force
  note dc = div_ceil_bounds [OF n0, of req, folded share_def, unfolded n]
  have "unat f + unat g < 2 ^ 61"
    using fee_small [OF assms(2) c(1)] cpfp_deficit_small [OF assms(2) c(2)] by simp
  then have "unat req < 2 ^ 61" using c(3) by (simp add: unat_add_lem [THEN iffD1])
  then have small: "unat share < 2 ^ 61" using dc(3) by simp
  show "unat req \<le> length (tb_outputs b) * unat share"
    "0 < unat req \<Longrightarrow> length (tb_outputs b) * (unat share - 1) < unat req"
    "share \<le> max_fee_per_request (tb_params b)" using dc c(4) by auto
  show "unat share + unat (po_dust_threshold o1) \<le> unat (r_amount (po_request o1))"
    if "o1 \<in> set (tb_outputs b)" for o1
  proof -
    have "unat (share + po_dust_threshold o1) = unat share + unat (po_dust_threshold o1)"
      using small po_dust_small(1) [of o1] by (intro unat_add_lem [THEN iffD1]) simp
    then show ?thesis using c(5) that by (metis word_le_nat_alt)
  qed
qed

section \<open>Fee allocation\<close>

lemma required_fee_outputs:
  assumes "map po_request os = map po_request (tb_outputs b)"
  shows "required_fee bc (b\<lparr>tb_outputs := os, tb_final_change := c\<rparr>) = required_fee bc b"
proof -
  have "length os = length (tb_outputs b)" using assms by (metis length_map)
  moreover have "map (\<lambda>o1. output_weight_for_recipient (po_request o1)) os =
      map (\<lambda>o1. output_weight_for_recipient (po_request o1)) (tb_outputs b)"
    using assms by (metis (no_types, lifting) list.map_comp comp_def map_eq_conv)
  ultimately have "weight_for bc (b\<lparr>tb_outputs := os, tb_final_change := c\<rparr>) = weight_for bc b"
    by (simp add: weight_for_def change_script_def fun_eq_iff)
  then show ?thesis
    by (simp add: required_fee_def tx_weight_def cpfp_deficit_def unconfirmed_ancestors_def)
qed

lemma sum_list_minus_const:
  "sum_list (map (\<lambda>x. f x - c) xs) = sum_list (map f xs) - of_nat (length xs) * (c :: 'b::ring_1)"
  by (induction xs) (simp_all add: algebra_simps)

lemma shares_fit:
  fixes share :: u64
  assumes "\<And>o1. o1 \<in> set os \<Longrightarrow> unat share \<le> unat (r_amount (po_request o1))"
  shows "length os * unat share \<le> sum_list (map (\<lambda>o1. unat (r_amount (po_request o1))) os)"
  using assms by (induction os) (auto simp: add_mono)

definition charged :: "u64 \<Rightarrow> PendingOutput list \<Rightarrow> PendingOutput list" where
  "charged share = map (\<lambda>o1. o1\<lparr>po_net_amount := r_amount (po_request o1) - share\<rparr>)"

lemma finalize_fees_eq:
  assumes "builder_ok bc pool b" "fee_wu_bounded bc"
    "0 < length (tb_outputs b)" "length (tb_outputs b) < 2 ^ 64"
    "sum_list (map (\<lambda>o1. unat (r_amount (po_request o1))) (tb_outputs b)) < 2 ^ 64"
    "(required_fee bc b :: (CoinSelectionError, _) outcome) = Ok req"
  defines "rc \<equiv> input_total b - total_requested b"
    and "share \<equiv> div_ceil req (of_nat (length (tb_outputs b)))"
  shows "finalize_fees bc b =
      (if 0 < rc \<and> rc < change_dust_threshold bc b
       then Err (SubDustChange rc (change_dust_threshold bc b))
       else Ok (b\<lparr>tb_outputs := charged share (tb_outputs b),
                  tb_final_change := (if 0 < rc then Some rc else None)\<rparr>,
                of_nat (length (tb_outputs b)) * share))"
    and "unat (of_nat (length (tb_outputs b)) * share) = length (tb_outputs b) * unat share"
proof -
  let ?n = "of_nat (length (tb_outputs b)) :: u64"
  let ?b' = "b\<lparr>tb_outputs := charged share (tb_outputs b),
      tb_final_change := (if 0 < rc then Some rc else None)\<rparr>"
  have cf: "check_fees bc b = Ok ()" and raw: "tb_raw_change b = Some rc"
    using assms(1) by (auto simp: builder_ok_def rc_def)
  have n0: "?n \<noteq> 0"
    using assms(3,4) by (simp add: word_unat_eq_iff unat_of_nat take_bit_nat_eq_self_iff)
  note fs = fee_share [OF cf assms(2-4,6), folded share_def]
  have "length (tb_outputs b) * unat share < 2 ^ 64"
    using shares_fit [of "tb_outputs b" share] fs(4) assms(5) by (meson add_leD1 le_less_trans)
  then show prod: "unat (?n * share) = length (tb_outputs b) * unat share"
    using assms(4) by (simp add: unat_word_ariths unat_of_nat take_bit_nat_eq_self)
  have req': "(required_fee bc ?b' :: (CoinSelectionError, _) outcome) = Ok req"
    by (subst required_fee_outputs) (simp_all add: charged_def comp_def assms(6))
  have net: "sum_list (map po_net_amount (charged share (tb_outputs b))) = total_requested b - ?n * share"
    by (simp add: charged_def comp_def total_requested_def sum_list_minus_const)
  have change: "(case if 0 < rc then Some rc else None of None \<Rightarrow> 0 | Some c \<Rightarrow> c) = rc"
    by (auto simp: word_gt_0)
  have fee: "input_total ?b' - sum_list (map po_net_amount (charged share (tb_outputs b))) - rc =
      ?n * share"
    unfolding net rc_def by (simp add: input_total_def)
  have enough: "req \<le> ?n * share" using fs(1) prod by (simp add: word_le_nat_alt)
  show "finalize_fees bc b =
      (if 0 < rc \<and> rc < change_dust_threshold bc b
       then Err (SubDustChange rc (change_dust_threshold bc b)) else Ok (?b', ?n * share))"
    using raw cf assms(6) req' change fee enough n0
    by (simp add: finalize_fees_def Let_def share_def [symmetric] charged_def [symmetric])
qed

section \<open>A successful selection taken apart\<close>

lemma funding_step_Ok:
  assumes "funding_step bc pool b = Ok (b', rc)" "tb_inputs b = []"
  obtains k where "k \<le> length pool" "b' = b\<lparr>tb_inputs := take k pool, tb_raw_change := Some rc\<rparr>"
    "rc = input_total b' - total_requested b'" "builder_ok bc pool b'"
    "\<And>j. j < k \<Longrightarrow> sum_list (map u_amount (take j pool)) < total_requested b"
proof -
  obtain inputs t where f: "fund (max_inputs (tb_params b)) (total_requested b) pool [] 0 = (inputs, t)"
    by fastforce
  from fund_prefix [OF f] obtain k where k: "k \<le> length pool" "inputs = take k pool"
    "\<forall>j < k. j < max_inputs (tb_params b) \<and> sum_list (map u_amount (take j pool)) < total_requested b"
    by auto
  have lim: "k \<le> max_inputs (tb_params b)" using k(3) by (metis not_le nat_less_le order_refl)
  from assms f k(2) have b': "b' = b\<lparr>tb_inputs := take k pool, tb_raw_change := Some rc\<rparr>"
    and ok: "(compute_raw_change (b\<lparr>tb_inputs := take k pool\<rparr>) :: (CoinSelectionError, _) outcome) = Ok (b', rc)"
      "check_fees bc b' = Ok ()" "check_weight bc b' = Ok ()"
    by (auto simp: funding_step_def Let_def compute_raw_change_Ok split: if_splits)
  have "mset (take k pool) \<subseteq># mset pool"
    by (metis append_take_drop_id mset_append mset_subset_eq_add_left)
  then have "builder_ok bc pool b'" "rc = input_total b' - total_requested b'"
    using ok b' lim k(1) by (auto simp: builder_ok_def compute_raw_change_Ok input_total_def total_requested_def)
  then show thesis using that k b' by blast
qed

lemma consolidation_inputs_subset:
  assumes "builder_ok bc pool b"
  shows "mset (tb_inputs b) + mset (take k (remaining pool (tb_inputs b))) \<subseteq># mset pool"
proof -
  have "mset (take k (remaining pool (tb_inputs b))) \<subseteq># mset (remaining pool (tb_inputs b))"
    by (metis append_take_drop_id mset_append mset_subset_eq_add_left)
  then show ?thesis
    using remaining_subset [of "tb_inputs b" pool] assms
    by (meson builder_ok_def subset_mset.add_left_mono subset_mset.order_trans)
qed

lemma consolidation_step_Ok:
  assumes "consolidation_step bc pool rc b = Ok b'" "builder_ok bc pool b"
  shows "\<exists>m. builder_ok bc pool b' \<and>
    tb_inputs b' = tb_inputs b @ take m (take (max_consolidation b) (remaining pool (tb_inputs b))) \<and>
    tb_params b' = tb_params b \<and> tb_fee_rate b' = tb_fee_rate b \<and> tb_outputs b' = tb_outputs b \<and>
    tb_final_change b' = tb_final_change b"
  using assms consolidate_ok [OF _ assms(2) consolidation_inputs_subset [OF assms(2)], of "max_consolidation b" b']
  by (auto simp: consolidation_step_def split: if_splits intro: exI [of _ 0])

definition spendable_pool ::
    "('r::linorder, 'a) bitcoin_crate \<Rightarrow> UtxoCandidate list \<Rightarrow> ('r, 'a) TransactionBuilder \<Rightarrow> UtxoCandidate list" where
  "spendable_pool bc utxos b =
     sort_by pool_order
       (filter (\<lambda>u. (eligible bc b (total_requested b) u :: (CoinSelectionError, _) outcome) = Ok True) utxos)"

lemma spendable_pool_subset: "mset (spendable_pool bc utxos b) \<subseteq># mset utxos"
  by (simp add: spendable_pool_def multiset_filter_subset)

lemma select_coins_Ok:
  assumes "select_coins bc utxos requests params fee_rate = Ok res"
  defines "b0 \<equiv> initial_builder params requests fee_rate"
  defines "pool \<equiv> spendable_pool bc utxos b0"
  obtains b k extras b' fee where
    "builder_ok bc pool b" "tb_inputs b = take k pool @ extras" "k \<le> length pool"
    "\<And>j. j < k \<Longrightarrow> sum_list (map u_amount (take j pool)) < total_requested b0"
    "total_requested b0 \<le> sum_list (map u_amount (take k pool))"
    "\<And>u. u \<in> set extras \<Longrightarrow> u_status u = Confirmed"
    "tb_params b = params" "tb_fee_rate b = max fee_rate (min_fee_rate params)"
    "tb_outputs b = selected_outputs params requests" "tb_outputs b \<noteq> []" "tb_final_change b = None"
    "finalize_fees bc b = Ok (b', fee)" "res = selection_result b' fee"
proof -
  from assms(1) have ne: "requests \<noteq> []" "max_withdrawal_requests params \<noteq> 0"
    by (auto simp: select_coins_def split: if_splits)
  from assms(1) ne obtain cs p1 b2 p3 p4 where
    cs: "filter_by (eligible bc b0 (total_requested b0) :: _ \<Rightarrow> (CoinSelectionError, _) outcome) utxos = Ok cs"
    and p1: "funding_step bc (sort_by pool_order cs) b0 = Ok p1"
    and b2: "consolidation_step bc (sort_by pool_order cs) (snd p1) (fst p1) = Ok b2"
    and p3: "(compute_raw_change b2 :: (CoinSelectionError, _) outcome) = Ok p3"
    and p4: "finalize_fees bc (fst p3) = Ok p4" "res = selection_result (fst p4) (snd p4)"
    by (auto simp: select_coins_def Let_def b0_def split_beta split: if_splits)
  have pool: "sort_by pool_order cs = pool"
    using filter_by_eq_Ok [OF cs] by (simp add: pool_def spendable_pool_def)
  have b0: "tb_inputs b0 = []" "tb_outputs b0 = selected_outputs params requests" "tb_params b0 = params"
    "tb_fee_rate b0 = max fee_rate (min_fee_rate params)" "tb_final_change b0 = None"
    by (simp_all add: b0_def initial_builder_def)
  obtain b1 rc where p1_eq: "p1 = (b1, rc)" by fastforce
  from p1 p1_eq pool obtain k where k: "k \<le> length pool"
    "b1 = b0\<lparr>tb_inputs := take k pool, tb_raw_change := Some rc\<rparr>" "builder_ok bc pool b1"
    "\<And>j. j < k \<Longrightarrow> sum_list (map u_amount (take j pool)) < total_requested b0"
    using funding_step_Ok [OF _ b0(1)] by metis
  let ?us = "take (max_consolidation b1) (remaining pool (tb_inputs b1))"
  have conf: "u_status u = Confirmed" if "u \<in> set (take m ?us)" for u m
    using that by (auto simp: remaining_def dest!: in_set_takeD)
  from consolidation_step_Ok [OF _ k(3)] b2
  obtain m where m: "builder_ok bc pool b2" "tb_inputs b2 = take k pool @ take m ?us"
    "tb_params b2 = params" "tb_fee_rate b2 = max fee_rate (min_fee_rate params)"
    "tb_outputs b2 = selected_outputs params requests" "tb_final_change b2 = None"
    unfolding pool p1_eq using k(2) b0 by fastforce
  have "fst p3 = b2" using p3 builder_ok_recompute [OF m(1)] by (metis fst_conv outcome.inject(1))
  moreover have "selected_outputs params requests \<noteq> []"
    using ne by (simp add: selected_outputs_def) (metis length_sort_by list.size(3) length_0_conv)
  moreover have "total_requested b0 \<le> sum_list (map u_amount (take k pool))"
    using k(2,3) by (simp add: builder_ok_def input_total_def total_requested_def)
  ultimately show thesis
    by (intro that [of b2 k "take m ?us" "fst p4" "snd p4"]) (use m k(1,4) conf p4 in simp_all)
qed

section \<open>The transaction a result describes\<close>

definition result_builder ::
    "('r::linorder, 'a) CoinSelectionParams \<Rightarrow> 'r \<Rightarrow> CoinSelectionResult \<Rightarrow> ('r, 'a) TransactionBuilder" where
  "result_builder params fee_rate res =
     \<lparr>tb_fee_rate = max fee_rate (min_fee_rate params), tb_params = params,
      tb_inputs = res_inputs res,
      tb_outputs = map (\<lambda>r. \<lparr>po_request = r, po_net_amount = 0\<rparr>) (res_selected_requests res),
      tb_raw_change = Some (case res_change res of None \<Rightarrow> 0 | Some c \<Rightarrow> c), tb_final_change = None\<rparr>"

lemma unat_input_total:
  "sum_list (map (\<lambda>u. unat (u_amount u)) (tb_inputs b)) < 2 ^ 64 \<Longrightarrow>
     unat (input_total b) = sum_list (map (\<lambda>u. unat (u_amount u)) (tb_inputs b))"
  using unat_sum_list [of "map u_amount (tb_inputs b)"] by (simp add: input_total_def comp_def)

lemma unat_total_requested:
  "sum_list (map (\<lambda>o1. unat (r_amount (po_request o1))) (tb_outputs b)) < 2 ^ 64 \<Longrightarrow>
     unat (total_requested b) = sum_list (map (\<lambda>o1. unat (r_amount (po_request o1))) (tb_outputs b))"
  using unat_sum_list [of "map (\<lambda>o1. r_amount (po_request o1)) (tb_outputs b)"]
  by (simp add: total_requested_def comp_def)

lemma selected_requests_subset:
  "mset (take k (sort_by c xs)) \<subseteq># mset xs"
  by (metis append_take_drop_id mset_append mset_sort_by mset_subset_eq_add_left)

lemma selected_outputs_facts:
  assumes "amounts_fit utxos requests"
  shows "sum_list (map (\<lambda>o1. unat (r_amount (po_request o1))) (selected_outputs params requests)) < 2 ^ 64"
    "length (selected_outputs params requests) < 2 ^ 64"
proof -
  have "sum_list (map (\<lambda>r. unat (r_amount r)) (take (max_withdrawal_requests params) (sort_by request_order requests)))
      \<le> sum_list (map (\<lambda>r. unat (r_amount r)) requests)"
    by (rule sum_list_map_le_mset [OF selected_requests_subset])
  then show "sum_list (map (\<lambda>o1. unat (r_amount (po_request o1))) (selected_outputs params requests)) < 2 ^ 64"
    using assms by (simp add: amounts_fit_def selected_outputs_def comp_def)
  show "length (selected_outputs params requests) < 2 ^ 64"
    using assms by (simp add: amounts_fit_def selected_outputs_def min.strict_coboundedI1)
qed

text \<open>Everything the properties below use, in exact arithmetic.\<close>

lemma selection_facts:
  assumes sel: "select_coins bc utxos requests params fee_rate = Ok res"
    and fit: "amounts_fit utxos requests" and law: "fee_wu_bounded bc"
  defines "pool \<equiv> spendable_pool bc utxos (initial_builder params requests fee_rate)"
  defines "reqs \<equiv> take (max_withdrawal_requests params) (sort_by request_order requests)"
  obtains req share where
    "res_selected_requests res = reqs" "reqs \<noteq> []"
    "builder_ok bc pool (result_builder params fee_rate res)"
    "(required_fee bc (result_builder params fee_rate res) :: (CoinSelectionError, _) outcome) = Ok req"
    "share = div_ceil req (of_nat (length reqs))"
    "res_withdrawal_outputs res =
       map (\<lambda>r. \<lparr>o_request_id = r_id r, o_recipient = r_recipient r, o_amount = r_amount r - share\<rparr>) reqs"
    "unat (res_fee res) = length reqs * unat share"
    "\<And>c. res_change res = Some c \<Longrightarrow> c = input_total (result_builder params fee_rate res) -
        total_requested (result_builder params fee_rate res) \<and> 0 < c \<and>
        dust_threshold_for_change (script_pubkey bc (change_address params)) \<le> c"
    "res_change res = None \<Longrightarrow> input_total (result_builder params fee_rate res) =
        total_requested (result_builder params fee_rate res)"
proof -
  obtain b k extras b' fee where b: "builder_ok bc pool b"
    "tb_params b = params" "tb_fee_rate b = max fee_rate (min_fee_rate params)"
    "tb_outputs b = selected_outputs params requests" "tb_outputs b \<noteq> []" "tb_final_change b = None"
    "finalize_fees bc b = Ok (b', fee)" "res = selection_result b' fee"
    using select_coins_Ok [OF sel, folded pool_def] by metis
  let ?rc = "input_total b - total_requested b"
  note so = selected_outputs_facts [OF fit, of params]
  have outs: "tb_outputs b = map (\<lambda>r. \<lparr>po_request = r, po_net_amount = 0\<rparr>) reqs"
    using b(4) by (simp add: selected_outputs_def reqs_def)
  have ck: "check_fees bc b = Ok ()" using b(1) by (simp add: builder_ok_def)
  obtain req where req: "(required_fee bc b :: (CoinSelectionError, _) outcome) = Ok req"
    using check_fees_Ok [OF ck] b(4,5) so(2) by (metis length_greater_0_conv)
  let ?share = "div_ceil req (of_nat (length (tb_outputs b)))"
  note fin = finalize_fees_eq [OF b(1) law _ _ _ req]
  have nosub: "\<not> (0 < ?rc \<and> ?rc < change_dust_threshold bc b)"
    and b': "b' = b\<lparr>tb_outputs := charged ?share (tb_outputs b),
        tb_final_change := (if 0 < ?rc then Some ?rc else None)\<rparr>"
    and fee: "fee = of_nat (length (tb_outputs b)) * ?share"
    and fee_nat: "unat fee = length (tb_outputs b) * unat ?share"
    using fin b(4,5,7) so by (auto split: if_splits)
  have res: "res_inputs res = tb_inputs b" "res_selected_requests res = reqs"
    "res_change res = (if 0 < ?rc then Some ?rc else None)"
    using b(8) b' outs by (simp_all add: selection_result_def charged_def comp_def)
  have "Some (case res_change res of None \<Rightarrow> 0 | Some c \<Rightarrow> c) = tb_raw_change b"
    using b(1) res(3) by (auto simp: builder_ok_def word_gt_0)
  then have rb: "result_builder params fee_rate res = b"
    using b(2,3,6) res(1,2) outs unfolding result_builder_def by (cases b) simp
  have wo: "res_withdrawal_outputs res =
      map (\<lambda>r. \<lparr>o_request_id = r_id r, o_recipient = r_recipient r,
        o_amount = r_amount r - div_ceil req (of_nat (length reqs))\<rparr>) reqs"
    using b(8) b' outs by (simp add: selection_result_def charged_def comp_def)
  have fr: "unat (res_fee res) = length reqs * unat (div_ceil req (of_nat (length reqs)))"
    using fee_nat outs b(8) by (simp add: selection_result_def)
  show thesis
  proof (rule that [of req "div_ceil req (of_nat (length reqs))"])
    show "reqs \<noteq> []" using outs b(5) by auto
    show "c = input_total (result_builder params fee_rate res) -
        total_requested (result_builder params fee_rate res) \<and> 0 < c \<and>
        dust_threshold_for_change (script_pubkey bc (change_address params)) \<le> c"
      if "res_change res = Some c" for c
      using that res(3) nosub rb b(2)
      by (auto simp: change_dust_threshold_def change_script_def not_less split: if_splits)
    show "input_total (result_builder params fee_rate res) =
        total_requested (result_builder params fee_rate res)" if "res_change res = None"
      using that res(3) rb by (auto simp: word_gt_0 split: if_splits)
  qed (use res rb b(1) req wo fr in simp_all)
qed

end
