(* ===== verification/Coin_Selection_Props.thy ===== *)
theory Coin_Selection_Props
  imports Coin_Selection_Correct
begin

text \<open>
  The properties of coin selection: conservation of value, where the inputs come from, what
  each request receives, what the fee pays for, weight limits, completeness of funding and
  freedom from panics.
\<close>

section \<open>Exact weights\<close>

text \<open>The weight of a transaction in exact arithmetic, from the sizes of its parts.\<close>

definition exact_varint_weight :: "nat \<Rightarrow> nat" where
  "exact_varint_weight n =
     4 * (if n \<le> 252 then 1 else if n \<le> 65535 then 3 else if n \<le> 4294967295 then 5 else 9)"

definition exact_tx_weight :: "UtxoCandidate list \<Rightarrow> WithdrawalRequest list \<Rightarrow> nat option \<Rightarrow> nat" where
  "exact_tx_weight inputs reqs change_script_len =
     34 + exact_varint_weight (length inputs)
     + exact_varint_weight (length reqs + (if change_script_len = None then 0 else 1))
     + sum_list (map (\<lambda>u. 164 + unat (satisfaction_weight (u_spend_path u))) inputs)
     + sum_list (map (\<lambda>r. if length (r_recipient r) = 20 then 124 else 172) reqs)
     + (case change_script_len of None \<Rightarrow> 0 | Some l \<Rightarrow> (9 + l) * 4)"

definition exact_ancestor_weight :: "UtxoCandidate list \<Rightarrow> nat" where
  "exact_ancestor_weight inputs =
     sum_list (map (\<lambda>a. unat (anc_tx_weight a))
       (unseen_ancestors {} (concat (map (\<lambda>u. status_chain (u_status u)) inputs))))"

text \<open>A bound on the weight of anything coin selection can build, ancestors included.\<close>

definition weight_budget ::
    "('r, 'a) bitcoin_crate \<Rightarrow> ('r, 'a) CoinSelectionParams \<Rightarrow> UtxoCandidate list \<Rightarrow> WithdrawalRequest list \<Rightarrow> nat" where
  "weight_budget bc params utxos requests =
     106 + sum_list (map (\<lambda>u. 164 + unat (satisfaction_weight (u_spend_path u)) +
             sum_list (map (\<lambda>a. unat (anc_tx_weight a)) (status_chain (u_status u)))) utxos)
     + 172 * length requests + (9 + length (script_pubkey bc (change_address params))) * 4"

lemma exact_varint_weight_le: "exact_varint_weight n \<le> 36"
  by (simp add: exact_varint_weight_def)

lemma varint_weight_exact: "n < 2 ^ 64 \<Longrightarrow> varint_weight (of_nat n) = of_nat (exact_varint_weight n)"
  by (simp add: varint_weight_def exact_varint_weight_def word_le_nat_alt unat_of_nat take_bit_nat_eq_self)

lemma sum_list_of_nat: "sum_list (map (\<lambda>x. of_nat (f x)) xs) = of_nat (sum_list (map f xs))"
  by (induction xs) simp_all

lemma input_weight_exact:
  assumes "164 + unat (satisfaction_weight p) < 2 ^ 64"
  shows "input_weight p = Ok (of_nat (164 + unat (satisfaction_weight p)))"
  using assms by (simp add: input_weight_def checked_add_def TXIN_BASE_WEIGHT_def)

lemma weight_for_exact:
  assumes "length inputs < 2 ^ 64" "length (tb_outputs b) + 1 < 2 ^ 64"
  shows "weight_for bc b (length inputs)
      (of_nat (sum_list (map (\<lambda>u. 164 + unat (satisfaction_weight (u_spend_path u))) inputs))) has_change =
    of_nat (exact_tx_weight inputs (map po_request (tb_outputs b))
      (if has_change then Some (length (change_script bc b)) else None))"
proof -
  have out: "output_weight_for_recipient r = of_nat (if length (r_recipient r) = 20 then 124 else 172)" for r
    by (simp add: output_weight_for_recipient_def TXOUT_BASE_WEIGHT_def)
  have "length (tb_outputs b) < 2 ^ 64" using assms(2) by simp
  then show ?thesis
    using assms
    by (simp add: weight_for_def Let_def exact_tx_weight_def varint_weight_exact comp_def out sum_list_of_nat
        output_weight_for_script_def del: of_nat_add)
      (simp add: varint_weight_exact [of "Suc (length (tb_outputs b))", simplified] algebra_simps)
qed

lemma unseen_subset: "mset (unseen_ancestors seen as) \<subseteq># mset as"
proof (induction as arbitrary: seen)
  case (Cons a as)
  show ?case using Cons [of seen] Cons [of "insert (anc_id a) seen"]
    by (auto intro: subset_mset.order_trans)
qed simp

lemma exact_le_budget:
  assumes "mset inputs \<subseteq># mset utxos" "length reqs \<le> length requests"
  shows "exact_tx_weight inputs reqs c + exact_ancestor_weight inputs \<le>
      106 + sum_list (map (\<lambda>u. 164 + unat (satisfaction_weight (u_spend_path u)) +
             sum_list (map (\<lambda>a. unat (anc_tx_weight a)) (status_chain (u_status u)))) utxos)
      + 172 * length requests + (case c of None \<Rightarrow> 0 | Some l \<Rightarrow> (9 + l) * 4)"
proof -
  let ?chains = "concat (map (\<lambda>u. status_chain (u_status u)) inputs)"
  have "exact_ancestor_weight inputs \<le> sum_list (map (\<lambda>a. unat (anc_tx_weight a)) ?chains)"
    unfolding exact_ancestor_weight_def by (rule sum_list_map_le_mset [OF unseen_subset])
  also have "\<dots> = sum_list (map (\<lambda>u. sum_list (map (\<lambda>a. unat (anc_tx_weight a)) (status_chain (u_status u)))) inputs)"
    by (induction inputs) simp_all
  finally have "sum_list (map (\<lambda>u. 164 + unat (satisfaction_weight (u_spend_path u))) inputs) +
      exact_ancestor_weight inputs \<le>
    sum_list (map (\<lambda>u. 164 + unat (satisfaction_weight (u_spend_path u)) +
      sum_list (map (\<lambda>a. unat (anc_tx_weight a)) (status_chain (u_status u)))) inputs)"
    by (simp add: sum_list_addf)
  also have "\<dots> \<le> sum_list (map (\<lambda>u. 164 + unat (satisfaction_weight (u_spend_path u)) +
      sum_list (map (\<lambda>a. unat (anc_tx_weight a)) (status_chain (u_status u)))) utxos)"
    by (rule sum_list_map_le_mset [OF assms(1)])
  finally have i: "sum_list (map (\<lambda>u. 164 + unat (satisfaction_weight (u_spend_path u))) inputs) +
      exact_ancestor_weight inputs \<le> \<dots>" .
  have "sum_list (map (\<lambda>r. if length (r_recipient r) = 20 then 124 else 172) reqs) \<le> 172 * length reqs"
    by (induction reqs) auto
  then have o: "sum_list (map (\<lambda>r. if length (r_recipient r) = 20 then 124 else 172) reqs) \<le> 172 * length requests"
    using assms(2) by (meson le_trans mult_le_mono2)
  show ?thesis
    using i o exact_varint_weight_le [of "length inputs"]
      exact_varint_weight_le [of "length reqs + (if c = None then 0 else 1)"]
    unfolding exact_tx_weight_def by simp
qed

definition has_change :: "('r, 'a) TransactionBuilder \<Rightarrow> bool" where
  "has_change b = (case tb_raw_change b of None \<Rightarrow> True | Some v \<Rightarrow> 0 < v)"

definition within_budget ::
    "('r, 'a) bitcoin_crate \<Rightarrow> UtxoCandidate list \<Rightarrow> WithdrawalRequest list \<Rightarrow> ('r, 'a) TransactionBuilder \<Rightarrow> bool" where
  "within_budget bc utxos requests b \<longleftrightarrow>
     mset (tb_inputs b) \<subseteq># mset utxos \<and> length (tb_outputs b) \<le> length requests \<and>
     weight_budget bc (tb_params b) utxos requests < 2 ^ 64"

lemma tx_weight_exact:
  assumes "within_budget bc utxos requests b"
  defines "exact \<equiv> exact_tx_weight (tb_inputs b) (map po_request (tb_outputs b))
      (if has_change b then Some (length (change_script bc b)) else None)"
  shows "(tx_weight bc b :: ('e, _) outcome) = Ok (of_nat exact)"
    "unat (unconfirmed_ancestor_weight b) = exact_ancestor_weight (tb_inputs b)"
    "exact + exact_ancestor_weight (tb_inputs b) \<le> weight_budget bc (tb_params b) utxos requests"
    "unat (of_nat exact :: u64) = exact"
proof -
  note a = assms(1) [unfolded within_budget_def]
  let ?c = "if has_change b then Some (length (change_script bc b)) else None"
  show le: "exact + exact_ancestor_weight (tb_inputs b) \<le> weight_budget bc (tb_params b) utxos requests"
    using exact_le_budget [of "tb_inputs b" utxos "map po_request (tb_outputs b)" requests ?c] a
    unfolding exact_def weight_budget_def by (auto simp: change_script_def)
  then show "unat (of_nat exact :: u64) = exact"
    using a by (simp add: unat_of_nat take_bit_nat_eq_self)
  have "sum_list (map (\<lambda>a. unat (anc_tx_weight a)) (unconfirmed_ancestors b)) = exact_ancestor_weight (tb_inputs b)"
    by (simp add: unconfirmed_ancestors_def exact_ancestor_weight_def)
  then show "unat (unconfirmed_ancestor_weight b) = exact_ancestor_weight (tb_inputs b)"
    using unat_sum_list [of "map anc_tx_weight (unconfirmed_ancestors b)"] le a
    by (simp add: unconfirmed_ancestor_weight_def comp_def)
  have each: "164 + unat (satisfaction_weight (u_spend_path u)) < 2 ^ 64" if "u \<in> set (tb_inputs b)" for u
  proof -
    have "164 + unat (satisfaction_weight (u_spend_path u)) \<le>
        sum_list (map (\<lambda>u. 164 + unat (satisfaction_weight (u_spend_path u))) (tb_inputs b))"
      using that by (intro member_le_sum_list) auto
    also have "\<dots> \<le> exact" by (simp add: exact_def exact_tx_weight_def)
    finally show ?thesis using le a by linarith
  qed
  have "length (tb_inputs b) * 164 \<le>
      sum_list (map (\<lambda>u. 164 + unat (satisfaction_weight (u_spend_path u))) (tb_inputs b))"
    by (induction "tb_inputs b" rule: rev_induct) (simp_all add: sum_list_addf sum_list_triv)
  then have len: "length (tb_inputs b) < 2 ^ 64" "length (tb_outputs b) + 1 < 2 ^ 64"
    using le a by (auto simp: exact_def exact_tx_weight_def weight_budget_def)
  have "(traverse (\<lambda>u. input_weight (u_spend_path u)) (tb_inputs b) :: ('e, _) outcome) =
      Ok (map (\<lambda>u. of_nat (164 + unat (satisfaction_weight (u_spend_path u)))) (tb_inputs b))"
    using each by (intro traverse_Ok input_weight_exact)
  then show "(tx_weight bc b :: ('e, _) outcome) = Ok (of_nat exact)"
    unfolding tx_weight_def Let_def has_change_def [symmetric] exact_def
    by (simp only: and_then.simps sum_list_of_nat weight_for_exact [OF len])
qed

section \<open>No panics\<close>

text \<open>
  \<open>fee_defined\<close>: at the given rate the crate computes a fee for every weight up to the bound
  (it returns none only when rate times weight overflows).
\<close>

definition fee_defined :: "('r, 'a) bitcoin_crate \<Rightarrow> 'r \<Rightarrow> nat \<Rightarrow> bool" where
  "fee_defined bc rate bound \<longleftrightarrow> (\<forall>w. unat w \<le> bound \<longrightarrow> fee_wu bc rate w \<noteq> None)"

text \<open>
  \<open>fee_wu_checked_mul\<close>: \<^verbatim>\<open>FeeRate::fee_wu\<close> returns none only when the rate in satoshis per thousand
  weight units times the weight, rounded up to the next thousand, overflows 64 bits.
\<close>

definition fee_wu_checked_mul :: "('r, 'a) bitcoin_crate \<Rightarrow> ('r \<Rightarrow> u64) \<Rightarrow> bool" where
  "fee_wu_checked_mul bc sat_per_kwu \<longleftrightarrow>
     (\<forall>rate w. unat (sat_per_kwu rate) * unat w + 999 < 2 ^ 64 \<longrightarrow> fee_wu bc rate w \<noteq> None)"

lemma fee_defined_below:
  assumes "fee_wu_checked_mul bc sat_per_kwu" "unat (sat_per_kwu rate) * bound + 999 < 2 ^ 64"
  shows "fee_defined bc rate bound"
  unfolding fee_defined_def
proof (intro allI impI)
  fix w :: u64 assume "unat w \<le> bound"
  then have "unat (sat_per_kwu rate) * unat w + 999 < 2 ^ 64"
    using assms(2) mult_le_mono2 [of "unat w" bound "unat (sat_per_kwu rate)"] by linarith
  then show "fee_wu bc rate w \<noteq> None" using assms(1) unfolding fee_wu_checked_mul_def by blast
qed

lemma check_fees_no_panic:
  assumes "within_budget bc utxos requests b"
    "fee_defined bc (tb_fee_rate b) (weight_budget bc (tb_params b) utxos requests)"
  shows "check_fees bc b \<noteq> Panic"
proof -
  note w = tx_weight_exact [OF assms(1)]
  let ?e = "exact_tx_weight (tb_inputs b) (map po_request (tb_outputs b))
      (if has_change b then Some (length (change_script bc b)) else None)"
  obtain f where f: "fee_wu bc (tb_fee_rate b) (of_nat ?e) = Some f"
    using assms(2) w(3,4) unfolding fee_defined_def by (metis add_leD1 not_None_eq)
  obtain g where "fee_wu bc (tb_fee_rate b) (sum_list (map anc_tx_weight (unconfirmed_ancestors b))) = Some g"
    using assms(2) w(2,3) unfolding fee_defined_def unconfirmed_ancestor_weight_def
    by (metis add_leD2 not_None_eq)
  moreover have "check_outputs d os \<noteq> Panic" for d os by (induction os) auto
  ultimately show ?thesis
    using f by (auto simp: check_fees_def Let_def w(1) fee_for_weight_def cpfp_deficit_def)
qed

lemma check_weight_no_panic:
  assumes "within_budget bc utxos requests b"
  shows "check_weight bc b \<noteq> Panic" "exceeds_any_weight_limit bc b \<noteq> Panic"
  by (auto simp: check_weight_def exceeds_any_weight_limit_def exceeds_max_weight_def Let_def
      exceeds_max_ancestor_package_weight_def tx_weight_exact(1) [OF assms])

lemma filter_by_no_panic:
  "(\<And>x. x \<in> set xs \<Longrightarrow> p x \<noteq> Panic) \<Longrightarrow> filter_by p xs \<noteq> Panic"
  by (induction xs) (auto simp: and_then_eq_Panic)

lemma eligible_no_panic:
  assumes "u \<in> set utxos" "length (tb_outputs b) \<le> length requests"
    "weight_budget bc (tb_params b) utxos requests < 2 ^ 64"
    "fee_defined bc (tb_fee_rate b) (weight_budget bc (tb_params b) utxos requests)"
  shows "eligible bc b t u \<noteq> Panic"
proof -
  have one: "mset [u] \<subseteq># mset utxos" using assms(1) by simp
  have "164 + unat (satisfaction_weight (u_spend_path u)) < 2 ^ 64"
    using exact_le_budget [OF one assms(2) [folded length_map [of po_request]], of None] assms(3)
    by (simp add: exact_tx_weight_def weight_budget_def)
  then have "weight_with_candidate bc b u t \<noteq> Panic"
    by (simp add: weight_with_candidate_def input_weight_exact)
  moreover have "candidate_fits_fee_budget bc b u t \<noteq> Panic"
    using check_fees_no_panic [of bc utxos requests "\<lparr>tb_fee_rate = tb_fee_rate b, tb_params = tb_params b,
        tb_inputs = [u], tb_outputs = map (\<lambda>o1. \<lparr>po_request = po_request o1, po_net_amount = 0\<rparr>) (tb_outputs b),
        tb_raw_change = Some (saturating_sub (u_amount u) t), tb_final_change = None\<rparr>"] one assms(2-4)
    by (auto simp: candidate_fits_fee_budget_def within_budget_def split: outcome.splits)
  ultimately show ?thesis
    by (auto simp: eligible_def and_then_eq_Panic)
qed

lemma funding_step_no_panic:
  assumes "tb_inputs b = []" "mset pool \<subseteq># mset utxos" "length (tb_outputs b) \<le> length requests"
    "weight_budget bc (tb_params b) utxos requests < 2 ^ 64"
    "fee_defined bc (tb_fee_rate b) (weight_budget bc (tb_params b) utxos requests)"
  shows "funding_step bc pool b \<noteq> Panic"
proof
  assume p: "funding_step bc pool b = Panic"
  obtain inputs t where f: "fund (max_inputs (tb_params b)) (total_requested b) pool [] 0 = (inputs, t)"
    by fastforce
  then obtain k where k: "inputs = take k pool" "t = sum_list (map u_amount (take k pool))"
    using fund_prefix [OF f] by auto
  let ?b1 = "b\<lparr>tb_inputs := inputs, tb_raw_change := Some (t - total_requested b)\<rparr>"
  have "mset inputs \<subseteq># mset utxos"
    using assms(2) k(1) by (metis append_take_drop_id mset_append mset_subset_eq_add_left subset_mset.order_trans)
  then have "within_budget bc utxos requests ?b1" using assms(3,4) by (simp add: within_budget_def)
  then have "check_fees bc ?b1 \<noteq> Panic" "check_weight bc ?b1 \<noteq> Panic"
    using check_fees_no_panic check_weight_no_panic(1) assms(5) by fastforce+
  then show False
    using p f k assms(1)
    by (auto simp: funding_step_def Let_def and_then_eq_Panic compute_raw_change_def input_total_def
        total_requested_def split: if_splits)
qed

lemma consolidate_no_panic:
  assumes "builder_ok bc utxos b" "mset (tb_inputs b) + mset us \<subseteq># mset utxos"
    "length (tb_outputs b) \<le> length requests"
    "weight_budget bc (tb_params b) utxos requests < 2 ^ 64"
    "fee_defined bc (tb_fee_rate b) (weight_budget bc (tb_params b) utxos requests)"
    "sum_list (map (\<lambda>u. unat (u_amount u)) utxos) < 2 ^ 64"
  shows "consolidate bc us b \<noteq> Panic"
  using assms(1-5)
proof (induction us arbitrary: b)
  case (Cons u us)
  let ?b = "b\<lparr>tb_inputs := tb_inputs b @ [u]\<rparr>"
  let ?v = "input_total ?b - total_requested ?b"
  let ?b1 = "?b\<lparr>tb_raw_change := Some ?v\<rparr>"
  have all: "mset (tb_inputs ?b) + mset us \<subseteq># mset utxos" using Cons.prems(2) by simp
  have sub: "mset (tb_inputs ?b) \<subseteq># mset utxos"
    by (rule subset_mset.order_trans [OF mset_subset_eq_add_left all])
  have "sum_list (map (\<lambda>u. unat (u_amount u)) (tb_inputs ?b)) < 2 ^ 64"
    using sum_list_map_le_mset [OF sub, of "\<lambda>u. unat (u_amount u)"] assms(6) by linarith
  then have grows: "input_total b \<le> input_total ?b"
    using unat_input_total [of ?b] unat_input_total [of b] by (simp add: word_le_nat_alt)
  then have raw: "(compute_raw_change ?b :: (CoinSelectionError, _) outcome) = Ok (?b1, ?v)"
    using Cons.prems(1) by (auto simp: compute_raw_change_Ok builder_ok_def total_requested_def)
  have wb: "within_budget bc utxos requests ?b1" using sub Cons.prems(3,4) by (simp add: within_budget_def)
  have no: "check_fees bc ?b1 \<noteq> Panic"
    "(exceeds_any_weight_limit bc ?b1 :: (CoinSelectionError, _) outcome) \<noteq> Panic"
    using check_fees_no_panic [OF wb] check_weight_no_panic(2) [OF wb] Cons.prems(5) by simp_all
  have undo: "(compute_raw_change (b\<lparr>tb_raw_change := Some ?v\<rparr>) :: (CoinSelectionError, _) outcome) \<noteq> Panic"
    using Cons.prems(1) by (simp add: compute_raw_change_def builder_ok_def input_total_def total_requested_def Let_def)
  show ?case
  proof
    assume p: "consolidate bc (u # us) b = Panic"
    then have room: "\<not> max_inputs (tb_params b) \<le> length (tb_inputs b)" by (auto split: if_splits)
    have "check_fees bc ?b1 = Ok () \<and>
      (exceeds_any_weight_limit bc ?b1 :: (CoinSelectionError, _) outcome) = Ok False \<and>
      consolidate bc us ?b1 = Panic"
    proof (cases "check_fees bc ?b1")
      case (Ok x)
      then show ?thesis using p room no(2) undo
        by (auto simp: raw and_then_eq_Panic split: if_splits)
    next
      case (Err e)
      then show ?thesis using p room undo by (auto simp: raw and_then_eq_Panic)
    qed (use no in simp)
    then have checks: "check_fees bc ?b1 = Ok ()"
      "(exceeds_any_weight_limit bc ?b1 :: (CoinSelectionError, _) outcome) = Ok False"
      "consolidate bc us ?b1 = Panic" by blast+
    then have "builder_ok bc utxos ?b1"
      using raw sub room by (auto simp: builder_ok_def weight_limits_check input_total_def total_requested_def
          compute_raw_change_Ok)
    then show False using Cons.IH [of ?b1] all Cons.prems(3-5) checks(3) by simp
  qed
qed simp

lemma builder_ok_mono: "builder_ok bc pool b \<Longrightarrow> mset pool \<subseteq># mset utxos \<Longrightarrow> builder_ok bc utxos b"
  by (auto simp: builder_ok_def intro: subset_mset.order_trans)

lemma length_selected_outputs: "length (selected_outputs params requests) \<le> length requests"
  by (simp add: selected_outputs_def)

lemma finalize_no_panic:
  assumes "builder_ok bc pool b" "fee_wu_bounded bc" "amounts_fit utxos requests"
    "tb_outputs b = selected_outputs params requests" "tb_outputs b \<noteq> []"
  shows "finalize_fees bc b \<noteq> Panic"
proof -
  note so = selected_outputs_facts [OF assms(3), of params, folded assms(4)]
  have ck: "check_fees bc b = Ok ()" using assms(1) by (simp add: builder_ok_def)
  obtain req where req: "(required_fee bc b :: (CoinSelectionError, _) outcome) = Ok req"
    using check_fees_Ok [OF ck] assms(5) so(2) by (metis length_greater_0_conv)
  show ?thesis
    using finalize_fees_eq(1) [OF assms(1,2) _ so(2,1) req] assms(5) by auto
qed

section \<open>Properties\<close>

text \<open>
  C38: coin selection never panics: no assertion of the builder fails, no division is by zero and
  no checked computation overflows, whatever the candidates, requests and parameters, as long as
  the amounts, the total weight, and the fee rate times the total weight (with the 999 of the
  rounding) are below \<open>2 ^ 64\<close>. A larger fee rate makes \<^verbatim>\<open>fee_for_weight\<close> panic: the crate returns
  no fee when the product overflows.
\<close>
theorem select_coins_no_panic:
  assumes fit: "amounts_fit utxos requests" and law: "fee_wu_bounded bc"
    and wb: "weight_budget bc params utxos requests < 2 ^ 64"
    and mul: "fee_wu_checked_mul bc sat_per_kwu"
    and rate: "unat (sat_per_kwu (max fee_rate (min_fee_rate params))) *
      weight_budget bc params utxos requests + 999 < 2 ^ 64"
  shows "select_coins bc utxos requests params fee_rate \<noteq> Panic"
proof
  assume p: "select_coins bc utxos requests params fee_rate = Panic"
  have fd: "fee_defined bc (max fee_rate (min_fee_rate params)) (weight_budget bc params utxos requests)"
    by (rule fee_defined_below [OF mul rate])
  define b0 where "b0 = initial_builder params requests fee_rate"
  have b0: "tb_inputs b0 = []" "tb_params b0 = params" "tb_outputs b0 = selected_outputs params requests"
    "tb_fee_rate b0 = max fee_rate (min_fee_rate params)" "length (tb_outputs b0) \<le> length requests"
    by (simp_all add: b0_def initial_builder_def length_selected_outputs)
  from p have ne: "requests \<noteq> []" "max_withdrawal_requests params \<noteq> 0"
    by (auto simp: select_coins_def split: if_splits)
  have "filter_by (eligible bc b0 (total_requested b0) :: _ \<Rightarrow> (CoinSelectionError, _) outcome) utxos \<noteq> Panic"
    using eligible_no_panic [of _ utxos b0 requests bc] b0 wb fd by (intro filter_by_no_panic) auto
  with p ne obtain cs where
    cs: "filter_by (eligible bc b0 (total_requested b0) :: _ \<Rightarrow> (CoinSelectionError, _) outcome) utxos = Ok cs"
    by (cases "filter_by (eligible bc b0 (total_requested b0) :: _ \<Rightarrow> (CoinSelectionError, _) outcome) utxos")
      (auto simp: select_coins_def Let_def b0_def split: if_splits)
  define pool where "pool = sort_by pool_order cs"
  have sub: "mset pool \<subseteq># mset utxos"
    using filter_by_eq_Ok [OF cs] by (simp add: pool_def multiset_filter_subset)
  have "funding_step bc pool b0 \<noteq> Panic"
    using funding_step_no_panic [OF b0(1) sub b0(5)] b0 wb fd by simp
  with p ne cs obtain b1 rc where p1: "funding_step bc pool b0 = Ok (b1, rc)"
    by (cases "funding_step bc pool b0") (auto simp: select_coins_def Let_def b0_def pool_def split: if_splits)
  then obtain k where b1: "b1 = b0\<lparr>tb_inputs := take k pool, tb_raw_change := Some rc\<rparr>" "builder_ok bc pool b1"
    using funding_step_Ok [OF p1 b0(1)] by metis
  have "mset (tb_inputs b1) + mset (take j (remaining pool (tb_inputs b1))) \<subseteq># mset utxos" for j
    by (rule subset_mset.order_trans [OF consolidation_inputs_subset [OF b1(2)] sub])
  then have "consolidation_step bc pool rc b1 \<noteq> Panic"
    using consolidate_no_panic [OF builder_ok_mono [OF b1(2) sub], of _ requests] b0 b1(1) wb fd fit
    by (auto simp: consolidation_step_def amounts_fit_def)
  with p ne cs p1 obtain b2 where b2: "consolidation_step bc pool rc b1 = Ok b2"
    by (cases "consolidation_step bc pool rc b1")
      (auto simp: select_coins_def Let_def b0_def pool_def split: if_splits)
  have b2_ok: "builder_ok bc pool b2" "tb_outputs b2 = selected_outputs params requests"
    using consolidation_step_Ok [OF b2 b1(2)] b1(1) b0(3) by auto
  have "finalize_fees bc b2 = Panic"
    using p ne cs p1 b2
    by (auto simp: select_coins_def Let_def b0_def pool_def and_then_eq_Panic
        builder_ok_recompute [OF b2_ok(1)] split: if_splits)
  moreover have "tb_outputs b2 \<noteq> []" using b2_ok(2) ne
    by (simp add: selected_outputs_def) (metis length_sort_by length_0_conv)
  ultimately show False using finalize_no_panic [OF b2_ok(1) law fit b2_ok(2)] by simp
qed

lemma result_builder_sel [simp]:
  "tb_inputs (result_builder params fee_rate res) = res_inputs res"
  "map po_request (tb_outputs (result_builder params fee_rate res)) = res_selected_requests res"
  "tb_params (result_builder params fee_rate res) = params"
  "length (tb_outputs (result_builder params fee_rate res)) = length (res_selected_requests res)"
  "has_change (result_builder params fee_rate res) \<longleftrightarrow> (\<exists>c. res_change res = Some c \<and> 0 < c)"
  by (auto simp: result_builder_def comp_def has_change_def split: option.splits)

lemma result_totals:
  assumes "amounts_fit utxos requests" "mset (res_inputs res) \<subseteq># mset utxos"
    "res_selected_requests res = take k (sort_by c requests)"
  shows "unat (input_total (result_builder params fee_rate res)) =
      sum_list (map (\<lambda>u. unat (u_amount u)) (res_inputs res))"
    "unat (total_requested (result_builder params fee_rate res)) =
      sum_list (map (\<lambda>r. unat (r_amount r)) (res_selected_requests res))"
proof -
  have "sum_list (map (\<lambda>u. unat (u_amount u)) (res_inputs res)) < 2 ^ 64"
    using sum_list_map_le_mset [OF assms(2), of "\<lambda>u. unat (u_amount u)"] assms(1)
    by (simp add: amounts_fit_def)
  then show "unat (input_total (result_builder params fee_rate res)) =
      sum_list (map (\<lambda>u. unat (u_amount u)) (res_inputs res))"
    by (subst unat_input_total) simp_all
  have "sum_list (map (\<lambda>r. unat (r_amount r)) (res_selected_requests res)) < 2 ^ 64"
    using sum_list_map_le_mset [OF selected_requests_subset, of "\<lambda>r. unat (r_amount r)" k c requests] assms(1,3)
    by (simp add: amounts_fit_def)
  then show "unat (total_requested (result_builder params fee_rate res)) =
      sum_list (map (\<lambda>r. unat (r_amount r)) (res_selected_requests res))"
    by (subst unat_total_requested) (simp_all add: result_builder_def comp_def)
qed

lemma selection_inputs:
  assumes "select_coins bc utxos requests params fee_rate = Ok res"
  shows "mset (res_inputs res) \<subseteq>#
      mset (spendable_pool bc utxos (initial_builder params requests fee_rate)) \<and>
    length (res_inputs res) \<le> max_inputs params"
proof -
  obtain b b' fee where b: "builder_ok bc (spendable_pool bc utxos (initial_builder params requests fee_rate)) b"
    "tb_params b = params" "finalize_fees bc b = Ok (b', fee)" "res = selection_result b' fee"
    using select_coins_Ok [OF assms] by metis
  have "tb_inputs b' = tb_inputs b"
    using b(3) by (auto simp: finalize_fees_def Let_def split: if_splits)
  then show ?thesis using b(1,2,4) by (auto simp: builder_ok_def selection_result_def)
qed

lemma spendable_pool_depth:
  assumes "u \<in> set (spendable_pool bc utxos b)"
  shows "mempool_chain_depth (u_status u) \<le> max_mempool_chain_depth (tb_params b)"
    "mempool_chain_depth (u_status u) < MAX_ANCESTOR_DEPTH"
  using assms by (auto simp: spendable_pool_def eligible_def split: if_splits)

lemma distinct_sub_mset:
  assumes "mset xs \<subseteq># mset ys" "distinct (map f ys)"
  shows "distinct (map f xs)"
proof -
  have "mset (map f xs) \<subseteq># mset (map f ys)" using assms(1) by (simp add: image_mset_subseteq_mono)
  then show ?thesis using assms(2)
    by (metis (no_types, lifting) count_mset_0_iff distinct_count_atmost_1 le_zero_eq mset_subset_eq_count
        not_less_eq_eq One_nat_def le_Suc_eq)
qed

text \<open>
  C16: the inputs of a successful selection are distinct candidates of the pool, at most
  \<open>max_inputs\<close> of them, and none has more mempool ancestors than configured or relayable.
\<close>
theorem select_coins_inputs_ok:
  assumes "select_coins bc utxos requests params fee_rate = Ok res"
  shows "mset (res_inputs res) \<subseteq># mset utxos \<and> length (res_inputs res) \<le> max_inputs params \<and>
    (distinct (map u_id utxos) \<longrightarrow> distinct (map u_id (res_inputs res))) \<and>
    (\<forall>u \<in> set (res_inputs res). mempool_chain_depth (u_status u) \<le> max_mempool_chain_depth params \<and>
       mempool_chain_depth (u_status u) < MAX_ANCESTOR_DEPTH)"
proof -
  let ?b = "initial_builder params requests fee_rate"
  note s = selection_inputs [OF assms]
  have sub: "mset (res_inputs res) \<subseteq># mset utxos"
    by (rule subset_mset.order_trans [OF conjunct1 [OF s] spendable_pool_subset])
  have "set (res_inputs res) \<subseteq> set (spendable_pool bc utxos ?b)"
    using s by (metis set_mset_mono set_mset_mset)
  then show ?thesis
    using sub s distinct_sub_mset [OF sub, of u_id] spendable_pool_depth [of _ bc utxos ?b]
    by (auto simp: initial_builder_def)
qed

lemma net_amounts_sum:
  fixes share :: u64
  assumes "\<And>r. r \<in> set reqs \<Longrightarrow> unat share \<le> unat (r_amount r)"
  shows "sum_list (map (\<lambda>r. unat (r_amount r - share)) reqs) + length reqs * unat share =
    sum_list (map (\<lambda>r. unat (r_amount r)) reqs)"
  using assms
proof (induction reqs)
  case (Cons r reqs)
  have "unat (r_amount r - share) + unat share = unat (r_amount r)"
    using Cons.prems [of r] by (simp add: unat_sub_le word_le_nat_alt)
  then show ?case using Cons by simp
qed simp

text \<open>The share of each request, and what its output is worth after it.\<close>

lemma selection_shares:
  assumes "select_coins bc utxos requests params fee_rate = Ok res" "amounts_fit utxos requests"
    "fee_wu_bounded bc"
  obtains req share where
    "res_selected_requests res = take (max_withdrawal_requests params) (sort_by request_order requests)"
    "(required_fee bc (result_builder params fee_rate res) :: (CoinSelectionError, _) outcome) = Ok req"
    "res_withdrawal_outputs res =
       map (\<lambda>r. \<lparr>o_request_id = r_id r, o_recipient = r_recipient r, o_amount = r_amount r - share\<rparr>)
         (res_selected_requests res)"
    "unat (res_fee res) = length (res_selected_requests res) * unat share"
    "share \<le> max_fee_per_request params" "unat req \<le> unat (res_fee res)"
    "unat (res_fee res) < unat req + length (res_selected_requests res)"
    "\<And>r. r \<in> set (res_selected_requests res) \<Longrightarrow>
       unat share + (if length (r_recipient r) = 20 then 294 else 330) \<le> unat (r_amount r)"
proof -
  let ?rb = "result_builder params fee_rate res"
  let ?reqs = "take (max_withdrawal_requests params) (sort_by request_order requests)"
  obtain req share where g: "res_selected_requests res = ?reqs" "?reqs \<noteq> []"
    "builder_ok bc (spendable_pool bc utxos (initial_builder params requests fee_rate)) ?rb"
    "(required_fee bc ?rb :: (CoinSelectionError, _) outcome) = Ok req"
    "share = div_ceil req (of_nat (length ?reqs))"
    "res_withdrawal_outputs res =
       map (\<lambda>r. \<lparr>o_request_id = r_id r, o_recipient = r_recipient r, o_amount = r_amount r - share\<rparr>) ?reqs"
    "unat (res_fee res) = length ?reqs * unat share"
    by (rule selection_facts [OF assms]) blast
  note f = g(1) g(2-7) [folded g(1)]
  have "length (res_selected_requests res) < 2 ^ 64"
    using f(1) assms(2) by (simp add: amounts_fit_def min.strict_coboundedI1)
  note fs = fee_share [of bc ?rb, OF _ assms(3) _ _ f(4), unfolded result_builder_sel, folded f(5)]
  have n: "0 < length (res_selected_requests res)" using f(2) by simp
  have ck: "check_fees bc ?rb = Ok ()" using f(3) by (simp add: builder_ok_def)
  note fs = fs [OF ck n \<open>length (res_selected_requests res) < 2 ^ 64\<close>]
  have over: "unat (res_fee res) < unat req + length (res_selected_requests res)"
  proof (cases "unat req = 0")
    case True
    then have "share = 0" using f(5) by (simp add: div_ceil_def unat_eq_0)
    then show ?thesis using f(7) n by simp
  next
    case False
    then have lt: "length (res_selected_requests res) * (unat share - 1) < unat req" using fs(2) by simp
    show ?thesis
    proof (cases "unat share")
      case (Suc k)
      then show ?thesis using lt f(7) by simp
    qed (use f(7) n in simp)
  qed
  have "unat share + (if length (r_recipient r) = 20 then 294 else 330) \<le> unat (r_amount r)"
    if "r \<in> set (res_selected_requests res)" for r
    using fs(4) [of "\<lparr>po_request = r, po_net_amount = 0\<rparr>"] that
    by (auto simp: result_builder_def po_dust_threshold_def WPKH_DUST_RELAY_MIN_VALUE_def
        TR_DUST_RELAY_MIN_VALUE_def split: if_splits)
  then show thesis using that [OF f(1,4,6,7) fs(3) _ over] fs(1) f(7) by simp
qed

text \<open>
  C6: value is conserved: the inputs of a successful selection are worth exactly its
  withdrawal outputs, its change and its fee.
\<close>
theorem select_coins_conserves:
  assumes "select_coins bc utxos requests params fee_rate = Ok res"
    "amounts_fit utxos requests" "fee_wu_bounded bc"
  shows "sum_list (map (\<lambda>u. unat (u_amount u)) (res_inputs res)) =
    sum_list (map (\<lambda>o1. unat (o_amount o1)) (res_withdrawal_outputs res)) +
    (case res_change res of None \<Rightarrow> 0 | Some c \<Rightarrow> unat c) + unat (res_fee res)"
proof -
  let ?rb = "result_builder params fee_rate res"
  obtain req share where sh:
    "res_selected_requests res = take (max_withdrawal_requests params) (sort_by request_order requests)"
    "res_withdrawal_outputs res =
       map (\<lambda>r. \<lparr>o_request_id = r_id r, o_recipient = r_recipient r, o_amount = r_amount r - share\<rparr>)
         (res_selected_requests res)"
    "unat (res_fee res) = length (res_selected_requests res) * unat share"
    "\<And>r. r \<in> set (res_selected_requests res) \<Longrightarrow>
       unat share + (if length (r_recipient r) = 20 then 294 else 330) \<le> unat (r_amount r)"
    by (rule selection_shares [OF assms]) blast
  have sub: "mset (res_inputs res) \<subseteq># mset utxos"
    by (rule subset_mset.order_trans [OF conjunct1 [OF selection_inputs [OF assms(1)]] spendable_pool_subset])
  note tot = result_totals [OF assms(2) sub sh(1), of params fee_rate]
  have "total_requested ?rb \<le> input_total ?rb \<and> tb_raw_change ?rb = Some (input_total ?rb - total_requested ?rb)"
    by (rule selection_facts [OF assms]) (simp add: builder_ok_def)
  then have ok: "total_requested ?rb \<le> input_total ?rb"
    "tb_raw_change ?rb = Some (input_total ?rb - total_requested ?rb)" by auto
  have change: "(case res_change res of None \<Rightarrow> 0 | Some c \<Rightarrow> unat c) = unat (input_total ?rb - total_requested ?rb)"
    using ok(2) by (simp add: result_builder_def split: option.splits)
  have outs: "sum_list (map (\<lambda>o1. unat (o_amount o1)) (res_withdrawal_outputs res)) + unat (res_fee res) =
      sum_list (map (\<lambda>r. unat (r_amount r)) (res_selected_requests res))"
    using net_amounts_sum [of "res_selected_requests res" share] sh(4)
    unfolding sh(2,3) by (simp add: comp_def) (meson add_leD1)
  show ?thesis
    using change outs tot ok(1) by (simp add: unat_sub_le word_le_nat_alt)
qed

lemma oldest_first:
  fixes requests :: "WithdrawalRequest list"
  assumes "a \<in> set (take k (sort_by request_order requests))" "b \<in> set (drop k (sort_by request_order requests))"
  shows "r_timestamp_ms a \<le> r_timestamp_ms b"
proof -
  have "sorted_wrt (\<lambda>a b. request_order a b \<noteq> Greater)
      (take k (sort_by request_order requests) @ drop k (sort_by request_order requests))"
    using request_cmp.sorted by simp
  then show ?thesis using assms by (auto simp: sorted_wrt_append request_order_def not_less simp del: append_take_drop_id)
qed

text \<open>
  C15: a successful selection takes the oldest requests, up to the configured number, and each
  of them receives its amount less one and the same share of the fee: the share is within the
  configured cap and what is left is no dust for the recipient's address type.
\<close>
theorem select_coins_outputs_ok:
  assumes "select_coins bc utxos requests params fee_rate = Ok res"
    "amounts_fit utxos requests" "fee_wu_bounded bc"
  shows "\<exists>share rest. mset requests = mset (res_selected_requests res) + mset rest \<and>
    (\<forall>a \<in> set (res_selected_requests res). \<forall>b \<in> set rest. r_timestamp_ms a \<le> r_timestamp_ms b) \<and>
    length (res_selected_requests res) = min (length requests) (max_withdrawal_requests params) \<and>
    share \<le> max_fee_per_request params \<and>
    list_all2 (\<lambda>r o1. o_request_id o1 = r_id r \<and> o_recipient o1 = r_recipient r \<and>
        unat (o_amount o1) + unat share = unat (r_amount r) \<and>
        (if length (r_recipient r) = 20 then 294 else 330) \<le> unat (o_amount o1))
      (res_selected_requests res) (res_withdrawal_outputs res)"
proof -
  let ?sorted = "sort_by request_order requests"
  obtain share where sh:
    "res_selected_requests res = take (max_withdrawal_requests params) ?sorted"
    "res_withdrawal_outputs res =
       map (\<lambda>r. \<lparr>o_request_id = r_id r, o_recipient = r_recipient r, o_amount = r_amount r - share\<rparr>)
         (res_selected_requests res)"
    "share \<le> max_fee_per_request params"
    "\<And>r. r \<in> set (res_selected_requests res) \<Longrightarrow>
       unat share + (if length (r_recipient r) = 20 then 294 else 330) \<le> unat (r_amount r)"
    by (rule selection_shares [OF assms]) blast
  have "mset requests = mset (res_selected_requests res) + mset (drop (max_withdrawal_requests params) ?sorted)"
    unfolding sh(1) by (metis append_take_drop_id mset_append mset_sort_by)
  moreover have "unat (r_amount r - share) = unat (r_amount r) - unat share"
    if "r \<in> set (res_selected_requests res)" for r
    using sh(4) [OF that] by (intro unat_sub_le) (simp add: word_le_nat_alt)
  then have "list_all2 (\<lambda>r o1. o_request_id o1 = r_id r \<and> o_recipient o1 = r_recipient r \<and>
        unat (o_amount o1) + unat share = unat (r_amount r) \<and>
        (if length (r_recipient r) = 20 then 294 else 330) \<le> unat (o_amount o1))
      (res_selected_requests res) (res_withdrawal_outputs res)"
    unfolding sh(2) list.rel_map by (intro list.rel_refl_strong) (use sh(4) in fastforce)
  ultimately show ?thesis
    using sh(1,3) oldest_first
    by (intro exI [of _ share] exI [of _ "drop (max_withdrawal_requests params) ?sorted"]) (auto simp: sh(1))
qed

text \<open>
  C28: the change of a successful selection is exactly what the inputs exceed the selected
  requests by, also when unconfirmed ancestors are boosted (the deficit is taken from the requests'
  outputs, not from the fund); there is a change output only when that is positive, and it is never
  dust.
\<close>
theorem select_coins_change_ok:
  assumes "select_coins bc utxos requests params fee_rate = Ok res"
    "amounts_fit utxos requests" "fee_wu_bounded bc"
  shows "sum_list (map (\<lambda>u. unat (u_amount u)) (res_inputs res)) =
      sum_list (map (\<lambda>r. unat (r_amount r)) (res_selected_requests res)) +
      (case res_change res of None \<Rightarrow> 0 | Some c \<Rightarrow> unat c) \<and>
    (\<forall>c. res_change res = Some c \<longrightarrow>
       0 < c \<and> dust_threshold_for_change (script_pubkey bc (change_address params)) \<le> c)"
proof (rule selection_facts [OF assms])
  fix req share
  let ?rb = "result_builder params fee_rate res"
  assume f: "res_selected_requests res = take (max_withdrawal_requests params) (sort_by request_order requests)"
    "builder_ok bc (spendable_pool bc utxos (initial_builder params requests fee_rate)) ?rb"
    "\<And>c. res_change res = Some c \<Longrightarrow> c = input_total ?rb - total_requested ?rb \<and> 0 < c \<and>
        dust_threshold_for_change (script_pubkey bc (change_address params)) \<le> c"
    "res_change res = None \<Longrightarrow> input_total ?rb = total_requested ?rb"
  have sub: "mset (res_inputs res) \<subseteq># mset utxos"
    by (rule subset_mset.order_trans [OF conjunct1 [OF selection_inputs [OF assms(1)]] spendable_pool_subset])
  have "total_requested ?rb \<le> input_total ?rb" using f(2) by (simp add: builder_ok_def)
  then show ?thesis
    using f(3,4) result_totals [OF assms(2) sub f(1), of params fee_rate]
    by (auto simp: unat_sub_le word_le_nat_alt split: option.splits)
qed

lemma result_within_budget:
  assumes "select_coins bc utxos requests params fee_rate = Ok res"
    "amounts_fit utxos requests" "fee_wu_bounded bc" "weight_budget bc params utxos requests < 2 ^ 64"
  shows "within_budget bc utxos requests (result_builder params fee_rate res)"
    "(if has_change (result_builder params fee_rate res)
      then Some (length (change_script bc (result_builder params fee_rate res))) else None) =
     map_option (\<lambda>_. length (script_pubkey bc (change_address params))) (res_change res)"
proof -
  have "mset (res_inputs res) \<subseteq># mset utxos"
    by (rule subset_mset.order_trans [OF conjunct1 [OF selection_inputs [OF assms(1)]] spendable_pool_subset])
  moreover have "length (res_selected_requests res) \<le> length requests \<and>
      (\<forall>c. res_change res = Some c \<longrightarrow> 0 < c)"
    by (rule selection_facts [OF assms(1-3)]) simp
  ultimately show "within_budget bc utxos requests (result_builder params fee_rate res)"
    "(if has_change (result_builder params fee_rate res)
      then Some (length (change_script bc (result_builder params fee_rate res))) else None) =
     map_option (\<lambda>_. length (script_pubkey bc (change_address params))) (res_change res)"
    using assms(4) by (auto simp: within_budget_def change_script_def split: option.splits)
qed

text \<open>
  C25: the exact weight of the selected transaction is within \<open>max_tx_weight\<close>, and together
  with the weight of its unconfirmed ancestors within \<open>max_ancestor_package_weight\<close>.
\<close>
theorem select_coins_weight_ok:
  assumes "select_coins bc utxos requests params fee_rate = Ok res"
    "amounts_fit utxos requests" "fee_wu_bounded bc" "weight_budget bc params utxos requests < 2 ^ 64"
  defines "exact \<equiv> exact_tx_weight (res_inputs res) (res_selected_requests res)
      (map_option (\<lambda>_. length (script_pubkey bc (change_address params))) (res_change res))"
  shows "exact \<le> unat (max_tx_weight params) \<and>
    exact + exact_ancestor_weight (res_inputs res) \<le> unat (max_ancestor_package_weight params)"
proof -
  let ?rb = "result_builder params fee_rate res"
  note w = tx_weight_exact [OF result_within_budget(1) [OF assms(1-4)],
      unfolded result_within_budget(2) [OF assms(1-4)], unfolded result_builder_sel(1-4), folded exact_def]
  have "check_weight bc ?rb = Ok ()"
    by (rule selection_facts [OF assms(1-3)]) (simp add: builder_ok_def)
  then have limits: "of_nat exact \<le> max_tx_weight params"
    "of_nat exact + unconfirmed_ancestor_weight ?rb \<le> max_ancestor_package_weight params"
    by (auto simp: check_weight_def w(1) Let_def not_less unconfirmed_ancestor_weight_def split: if_splits)
  have "unat (of_nat exact + unconfirmed_ancestor_weight ?rb) = exact + exact_ancestor_weight (res_inputs res)"
    using w assms(4) by (subst unat_add_lem [THEN iffD1]) simp_all
  then show ?thesis using limits w(4) by (metis word_le_nat_alt)
qed

lemma unat_sum_list_le: "unat (sum_list ws) \<le> sum_list (map unat ws)" for ws :: "'b::len word list"
proof (induction ws)
  case (Cons w ws)
  have "unat (w + sum_list ws) \<le> unat w + unat (sum_list ws)"
    by (simp add: unat_word_ariths)
  then show ?case using Cons by simp
qed simp

text \<open>
  C14: at the selection's fee rate, the fee of the transaction and the fees its unconfirmed
  ancestors already paid together cover the fee of the transaction's exact weight plus the
  fee of the ancestors' weight, so the package meets the target rate.
\<close>
theorem select_coins_fee_covers:
  assumes "select_coins bc utxos requests params fee_rate = Ok res"
    "amounts_fit utxos requests" "fee_wu_bounded bc" "weight_budget bc params utxos requests < 2 ^ 64"
  defines "rate \<equiv> max fee_rate (min_fee_rate params)"
  shows "\<exists>f g. fee_wu bc rate (of_nat (exact_tx_weight (res_inputs res) (res_selected_requests res)
        (map_option (\<lambda>_. length (script_pubkey bc (change_address params))) (res_change res)))) = Some f \<and>
      fee_wu bc rate (of_nat (exact_ancestor_weight (res_inputs res))) = Some g \<and>
      unat f + unat g \<le> unat (res_fee res) +
        sum_list (map (\<lambda>a. unat (anc_tx_fee a)) (unconfirmed_ancestors (result_builder params fee_rate res)))"
proof -
  let ?rb = "result_builder params fee_rate res"
  let ?as = "unconfirmed_ancestors ?rb"
  note w = tx_weight_exact [OF result_within_budget(1) [OF assms(1-4)],
      unfolded result_within_budget(2) [OF assms(1-4)], unfolded result_builder_sel(1-4)]
  have anc: "sum_list (map anc_tx_weight ?as) = of_nat (exact_ancestor_weight (res_inputs res))"
    using w(2) [symmetric] by (simp add: unconfirmed_ancestor_weight_def)
  have rate: "tb_fee_rate ?rb = rate" by (simp add: result_builder_def rate_def)
  obtain req where req: "(required_fee bc ?rb :: (CoinSelectionError, _) outcome) = Ok req"
    "unat req \<le> unat (res_fee res)"
    by (rule selection_shares [OF assms(1-3)]) blast
  from req(1) obtain f g where
    f: "fee_wu bc rate (of_nat (exact_tx_weight (res_inputs res) (res_selected_requests res)
        (map_option (\<lambda>_. length (script_pubkey bc (change_address params))) (res_change res)))) = Some f"
    and g: "fee_wu bc rate (of_nat (exact_ancestor_weight (res_inputs res))) = Some g"
    and sum: "req = f + saturating_sub g (sum_list (map anc_tx_fee ?as))"
    by (auto simp: required_fee_def w(1) cpfp_deficit_def Let_def fee_for_weight_def anc rate)
  have "unat f + unat (saturating_sub g (sum_list (map anc_tx_fee ?as))) < 2 ^ 64"
    using fee_small [OF assms(3) f] fee_small [OF assms(3) g] by (simp add: u_arith)
  then have "unat req = unat f + (unat g - unat (sum_list (map anc_tx_fee ?as)))"
    unfolding sum by (subst unat_add_lem [THEN iffD1]) (simp_all add: u_arith)
  moreover have "unat (sum_list (map anc_tx_fee ?as)) \<le> sum_list (map (\<lambda>a. unat (anc_tx_fee a)) ?as)"
    using unat_sum_list_le [of "map anc_tx_fee ?as"] by (simp add: comp_def)
  ultimately show ?thesis using f g req(2) by auto
qed

section \<open>Completeness of funding\<close>

lemma pool_take_best:
  assumes "mset ys \<subseteq># mset (spendable_pool bc utxos b)" "length ys \<le> k"
  shows "sum_list (map (\<lambda>u. unat (u_amount u)) ys) \<le>
    sum_list (map (\<lambda>u. unat (u_amount u)) (take k (spendable_pool bc utxos b)))"
proof -
  let ?f = "map (\<lambda>u. unat (u_amount u))"
  have "sorted_wrt (\<ge>) (?f (spendable_pool bc utxos b))"
    using pool_sorted by (simp add: spendable_pool_def sorted_wrt_map word_le_nat_alt)
  moreover have "mset (?f ys) \<subseteq># mset (?f (spendable_pool bc utxos b))"
    using assms(1) by (simp add: image_mset_subseteq_mono)
  ultimately show ?thesis
    using sum_le_take_of_sorted [of "?f (spendable_pool bc utxos b)" "?f ys" k] assms(2)
    by (simp add: take_map)
qed

lemma unat_prefix_sum:
  assumes "mset xs \<subseteq># mset utxos" "amounts_fit utxos requests"
  shows "unat (sum_list (map u_amount xs)) = sum_list (map (\<lambda>u. unat (u_amount u)) xs)"
  using unat_sum_list [of "map u_amount xs"] assms(2)
    sum_list_map_le_mset [OF assms(1), of "\<lambda>u. unat (u_amount u)"]
  by (simp add: comp_def amounts_fit_def)

text \<open>Which errors the parts of a selection can return.\<close>

lemma input_weight_no_Err: "input_weight p \<noteq> Err e"
  by (cases "checked_add TXIN_BASE_WEIGHT (satisfaction_weight p)") (simp_all add: input_weight_def)

lemma fee_for_weight_no_Err: "fee_for_weight bc r w \<noteq> Err e"
  by (cases "fee_wu bc r w") (simp_all add: fee_for_weight_def)

lemma tx_weight_no_Err: "tx_weight bc b \<noteq> Err e"
  by (auto simp: tx_weight_def Let_def and_then_eq_Err traverse_Err input_weight_no_Err)

lemma cpfp_deficit_no_Err: "cpfp_deficit bc b \<noteq> Err e"
  by (auto simp: cpfp_deficit_def Let_def and_then_eq_Err fee_for_weight_no_Err)

lemma exceeds_no_Err: "exceeds_any_weight_limit bc b \<noteq> Err e"
  by (auto simp: exceeds_any_weight_limit_def exceeds_max_weight_def exceeds_max_ancestor_package_weight_def
      and_then_eq_Err tx_weight_no_Err split: if_splits)

lemmas builder_no_Err = fee_for_weight_no_Err tx_weight_no_Err cpfp_deficit_no_Err exceeds_no_Err
  compute_raw_change_no_Err

lemma check_fees_Err:
  "check_fees bc b \<noteq> Err (InsufficientFunds av sel required n m)"
proof -
  have "check_outputs d os \<noteq> Err (InsufficientFunds av sel required n m)" for d os
    by (induction os) auto
  then show ?thesis by (auto simp: check_fees_def Let_def and_then_eq_Err builder_no_Err)
qed

lemma check_weight_Err:
  "check_weight bc b \<noteq> Err (InsufficientFunds av sel required n m)"
  by (auto simp: check_weight_def Let_def and_then_eq_Err builder_no_Err)

lemma finalize_fees_Err:
  "finalize_fees bc b \<noteq> Err (InsufficientFunds av sel required n m)"
  by (cases "tb_raw_change b")
    (auto simp: finalize_fees_def Let_def and_then_eq_Err check_fees_Err builder_no_Err required_fee_def)

lemma eligible_no_Err: "eligible bc b t u \<noteq> Err e"
proof -
  have "candidate_fits_fee_budget bc b u t \<noteq> Err e"
    by (auto simp: candidate_fits_fee_budget_def split: outcome.splits)
  then show ?thesis
    by (auto simp: eligible_def weight_with_candidate_def and_then_eq_Err input_weight_no_Err)
qed

lemma consolidate_no_Err: "consolidate bc us b \<noteq> Err e"
proof (induction us arbitrary: b)
  case (Cons u us)
  then show ?case
    by (auto simp: and_then_eq_Err builder_no_Err split: outcome.splits if_splits)
qed simp

lemma insufficient_from_funding:
  assumes "select_coins bc utxos requests params fee_rate = Err (InsufficientFunds av sel required n m)"
  defines "b0 \<equiv> initial_builder params requests fee_rate"
  shows "funding_step bc (spendable_pool bc utxos b0) b0 = Err (InsufficientFunds av sel required n m)"
proof -
  have "filter_by (eligible bc b0 (total_requested b0) :: _ \<Rightarrow> (CoinSelectionError, _) outcome) utxos \<noteq> Err e" for e
    by (rule filter_by_Err [OF eligible_no_Err])
  then obtain cs where
    cs: "filter_by (eligible bc b0 (total_requested b0) :: _ \<Rightarrow> (CoinSelectionError, _) outcome) utxos = Ok cs"
    using assms(1)
    by (cases "filter_by (eligible bc b0 (total_requested b0) :: _ \<Rightarrow> (CoinSelectionError, _) outcome) utxos")
      (auto simp: select_coins_def Let_def b0_def split: if_splits)
  have pool: "sort_by pool_order cs = spendable_pool bc utxos b0"
    using filter_by_eq_Ok [OF cs] by (simp add: spendable_pool_def)
  show ?thesis
    using assms(1) cs
    by (auto simp: select_coins_def Let_def b0_def [symmetric] pool and_then_eq_Err consolidation_step_def
        consolidate_no_Err compute_raw_change_no_Err finalize_fees_Err split: if_splits)
qed

text \<open>
  C26: when funding fails for lack of funds, no choice of at most \<open>max_inputs\<close> spendable
  candidates is worth the selected requests.
\<close>
theorem select_coins_insufficient_sound:
  assumes "select_coins bc utxos requests params fee_rate = Err (InsufficientFunds av sel required n m)"
    "amounts_fit utxos requests"
    "mset ys \<subseteq># mset (spendable_pool bc utxos (initial_builder params requests fee_rate))"
    "length ys \<le> max_inputs params"
  shows "sum_list (map (\<lambda>u. unat (u_amount u)) ys) < unat required \<and>
    unat required = sum_list (map (\<lambda>r. unat (r_amount r))
      (take (max_withdrawal_requests params) (sort_by request_order requests)))"
proof -
  let ?b0 = "initial_builder params requests fee_rate"
  let ?pool = "spendable_pool bc utxos ?b0"
  obtain inputs t where f: "fund (max_inputs params) (total_requested ?b0) ?pool [] 0 = (inputs, t)"
    by fastforce
  from insufficient_from_funding [OF assms(1)] f have req: "required = total_requested ?b0" "t < required"
    by (auto simp: funding_step_def Let_def initial_builder_def and_then_eq_Err check_fees_Err
        check_weight_Err compute_raw_change_no_Err split: if_splits)
  obtain k where k: "t = sum_list (map u_amount (take k ?pool))" "k = length ?pool \<or> max_inputs params \<le> k"
    using fund_prefix [OF f] req by auto
  have pre: "mset (take k ?pool) \<subseteq># mset utxos"
    by (metis append_take_drop_id mset_append mset_subset_eq_add_left spendable_pool_subset subset_mset.order_trans)
  have "length ys \<le> length ?pool" using size_mset_mono [OF assms(3)] by simp
  then have "length ys \<le> k" using k(2) assms(4) by auto
  then have "sum_list (map (\<lambda>u. unat (u_amount u)) ys) \<le> unat t"
    using pool_take_best [OF assms(3)] unat_prefix_sum [OF pre assms(2)] k(1) by simp
  moreover have "unat required = sum_list (map (\<lambda>r. unat (r_amount r))
      (take (max_withdrawal_requests params) (sort_by request_order requests)))"
    using unat_total_requested [of ?b0] selected_outputs_facts(1) [OF assms(2), of params] req(1)
    by (simp add: initial_builder_def selected_outputs_def comp_def)
  ultimately show ?thesis using req(2) by (simp add: word_less_nat_alt)
qed

text \<open>
  C27: the inputs that fund a successful selection are as few as possible: they are spendable
  candidates that together cover the selected requests, and any choice of fewer spendable
  candidates is worth less than the requests. Consolidation then adds confirmed candidates only, so
  the unconfirmed ancestors are those of the funding inputs.
\<close>
theorem select_coins_funding_minimal:
  assumes "select_coins bc utxos requests params fee_rate = Ok res" "amounts_fit utxos requests"
  shows "\<exists>funding extras. res_inputs res = funding @ extras \<and>
    mset funding \<subseteq># mset (spendable_pool bc utxos (initial_builder params requests fee_rate)) \<and>
    sum_list (map (\<lambda>r. unat (r_amount r)) (res_selected_requests res)) \<le>
      sum_list (map (\<lambda>u. unat (u_amount u)) funding) \<and>
    (\<forall>u \<in> set extras. u_status u = Confirmed) \<and>
    (\<forall>ys. mset ys \<subseteq># mset (spendable_pool bc utxos (initial_builder params requests fee_rate)) \<longrightarrow>
       length ys < length funding \<longrightarrow>
       sum_list (map (\<lambda>u. unat (u_amount u)) ys) <
       sum_list (map (\<lambda>r. unat (r_amount r)) (res_selected_requests res)))"
proof -
  let ?b0 = "initial_builder params requests fee_rate"
  let ?pool = "spendable_pool bc utxos ?b0"
  obtain b k extras b' fee where b: "tb_inputs b = take k ?pool @ extras" "k \<le> length ?pool"
    "\<And>j. j < k \<Longrightarrow> sum_list (map u_amount (take j ?pool)) < total_requested ?b0"
    and covers: "total_requested ?b0 \<le> sum_list (map u_amount (take k ?pool))"
    and b': "\<And>u. u \<in> set extras \<Longrightarrow> u_status u = Confirmed"
    "tb_outputs b = selected_outputs params requests"
    "finalize_fees bc b = Ok (b', fee)" "res = selection_result b' fee"
    by (rule select_coins_Ok [OF assms(1)]) blast
  note b = b b'
  have "tb_inputs b' = tb_inputs b \<and> map po_request (tb_outputs b') = map po_request (tb_outputs b)"
    using b(6) by (auto simp: finalize_fees_def Let_def comp_def split: if_splits)
  then have res: "res_inputs res = take k ?pool @ extras"
    "map (\<lambda>r. unat (r_amount r)) (res_selected_requests res) =
     map (\<lambda>o1. unat (r_amount (po_request o1))) (tb_outputs ?b0)"
    using b(1,5,7) by (simp_all add: selection_result_def initial_builder_def selected_outputs_def comp_def)
  have req: "unat (total_requested ?b0) = sum_list (map (\<lambda>r. unat (r_amount r)) (res_selected_requests res))"
    unfolding res(2)
    using unat_total_requested [of ?b0] selected_outputs_facts(1) [OF assms(2), of params]
    by (simp add: initial_builder_def)
  have "sum_list (map (\<lambda>u. unat (u_amount u)) ys) < unat (total_requested ?b0)"
    if ys: "mset ys \<subseteq># mset ?pool" "length ys < length (take k ?pool)" for ys
  proof -
    have pre: "mset (take (length ys) ?pool) \<subseteq># mset utxos"
      by (metis append_take_drop_id mset_append mset_subset_eq_add_left spendable_pool_subset subset_mset.order_trans)
    have "unat (sum_list (map u_amount (take (length ys) ?pool))) < unat (total_requested ?b0)"
      using b(3) [of "length ys"] ys(2) by (simp add: word_less_nat_alt)
    then show ?thesis
      using pool_take_best [OF ys(1) order_refl] unat_prefix_sum [OF pre assms(2)] by simp
  qed
  moreover have sub: "mset (take k ?pool) \<subseteq># mset ?pool"
    by (metis append_take_drop_id mset_append mset_subset_eq_add_left)
  moreover have "unat (total_requested ?b0) \<le> sum_list (map (\<lambda>u. unat (u_amount u)) (take k ?pool))"
    using covers unat_prefix_sum [OF subset_mset.order_trans [OF sub spendable_pool_subset] assms(2)]
    by (simp add: word_le_nat_alt)
  ultimately show ?thesis using res(1) b(4) req by (intro exI [of _ "take k ?pool"] exI [of _ extras]) auto
qed

lemma unseen_ancestors_ids:
  "distinct (map anc_id (unseen_ancestors seen as)) \<and>
   anc_id ` set (unseen_ancestors seen as) = anc_id ` {a \<in> set as. anc_confirmations a = 0} - seen"
proof (induction as arbitrary: seen)
  case (Cons a as)
  show ?case
  proof (cases "anc_confirmations a = 0 \<and> anc_id a \<notin> seen")
    case True
    have set_eq: "{x \<in> set (a # as). anc_confirmations x = 0} =
        insert a {x \<in> set as. anc_confirmations x = 0}" using True by auto
    show ?thesis using True Cons [of "insert (anc_id a) seen"] unfolding set_eq by auto
  next
    case False
    then show ?thesis using Cons [of seen] by auto
  qed
qed simp

text \<open>
  C36: every unconfirmed ancestor of the inputs enters the package arithmetic exactly once,
  however many inputs share it, and nothing else does.
\<close>
theorem ancestors_counted_once:
  "distinct (map anc_id (unconfirmed_ancestors b)) \<and>
   anc_id ` set (unconfirmed_ancestors b) =
     {anc_id a | a u. u \<in> set (tb_inputs b) \<and> a \<in> set (status_chain (u_status u)) \<and> anc_confirmations a = 0}"
proof -
  let ?chains = "concat (map (\<lambda>u. status_chain (u_status u)) (tb_inputs b))"
  have "anc_id ` {a \<in> set ?chains. anc_confirmations a = 0} =
      {anc_id a | a u. u \<in> set (tb_inputs b) \<and> a \<in> set (status_chain (u_status u)) \<and> anc_confirmations a = 0}"
    by auto
  then show ?thesis
    using unseen_ancestors_ids [of "{}" ?chains] by (simp add: unconfirmed_ancestors_def)
qed

end
