(* ===== verification/Coin_Selection_Witness.thy ===== *)
theory Coin_Selection_Witness
  imports Coin_Selection_Props
begin

text \<open>
  A concrete selection: three candidates, one of them unconfirmed change, three requests of
  which two fit the batch, a fee function that rounds up, and the evaluation of every step of
  coin selection on them. The witnesses of the coin selection properties apply them here.
\<close>

definition wit_bc :: "(u64, u8 list) bitcoin_crate" where
  "wit_bc =
     \<lparr>fee_wu = (\<lambda>r w. if unat r * unat w + 999 < 2 ^ 64 then Some ((r * w + 999) div 1000) else None),
      script_pubkey = (\<lambda>a. a)\<rparr>"

definition wit_params :: "(u64, u8 list) CoinSelectionParams" where
  "wit_params =
     (params_new (\<lambda>x. x * 250) (\<lambda>x. x div 250) (replicate 34 0))\<lparr>max_withdrawal_requests := 2\<rparr>"

definition wit_ancestor :: AncestorTx where
  "wit_ancestor = \<lparr>anc_id = [7], anc_confirmations = 0, anc_tx_weight = 800, anc_tx_fee = 200\<rparr>"

definition wu1 :: UtxoCandidate where
  "wu1 = \<lparr>u_id = UtxoId [1] 0, u_amount = 20000, u_confirmation_age_blocks = Some 10,
          u_spend_path = TaprootScriptPath2of2, u_status = Confirmed\<rparr>"

definition wu2 :: UtxoCandidate where
  "wu2 = \<lparr>u_id = UtxoId [2] 0, u_amount = 90000, u_confirmation_age_blocks = None,
          u_spend_path = TaprootScriptPath2of2, u_status = Pending [wit_ancestor]\<rparr>"

definition wu3 :: UtxoCandidate where
  "wu3 = \<lparr>u_id = UtxoId [3] 1, u_amount = 3000, u_confirmation_age_blocks = Some 5000,
          u_spend_path = TaprootKeyPath, u_status = Confirmed\<rparr>"

definition wr1 :: WithdrawalRequest where
  "wr1 = \<lparr>r_id = [1], r_recipient = replicate 20 0, r_amount = 50000, r_timestamp_ms = 30\<rparr>"

definition wr2 :: WithdrawalRequest where
  "wr2 = \<lparr>r_id = [2], r_recipient = replicate 32 0, r_amount = 40000, r_timestamp_ms = 10\<rparr>"

definition wr3 :: WithdrawalRequest where
  "wr3 = \<lparr>r_id = [3], r_recipient = replicate 32 0, r_amount = 60000, r_timestamp_ms = 20\<rparr>"

abbreviation wit_utxos :: "UtxoCandidate list" where "wit_utxos \<equiv> [wu1, wu2, wu3]"
abbreviation wit_requests :: "WithdrawalRequest list" where "wit_requests \<equiv> [wr1, wr2, wr3]"
abbreviation wit_builder :: "UtxoCandidate list \<Rightarrow> u64 option \<Rightarrow> (u64, u8 list) TransactionBuilder" where
  "wit_builder inputs raw \<equiv>
     \<lparr>tb_fee_rate = 750, tb_params = wit_params, tb_inputs = inputs,
      tb_outputs = [\<lparr>po_request = wr2, po_net_amount = 0\<rparr>, \<lparr>po_request = wr3, po_net_amount = 0\<rparr>],
      tb_raw_change = raw, tb_final_change = None\<rparr>"

definition wit_result :: CoinSelectionResult where
  "wit_result =
     \<lparr>res_inputs = [wu2, wu1, wu3],
      res_withdrawal_outputs =
        [\<lparr>o_request_id = [2], o_recipient = replicate 32 0, o_amount = 39180\<rparr>,
         \<lparr>o_request_id = [3], o_recipient = replicate 32 0, o_amount = 59180\<rparr>],
      res_change = Some 13000, res_fee = 1640, res_selected_requests = [wr2, wr3]\<rparr>"

section \<open>Evaluation\<close>

lemmas coin_eval = Let_def TXIN_BASE_WEIGHT_def TXOUT_BASE_WEIGHT_def DUST_RELAY_MIN_VALUE_def
  TR_DUST_RELAY_MIN_VALUE_def WPKH_DUST_RELAY_MIN_VALUE_def RECOVERY_PRIORITY_AGE_BLOCKS_def
  MAX_ANCESTOR_DEPTH_def input_weight_def checked_add_def output_weight_for_recipient_def
  output_weight_for_script_def dust_threshold_for_change_def fee_for_weight_def varint_weight_def
  po_dust_threshold_def change_script_def change_dust_threshold_def weight_for_def tx_weight_def
  weight_with_candidate_def input_total_def total_requested_def compute_raw_change_def
  unconfirmed_ancestors_def unconfirmed_ancestor_weight_def exceeds_max_weight_def
  exceeds_max_ancestor_package_weight_def exceeds_any_weight_limit_def pending_input_count_def
  check_weight_def cpfp_deficit_def required_fee_def check_fees_def candidate_fits_fee_budget_def
  saturating_sub_def div_ceil_def cmp_def pool_order_def request_order_def is_urgent_def
  consolidation_order_def eligible_def max_consolidation_def remaining_def

lemma wit_params_sel:
  "max_tx_weight wit_params = 400000" "max_ancestor_package_weight wit_params = 400000"
  "max_inputs wit_params = 400" "max_withdrawal_requests wit_params = 2"
  "max_fee_per_request wit_params = 32910" "min_fee_rate wit_params = 750"
  "long_term_fee_rate wit_params = 2500" "high_fee_rate_threshold wit_params = 7500"
  "input_budget wit_params = 10" "max_mempool_chain_depth wit_params = 5"
  "change_address wit_params = replicate 34 0"
  by (simp_all add: wit_params_def params_new_def)

lemma wit_bc_sel:
  "fee_wu wit_bc r w = (if unat r * unat w + 999 < 2 ^ 64 then Some ((r * w + 999) div 1000) else None)"
  "script_pubkey wit_bc a = a"
  by (simp_all add: wit_bc_def)

lemma wit_sel:
  "u_id wu1 = UtxoId [1] 0" "u_amount wu1 = 20000" "u_confirmation_age_blocks wu1 = Some 10"
  "u_spend_path wu1 = TaprootScriptPath2of2" "u_status wu1 = Confirmed"
  "u_id wu2 = UtxoId [2] 0" "u_amount wu2 = 90000" "u_confirmation_age_blocks wu2 = None"
  "u_spend_path wu2 = TaprootScriptPath2of2" "u_status wu2 = Pending [wit_ancestor]"
  "u_id wu3 = UtxoId [3] 1" "u_amount wu3 = 3000" "u_confirmation_age_blocks wu3 = Some 5000"
  "u_spend_path wu3 = TaprootKeyPath" "u_status wu3 = Confirmed"
  "r_id wr1 = [1]" "r_recipient wr1 = replicate 20 0" "r_amount wr1 = 50000" "r_timestamp_ms wr1 = 30"
  "r_id wr2 = [2]" "r_recipient wr2 = replicate 32 0" "r_amount wr2 = 40000" "r_timestamp_ms wr2 = 10"
  "r_id wr3 = [3]" "r_recipient wr3 = replicate 32 0" "r_amount wr3 = 60000" "r_timestamp_ms wr3 = 20"
  "anc_id wit_ancestor = [7]" "anc_confirmations wit_ancestor = 0" "anc_tx_weight wit_ancestor = 800"
  "anc_tx_fee wit_ancestor = 200"
  by (simp_all add: wu1_def wu2_def wu3_def wr1_def wr2_def wr3_def wit_ancestor_def)

lemmas wit_coin_eval = coin_eval wit_sel wit_params_sel wit_bc_sel

lemma wit_initial: "initial_builder wit_params wit_requests 500 = wit_builder [] None"
  by (simp add: initial_builder_def selected_outputs_def wit_coin_eval)

lemma wit_eligible:
  "eligible wit_bc (wit_builder [] None) 100000 wu1 = Ok True"
  "eligible wit_bc (wit_builder [] None) 100000 wu2 = Ok True"
  "eligible wit_bc (wit_builder [] None) 100000 wu3 = Ok True"
  by (simp_all add: wit_coin_eval)

lemma wit_total: "total_requested (wit_builder inputs raw) = 100000"
  by (simp add: total_requested_def wit_sel)

lemma wit_pool: "sort_by pool_order wit_utxos = [wu2, wu1, wu3]" "sort_by pool_order [wu1, wu3] = [wu1, wu3]"
  by (simp_all add: pool_order_def cmp_def wit_sel)

lemma wit_funding:
  "funding_step wit_bc [wu2, wu1, wu3] (wit_builder [] None) =
     Ok (wit_builder [wu2, wu1] (Some 10000), 10000)"
  by (simp add: funding_step_def wit_coin_eval)

lemma wit_consolidation:
  "consolidation_step wit_bc [wu2, wu1, wu3] 10000 (wit_builder [wu2, wu1] (Some 10000)) =
     Ok (wit_builder [wu2, wu1, wu3] (Some 13000))"
  by (simp add: consolidation_step_def wit_coin_eval)

lemma wit_raw_change:
  "compute_raw_change (wit_builder [wu2, wu1, wu3] (Some 13000)) =
     Ok (wit_builder [wu2, wu1, wu3] (Some 13000), 13000)"
  by (simp add: wit_coin_eval)

lemma wit_finalize:
  "finalize_fees wit_bc (wit_builder [wu2, wu1, wu3] (Some 13000)) =
     Ok (wit_builder [wu2, wu1, wu3] (Some 13000)
       \<lparr>tb_outputs := [\<lparr>po_request = wr2, po_net_amount = 39180\<rparr>, \<lparr>po_request = wr3, po_net_amount = 59180\<rparr>],
        tb_final_change := Some 13000\<rparr>, 1640)"
  by (simp add: finalize_fees_def wit_coin_eval)

lemma wit_select: "select_coins wit_bc wit_utxos wit_requests wit_params 500 = Ok wit_result"
proof -
  have "(filter_by (eligible wit_bc (wit_builder [] None) 100000) wit_utxos :: (CoinSelectionError, _) outcome) =
      Ok wit_utxos"
    by (simp add: wit_eligible)
  then show ?thesis
    by (simp add: select_coins_def Let_def wit_initial wit_total wit_pool wit_funding wit_consolidation
        wit_raw_change wit_finalize wit_params_sel selection_result_def wit_result_def wit_sel
        del: sort_by.simps filter_by.simps and_then_eq_Ok)
qed

lemma wit_select_insufficient:
  "select_coins wit_bc [wu1, wu3] wit_requests wit_params 500 =
     Err (InsufficientFunds 23000 23000 100000 2 400)"
proof -
  have "(filter_by (eligible wit_bc (wit_builder [] None) 100000) [wu1, wu3] :: (CoinSelectionError, _) outcome) =
      Ok [wu1, wu3]"
    by (simp add: wit_eligible)
  moreover have "funding_step wit_bc [wu1, wu3] (wit_builder [] None) =
      Err (InsufficientFunds 23000 23000 100000 2 400)"
    by (simp add: funding_step_def wit_total wit_sel wit_params_sel)
  ultimately show ?thesis
    by (simp add: select_coins_def Let_def wit_initial wit_total wit_pool wit_params_sel
        del: sort_by.simps filter_by.simps and_then_eq_Ok)
qed

lemma wit_amounts_fit: "amounts_fit wit_utxos wit_requests" "amounts_fit [wu1, wu3] wit_requests"
  by (simp_all add: amounts_fit_def wit_sel)

lemma wit_fee_law: "fee_wu_bounded wit_bc"
proof -
  have "1000 * unat (x div 1000) < 2 ^ 64 + 1000" for x :: u64
    using unat_u64_less [of x] by (simp add: unat_div_distrib)
  then show ?thesis by (simp add: fee_wu_bounded_def wit_bc_sel)
qed

lemma wit_budget: "weight_budget wit_bc wit_params wit_utxos wit_requests = 2688"
  by (simp add: weight_budget_def wit_sel wit_bc_sel wit_params_sel)

lemma wit_checked_mul: "fee_wu_checked_mul wit_bc (\<lambda>r. r)"
  by (simp add: fee_wu_checked_mul_def wit_bc_sel)

lemma wit_result_sel:
  "res_inputs wit_result = [wu2, wu1, wu3]" "res_change wit_result = Some 13000" "res_fee wit_result = 1640"
  "res_selected_requests wit_result = [wr2, wr3]"
  by (simp_all add: wit_result_def)

lemmas wit_hyps = wit_select wit_amounts_fit(1) wit_fee_law

section \<open>Witnesses\<close>

theorem select_coins_no_panic_witness:
  "select_coins wit_bc wit_utxos wit_requests wit_params 500 \<noteq> Panic"
  by (rule select_coins_no_panic [OF wit_amounts_fit(1) wit_fee_law _ wit_checked_mul])
    (simp_all add: wit_budget wit_params_sel)

theorem select_coins_inputs_ok_witness:
  "mset [wu2, wu1, wu3] \<subseteq># mset wit_utxos \<and> length [wu2, wu1, wu3] \<le> 400"
  using select_coins_inputs_ok [OF wit_select] by (simp add: wit_result_sel wit_params_sel)

theorem select_coins_conserves_witness: "(90000 + 20000 + 3000 :: nat) = 39180 + 59180 + 13000 + 1640"
  using select_coins_conserves [OF wit_hyps] by (simp add: wit_result_def wit_sel)

theorem select_coins_outputs_ok_witness:
  "\<exists>share :: u64. share \<le> 32910 \<and> unat (39180 :: u64) + unat share = unat (40000 :: u64)"
  using select_coins_outputs_ok [OF wit_hyps] by (auto simp: wit_result_def wit_sel wit_params_sel)

theorem select_coins_change_ok_witness:
  "dust_threshold_for_change (script_pubkey wit_bc (change_address wit_params)) \<le> 13000"
  using select_coins_change_ok [OF wit_hyps] by (simp add: wit_result_sel)

theorem select_coins_weight_ok_witness:
  "exact_tx_weight [wu2, wu1, wu3] [wr2, wr3] (Some 34) + exact_ancestor_weight [wu2, wu1, wu3] \<le> 400000"
  using select_coins_weight_ok [OF wit_hyps] by (simp add: wit_budget wit_result_sel wit_bc_sel wit_params_sel)

theorem select_coins_fee_covers_witness:
  "\<exists>f. fee_wu wit_bc 750 (of_nat (exact_tx_weight [wu2, wu1, wu3] [wr2, wr3] (Some 34))) = Some f"
  using select_coins_fee_covers [OF wit_hyps]
  by (auto simp: wit_budget wit_result_sel wit_params_sel wit_bc_sel(2))

theorem select_coins_insufficient_sound_witness:
  "sum_list (map (\<lambda>u. unat (u_amount u)) [wu1]) < unat (100000 :: u64)"
proof -
  have "mset [wu1] \<subseteq># mset (spendable_pool wit_bc [wu1, wu3] (initial_builder wit_params wit_requests 500))"
    by (simp add: spendable_pool_def wit_initial wit_total wit_eligible)
  from select_coins_insufficient_sound [OF wit_select_insufficient wit_amounts_fit(2) this]
  show ?thesis by (simp add: wit_params_sel)
qed

theorem select_coins_funding_minimal_witness:
  "\<exists>funding extras. [wu2, wu1, wu3] = funding @ extras \<and> (\<forall>u \<in> set extras. u_status u = Confirmed) \<and>
     100000 \<le> sum_list (map (\<lambda>u. unat (u_amount u)) funding)"
proof -
  have "sum_list (map (\<lambda>r. unat (r_amount r)) (res_selected_requests wit_result)) = 100000"
    by (simp add: wit_result_sel wit_sel)
  then show ?thesis
    using select_coins_funding_minimal [OF wit_select wit_amounts_fit(1)] unfolding wit_result_sel by metis
qed

end
