(* ===== verification/Signer_Bitmap.thy ===== *)
theory Signer_Bitmap
  imports Hashi_Prelude
begin

text \<open>
  The signer bitmap of a committee certificate (\<^verbatim>\<open>BitMap\<close> in
  \<^verbatim>\<open>hashi-types/src/committee.rs\<close>): member indices as bits of a byte vector, most significant
  bit first. The locale \<open>index_set\<close> is what the rest of the committee code relies on: the bitmap
  is a finite set of indices that \<open>iter\<close> lists once each in increasing order.
\<close>

unbundle bit_operations_syntax

record BitMap =
  bitmap :: "u8 list"

definition bitmap_new :: BitMap where
  "bitmap_new = \<lparr>bitmap = []\<rparr>"

definition bitmap_as_bytes :: "BitMap \<Rightarrow> u8 list" where
  "bitmap_as_bytes b = bitmap b"

definition bitmap_from_bytes :: "u8 list \<Rightarrow> BitMap" where
  "bitmap_from_bytes bytes = \<lparr>bitmap = bytes\<rparr>"

definition bit_mask :: "usize \<Rightarrow> u8" where
  "bit_mask bit_index = push_bit (7 - bit_index) 1"

text \<open>\<open>insert\<close> returns the bitmap and the previous value of the bit.\<close>

definition bitmap_insert :: "BitMap \<Rightarrow> usize \<Rightarrow> BitMap \<times> bool" where
  "bitmap_insert b i =
     (let byte_index = i div 8;
          mask = bit_mask (i mod 8);
          bytes = (if length (bitmap b) \<le> byte_index
                   then bitmap b @ replicate (byte_index + 1 - length (bitmap b)) 0
                   else bitmap b);
          previous = (bytes ! byte_index AND mask \<noteq> 0)
      in (b\<lparr>bitmap := bytes[byte_index := bytes ! byte_index OR mask]\<rparr>, previous))"

definition bitmap_iter :: "BitMap \<Rightarrow> usize list" where
  "bitmap_iter b =
     concat (map (\<lambda>(byte_index, byte).
         map (\<lambda>bit_index. byte_index * 8 + bit_index)
           (filter (\<lambda>bit_index. byte AND bit_mask bit_index \<noteq> 0) [0..<8]))
       (List.enumerate 0 (bitmap b)))"

definition bitmap_contains :: "BitMap \<Rightarrow> usize \<Rightarrow> bool" where
  "bitmap_contains b i =
     (i div 8 < length (bitmap b) \<and> bitmap b ! (i div 8) AND bit_mask (i mod 8) \<noteq> 0)"

section \<open>The contract of a set of indices\<close>

locale index_set =
  fixes is_empty :: 's
    and is_insert :: "'s \<Rightarrow> usize \<Rightarrow> 's \<times> bool"
    and is_contains :: "'s \<Rightarrow> usize \<Rightarrow> bool"
    and is_iter :: "'s \<Rightarrow> usize list"
  assumes contains_empty: "\<not> is_contains is_empty i"
    and insert_previous: "snd (is_insert s i) = is_contains s i"
    and contains_insert: "is_contains (fst (is_insert s i)) j \<longleftrightarrow> i = j \<or> is_contains s j"
    and iter_sorted: "sorted_wrt (<) (is_iter s)"
    and iter_set: "set (is_iter s) = {i. is_contains s i}"
begin

lemma iter_empty: "is_iter is_empty = []"
  using iter_set [of is_empty] contains_empty by simp

lemma iter_distinct: "distinct (is_iter s)"
  using iter_sorted strict_sorted_iff by blast

lemma mset_iter_insert:
  assumes "\<not> is_contains s i"
  shows "mset (is_iter (fst (is_insert s i))) = add_mset i (mset (is_iter s))"
proof -
  have "set (is_iter (fst (is_insert s i))) = insert i (set (is_iter s))"
    by (auto simp: iter_set contains_insert)
  moreover have "i \<notin> set (is_iter s)" using assms by (simp add: iter_set)
  ultimately have "mset_set (set (is_iter (fst (is_insert s i)))) = add_mset i (mset_set (set (is_iter s)))"
    by simp
  then show ?thesis by (simp only: mset_set_set [OF iter_distinct])
qed

lemma sum_iter_insert:
  assumes "\<not> is_contains s i"
  shows "sum_list (map f (is_iter (fst (is_insert s i)))) = f i + (sum_list (map f (is_iter s)) :: 'b::comm_monoid_add)"
proof -
  have "mset (map f (is_iter (fst (is_insert s i)))) = add_mset (f i) (mset (map f (is_iter s)))"
    using mset_iter_insert [OF assms] by simp
  then have "sum_mset (mset (map f (is_iter (fst (is_insert s i))))) =
      f i + sum_mset (mset (map f (is_iter s)))" by simp
  then show ?thesis by (simp only: sum_mset_sum_list)
qed

lemma iter_insert_present:
  assumes "is_contains s i"
  shows "is_iter (fst (is_insert s i)) = is_iter s"
proof -
  have "set (is_iter (fst (is_insert s i))) = set (is_iter s)"
    using iter_set contains_insert assms by auto
  then show ?thesis using iter_sorted by (metis strict_sorted_equal)
qed

end

section \<open>The bitmap meets it\<close>

lemma bit_bit_mask: "j < 8 \<Longrightarrow> n < 8 \<Longrightarrow> bit (bit_mask j) n \<longleftrightarrow> n = 7 - j"
  by (auto simp: bit_mask_def bit_exp_iff)

lemma and_bit_mask: "j < 8 \<Longrightarrow> w AND bit_mask j \<noteq> 0 \<longleftrightarrow> bit w (7 - j)" for w :: u8
  unfolding bit_eq_iff [of "w AND bit_mask j" 0] by (auto simp: bit_and_iff bit_bit_mask)

lemma bit_or_bit_mask:
  "j < 8 \<Longrightarrow> k < 8 \<Longrightarrow> bit (w OR bit_mask j) (7 - k) \<longleftrightarrow> j = k \<or> bit w (7 - k)" for w :: u8
  by (auto simp: bit_or_iff bit_bit_mask)

lemma bitmap_contains_bit:
  "bitmap_contains b i \<longleftrightarrow> i div 8 < length (bitmap b) \<and> bit (bitmap b ! (i div 8)) (7 - i mod 8)"
  by (simp add: bitmap_contains_def and_bit_mask)

lemma upt_by_bytes: "concat (map (\<lambda>k. map ((+) (k * 8)) [0..<8]) [0..<n]) = [0..<n * 8]"
proof (induction n)
  case (Suc n)
  have "map ((+) (n * 8)) [0..<8] = [n * 8..<n * 8 + 8]"
    by (rule nth_equalityI) (simp_all del: upt_rec_numeral)
  moreover have "[0..<Suc n * 8] = [0..<n * 8] @ [n * 8..<n * 8 + 8]"
    using upt_add_eq_append [of 0 "n * 8" 8] by (simp add: add.commute)
  ultimately show ?case using Suc by simp
qed simp

lemma bitmap_iter_filter: "bitmap_iter b = filter (bitmap_contains b) [0..<length (bitmap b) * 8]"
proof -
  let ?bs = "bitmap b"
  have byte: "map (\<lambda>j. k * 8 + j) (filter (\<lambda>j. ?bs ! k AND bit_mask j \<noteq> 0) [0..<8]) =
      filter (bitmap_contains b) (map ((+) (k * 8)) [0..<8])" if "k < length ?bs" for k
  proof -
    have "filter (\<lambda>j. ?bs ! k AND bit_mask j \<noteq> 0) [0..<8] =
        filter (bitmap_contains b \<circ> (+) (k * 8)) [0..<8]"
      using that by (intro filter_cong) (auto simp: bitmap_contains_def)
    then show ?thesis by (simp add: filter_map)
  qed
  have "bitmap_iter b = concat (map (\<lambda>k. map (\<lambda>j. k * 8 + j)
      (filter (\<lambda>j. ?bs ! k AND bit_mask j \<noteq> 0) [0..<8])) [0..<length ?bs])"
    unfolding bitmap_iter_def
    by (rule arg_cong [where f = concat], rule nth_equalityI) (simp_all add: nth_enumerate_eq)
  also have "\<dots> = concat (map (filter (bitmap_contains b)) (map (\<lambda>k. map ((+) (k * 8)) [0..<8]) [0..<length ?bs]))"
    unfolding map_map by (intro arg_cong [where f = concat] map_cong refl) (simp only: byte comp_apply set_upt atLeastLessThan_iff)
  also have "\<dots> = filter (bitmap_contains b) [0..<length ?bs * 8]"
    unfolding filter_concat [symmetric] upt_by_bytes ..
  finally show ?thesis .
qed

interpretation bitmap_set: index_set bitmap_new bitmap_insert bitmap_contains bitmap_iter
proof
  fix s :: BitMap and i j :: usize
  show "\<not> bitmap_contains bitmap_new i" by (simp add: bitmap_contains_def bitmap_new_def)
  show "snd (bitmap_insert s i) = bitmap_contains s i"
    by (auto simp: bitmap_insert_def bitmap_contains_def Let_def nth_append)
  show "bitmap_contains (fst (bitmap_insert s i)) j \<longleftrightarrow> i = j \<or> bitmap_contains s j"
  proof -
    have ij: "i = j \<longleftrightarrow> i div 8 = j div 8 \<and> i mod 8 = j mod 8"
      by (metis div_mult_mod_eq)
    show ?thesis
      unfolding bitmap_contains_bit ij
      by (auto simp: bitmap_insert_def Let_def nth_append nth_list_update bit_or_bit_mask)
  qed
  show "sorted_wrt (<) (bitmap_iter s)"
    unfolding bitmap_iter_filter by (intro sorted_wrt_filter sorted_wrt_upt)
  show "set (bitmap_iter s) = {i. bitmap_contains s i}"
    by (auto simp: bitmap_iter_filter bitmap_contains_def less_mult_imp_div_less)
qed

end
