(* ===== verification/Committee.thy ===== *)
theory Committee
  imports Guardian_Types Signer_Bitmap
begin

text \<open>
  Committees and their certificates (\<^verbatim>\<open>hashi-types/src/committee.rs\<close>): membership and
  weights, verification of single and aggregate signatures with a weight gate, and the
  aggregator that collects member signatures into a certificate.

  BLS keys, signatures and aggregates are opaque and represented by their bytes. The operations
  of \<^verbatim>\<open>fastcrypto\<close> and \<^verbatim>\<open>bcs\<close> that the code calls are the fields of the record \<open>crypto\<close>, a
  parameter of the definitions; the \<^verbatim>\<open>Nodes\<close> of \<^verbatim>\<open>fastcrypto_tbls\<close> are given by what the code
  reads from them. Indexing a member out of range panics, as in Rust.
\<close>

section \<open>Cryptography the code calls\<close>

type_synonym bytes = "u8 list"

datatype SignatureError = SignatureError string

record 'm crypto =
  bls_verify :: "bytes \<Rightarrow> bytes \<Rightarrow> bytes \<Rightarrow> bool"
  agg_from :: "bytes \<Rightarrow> bytes"
  agg_add :: "bytes \<Rightarrow> bytes \<Rightarrow> bytes option"
  agg_verify :: "bytes \<Rightarrow> bytes list \<Rightarrow> bytes \<Rightarrow> bool"
  agg_from_bytes :: "bytes \<Rightarrow> bytes option"
  msg_intent :: u16
  bcs_to_bytes :: "u16 \<times> address \<times> u64 \<times> 'm \<Rightarrow> bytes option"

record Nodes =
  num_nodes :: usize
  node_pk :: "u16 \<Rightarrow> bytes option"
  node_weight :: "u16 \<Rightarrow> u16 option"

section \<open>Committees\<close>

definition CERTIFICATE_THRESHOLD_BPS :: u64 where "CERTIFICATE_THRESHOLD_BPS = 6667"
definition MAX_BPS :: u64 where "MAX_BPS = 10000"

definition certificate_threshold :: "u64 \<Rightarrow> u64" where
  "certificate_threshold total_w = div_ceil (total_w * CERTIFICATE_THRESHOLD_BPS) MAX_BPS"

record CommitteeMember =
  m_address :: address
  m_public_key :: bytes
  m_encryption_public_key :: bytes
  m_weight :: u64

record 'c Committee =
  c_epoch :: u64
  c_members :: "CommitteeMember list"
  c_address_to_index :: "address \<Rightarrow> usize option"
  c_total_weight :: u64
  c_config :: 'c

record MemberSignature =
  ms_epoch :: u64
  ms_address :: address
  ms_signature :: bytes

definition with_config :: "CommitteeMember list \<Rightarrow> u64 \<Rightarrow> 'c \<Rightarrow> 'c Committee" where
  "with_config members epoch config =
     \<lparr>c_epoch = epoch, c_members = members,
      c_address_to_index =
        map_of (rev (zip (map m_address members) [0..<length members])),
      c_total_weight = sum_list (map m_weight members), c_config = config\<rparr>"

definition committee_size :: "'c Committee \<Rightarrow> usize" where
  "committee_size c = length (c_members c)"

definition member_at :: "'c Committee \<Rightarrow> usize \<Rightarrow> ('e, CommitteeMember) outcome" where
  "member_at c i = (if i < length (c_members c) then Ok (c_members c ! i) else Panic)"

definition committee_member :: "'c Committee \<Rightarrow> address \<Rightarrow> (SignatureError, CommitteeMember) outcome" where
  "committee_member c a =
     and_then (ok_or (SignatureError ''unknown address'') (c_address_to_index c a)) (member_at c)"

definition weight_of :: "'c Committee \<Rightarrow> address \<Rightarrow> (SignatureError, u64) outcome" where
  "weight_of c a = and_then (committee_member c a) (\<lambda>m. Ok (m_weight m))"

definition index_of :: "'c Committee \<Rightarrow> address \<Rightarrow> usize option" where
  "index_of c a = c_address_to_index c a"

text \<open>Serialisation returns a result, which the code unwraps.\<close>

definition signing_message :: "'m crypto \<Rightarrow> address \<Rightarrow> u64 \<Rightarrow> 'm \<Rightarrow> ('e, bytes) outcome" where
  "signing_message cr hashi_id epoch message =
     expect (bcs_to_bytes cr (msg_intent cr, hashi_id, epoch, message))"

definition verify_member ::
    "'m crypto \<Rightarrow> 'c Committee \<Rightarrow> address \<Rightarrow> 'm \<Rightarrow> MemberSignature \<Rightarrow> (SignatureError, unit) outcome" where
  "verify_member cr c hashi_id message s =
     (if c_epoch c \<noteq> ms_epoch s
      then Err (SignatureError ''signature epoch does not match committee epoch'')
      else
        and_then (signing_message cr hashi_id (ms_epoch s) message) (\<lambda>message_bytes.
        and_then (committee_member c (ms_address s)) (\<lambda>m.
          if bls_verify cr (m_public_key m) message_bytes (ms_signature s)
          then Ok () else Err (SignatureError ''invalid signature''))))"

section \<open>Certificates\<close>

record CommitteeSignature =
  cs_epoch :: u64
  cs_signature :: bytes
  cs_signers_bitmap :: BitMap

record 'm SignedMessage =
  sm_signature :: CommitteeSignature
  sm_message :: 'm

definition verify_committee :: "CommitteeSignature \<Rightarrow> 'c Committee \<Rightarrow> (SignatureError, unit) outcome" where
  "verify_committee s c =
     ensure (\<not> (c_epoch c \<noteq> cs_epoch s \<or>
                 list_ex (\<lambda>i. committee_size c \<le> i) (bitmap_iter (cs_signers_bitmap s))))
       (SignatureError ''committee signature does not match committee'')"

primrec members_at :: "'c Committee \<Rightarrow> usize list \<Rightarrow> ('e, CommitteeMember list) outcome" where
  "members_at c [] = Ok []"
| "members_at c (i # is) =
     and_then (member_at c i) (\<lambda>m. and_then (members_at c is) (\<lambda>ms. Ok (m # ms)))"

definition signers :: "CommitteeSignature \<Rightarrow> 'c Committee \<Rightarrow> (SignatureError, address list) outcome" where
  "signers s c =
     and_then (verify_committee s c) (\<lambda>_.
     and_then (members_at c (bitmap_iter (cs_signers_bitmap s))) (\<lambda>ms. Ok (map m_address ms)))"

definition sig_weight :: "CommitteeSignature \<Rightarrow> 'c Committee \<Rightarrow> (SignatureError, u64) outcome" where
  "sig_weight s c =
     and_then (verify_committee s c) (\<lambda>_.
     and_then (members_at c (bitmap_iter (cs_signers_bitmap s))) (\<lambda>ms. Ok (sum_list (map m_weight ms))))"

definition is_signer :: "CommitteeSignature \<Rightarrow> address \<Rightarrow> 'c Committee \<Rightarrow> (SignatureError, bool) outcome" where
  "is_signer s a c =
     and_then (verify_committee s c) (\<lambda>_.
     and_then (ok_or (SignatureError ''unknown address'') (c_address_to_index c a)) (\<lambda>i.
       Ok (bitmap_contains (cs_signers_bitmap s) i)))"

text \<open>The loop over the members; \<open>i\<close> is the index of the first member of the list.\<close>

primrec bind_members :: "Nodes \<Rightarrow> usize \<Rightarrow> CommitteeMember list \<Rightarrow> (SignatureError, unit) outcome" where
  "bind_members nodes i [] = Ok ()"
| "bind_members nodes i (m # ms) =
     (case node_pk nodes (of_nat i) of
        None \<Rightarrow> Err (SignatureError ''invalid node id'')
      | Some pk \<Rightarrow>
          if pk \<noteq> m_encryption_public_key m
          then Err (SignatureError ''reduced weights were derived for a different committee'')
          else bind_members nodes (i + 1) ms)"

definition bind_nodes_to_committee :: "'c Committee \<Rightarrow> Nodes \<Rightarrow> (SignatureError, unit) outcome" where
  "bind_nodes_to_committee c nodes =
     (if num_nodes nodes \<noteq> committee_size c
      then Err (SignatureError ''reduced weights cover a different number of nodes'')
      else bind_members nodes 0 (c_members c))"

primrec node_weights :: "Nodes \<Rightarrow> usize list \<Rightarrow> ('e, u32 list) outcome" where
  "node_weights nodes [] = Ok []"
| "node_weights nodes (i # is) =
     and_then (expect (node_weight nodes (of_nat i))) (\<lambda>w.
     and_then (node_weights nodes is) (\<lambda>ws. Ok (ucast w # ws)))"

definition reduced_weight ::
    "CommitteeSignature \<Rightarrow> 'c Committee \<Rightarrow> Nodes \<Rightarrow> (SignatureError, u32) outcome" where
  "reduced_weight s c nodes =
     and_then (verify_committee s c) (\<lambda>_.
     and_then (bind_nodes_to_committee c nodes) (\<lambda>_.
     and_then (node_weights nodes (bitmap_iter (cs_signers_bitmap s))) (\<lambda>ws. Ok (sum_list ws))))"

definition verify_signature_any_weight ::
    "'m crypto \<Rightarrow> 'c Committee \<Rightarrow> address \<Rightarrow> 'm SignedMessage \<Rightarrow> (SignatureError, unit) outcome" where
  "verify_signature_any_weight cr c hashi_id sm =
     and_then (verify_committee (sm_signature sm) c) (\<lambda>_.
     and_then (members_at c (bitmap_iter (cs_signers_bitmap (sm_signature sm)))) (\<lambda>ms.
     and_then (signing_message cr hashi_id (cs_epoch (sm_signature sm)) (sm_message sm)) (\<lambda>message_bytes.
       if agg_verify cr (cs_signature (sm_signature sm)) (map m_public_key ms) message_bytes
       then Ok () else Err (SignatureError ''invalid aggregate signature''))))"

definition verify_signature_and_weight ::
    "'m crypto \<Rightarrow> 'c Committee \<Rightarrow> address \<Rightarrow> 'm SignedMessage \<Rightarrow> u64 \<Rightarrow> (SignatureError, unit) outcome" where
  "verify_signature_and_weight cr c hashi_id sm required_weight =
     and_then (sig_weight (sm_signature sm) c) (\<lambda>signed_weight.
       if signed_weight < required_weight
       then Err (SignatureError ''insufficient signing weight'')
       else verify_signature_any_weight cr c hashi_id sm)"

definition verify_signature_and_reduced_weight ::
    "'m crypto \<Rightarrow> 'c Committee \<Rightarrow> address \<Rightarrow> 'm SignedMessage \<Rightarrow> Nodes \<Rightarrow> u32
       \<Rightarrow> (SignatureError, u32) outcome" where
  "verify_signature_and_reduced_weight cr c hashi_id sm nodes required_weight =
     and_then (reduced_weight (sm_signature sm) c nodes) (\<lambda>signed_weight.
       if signed_weight < required_weight
       then Err (SignatureError ''insufficient signing weight'')
       else and_then (verify_signature_any_weight cr c hashi_id sm) (\<lambda>_. Ok signed_weight))"

definition try_from_parts ::
    "'m crypto \<Rightarrow> address \<Rightarrow> u64 \<Rightarrow> 'm \<Rightarrow> bytes \<Rightarrow> bytes \<Rightarrow> 'c Committee \<Rightarrow> u64
       \<Rightarrow> (SignatureError, 'm SignedMessage) outcome" where
  "try_from_parts cr hashi_id epoch message signature_bytes signers_bitmap_bytes c threshold =
     and_then (ok_or (SignatureError ''invalid signature bytes'') (agg_from_bytes cr signature_bytes)) (\<lambda>sig.
       let sm = \<lparr>sm_signature = \<lparr>cs_epoch = epoch, cs_signature = sig,
                   cs_signers_bitmap = bitmap_from_bytes signers_bitmap_bytes\<rparr>,
                 sm_message = message\<rparr>
       in and_then (verify_signature_and_weight cr c hashi_id sm threshold) (\<lambda>_. Ok sm))"

section \<open>The aggregator\<close>

record CommitteeWeight =
  cw_signed :: u64

record ReducedWeight =
  rw_nodes :: Nodes
  rw_signed :: u16

definition cw_add_signer ::
    "CommitteeWeight \<Rightarrow> 'c Committee \<Rightarrow> usize \<Rightarrow> (SignatureError, CommitteeWeight) outcome" where
  "cw_add_signer w c index =
     and_then (member_at c index) (\<lambda>m. Ok (w\<lparr>cw_signed := cw_signed w + m_weight m\<rparr>))"

definition rw_add_signer ::
    "ReducedWeight \<Rightarrow> 'c Committee \<Rightarrow> usize \<Rightarrow> (SignatureError, ReducedWeight) outcome" where
  "rw_add_signer w c index =
     and_then (expect (node_weight (rw_nodes w) (of_nat index)))
       (\<lambda>x. Ok (w\<lparr>rw_signed := rw_signed w + x\<rparr>))"

definition reduced_weight_new :: "'c Committee \<Rightarrow> Nodes \<Rightarrow> (SignatureError, ReducedWeight) outcome" where
  "reduced_weight_new c nodes =
     and_then (bind_nodes_to_committee c nodes) (\<lambda>_. Ok \<lparr>rw_nodes = nodes, rw_signed = 0\<rparr>)"

record ('c, 'm, 'w) BlsSignatureAggregator =
  ag_committee :: "'c Committee"
  ag_hashi_id :: address
  ag_aggregate_signature :: "bytes option"
  ag_bitmap :: BitMap
  ag_message :: 'm
  ag_domain :: 'w

definition aggregator_new ::
    "address \<Rightarrow> 'c Committee \<Rightarrow> 'm \<Rightarrow> ('c, 'm, CommitteeWeight) BlsSignatureAggregator" where
  "aggregator_new hashi_id c message =
     \<lparr>ag_committee = c, ag_hashi_id = hashi_id, ag_aggregate_signature = None,
      ag_bitmap = bitmap_new, ag_message = message, ag_domain = \<lparr>cw_signed = 0\<rparr>\<rparr>"

definition aggregator_new_reduced ::
    "address \<Rightarrow> 'c Committee \<Rightarrow> 'm \<Rightarrow> Nodes
       \<Rightarrow> (SignatureError, ('c, 'm, ReducedWeight) BlsSignatureAggregator) outcome" where
  "aggregator_new_reduced hashi_id c message nodes =
     and_then (reduced_weight_new c nodes) (\<lambda>w.
       Ok \<lparr>ag_committee = c, ag_hashi_id = hashi_id, ag_aggregate_signature = None,
           ag_bitmap = bitmap_new, ag_message = message, ag_domain = w\<rparr>)"

definition reduced_weight_reached :: "('c, 'm, ReducedWeight) BlsSignatureAggregator \<Rightarrow> u32 \<Rightarrow> bool" where
  "reduced_weight_reached ag w \<longleftrightarrow> w \<le> ucast (rw_signed (ag_domain ag))"

definition add_signature ::
    "'m crypto \<Rightarrow> ('w \<Rightarrow> 'c Committee \<Rightarrow> usize \<Rightarrow> (SignatureError, 'w) outcome)
       \<Rightarrow> ('c, 'm, 'w) BlsSignatureAggregator \<Rightarrow> MemberSignature
       \<Rightarrow> ('c, 'm, 'w) BlsSignatureAggregator \<times> (SignatureError, unit) outcome" where
  "add_signature cr add_signer ag s =
     (case verify_member cr (ag_committee ag) (ag_hashi_id ag) (ag_message ag) s of
        Err e \<Rightarrow> (ag, Err e)
      | Panic \<Rightarrow> (ag, Panic)
      | Ok _ \<Rightarrow>
          (case c_address_to_index (ag_committee ag) (ms_address s) of
             None \<Rightarrow> (ag, Err (SignatureError ''unknown address''))
           | Some index \<Rightarrow>
               let (b, previous) = bitmap_insert (ag_bitmap ag) index;
                   ag = ag\<lparr>ag_bitmap := b\<rparr>
               in if previous
                  then (ag, Err (SignatureError ''duplicate signature from same committee member''))
                  else
                    (case (case ag_aggregate_signature ag of
                             None \<Rightarrow> Some (agg_from cr (ms_signature s))
                           | Some agg \<Rightarrow> agg_add cr agg (ms_signature s)) of
                       None \<Rightarrow> (ag, Err (SignatureError ''aggregation failed''))
                     | Some agg \<Rightarrow>
                         let ag = ag\<lparr>ag_aggregate_signature := Some agg\<rparr>
                         in (case add_signer (ag_domain ag) (ag_committee ag) index of
                               Ok w \<Rightarrow> (ag\<lparr>ag_domain := w\<rparr>, Ok ())
                             | Err e \<Rightarrow> (ag, Err e)
                             | Panic \<Rightarrow> (ag, Panic)))))"

definition add_signature_from ::
    "'m crypto \<Rightarrow> ('w \<Rightarrow> 'c Committee \<Rightarrow> usize \<Rightarrow> (SignatureError, 'w) outcome)
       \<Rightarrow> ('c, 'm, 'w) BlsSignatureAggregator \<Rightarrow> address \<Rightarrow> bytes
       \<Rightarrow> ('c, 'm, 'w) BlsSignatureAggregator \<times> (SignatureError, unit) outcome" where
  "add_signature_from cr add_signer ag signer signature =
     add_signature cr add_signer ag
       \<lparr>ms_epoch = c_epoch (ag_committee ag), ms_address = signer, ms_signature = signature\<rparr>"

definition finish ::
    "'m crypto \<Rightarrow> ('c, 'm, 'w) BlsSignatureAggregator \<Rightarrow> (SignatureError, 'm SignedMessage) outcome" where
  "finish cr ag =
     (case ag_aggregate_signature ag of
        None \<Rightarrow> Err (SignatureError ''signature map must have at least one entry'')
      | Some signature \<Rightarrow>
          let sm = \<lparr>sm_signature = \<lparr>cs_epoch = c_epoch (ag_committee ag), cs_signature = signature,
                      cs_signers_bitmap = ag_bitmap ag\<rparr>,
                    sm_message = ag_message ag\<rparr>
          in and_then (verify_signature_any_weight cr (ag_committee ag) (ag_hashi_id ag) sm) (\<lambda>_. Ok sm))"

text \<open>Signatures offered to an aggregator one after another.\<close>

primrec add_signatures ::
    "'m crypto \<Rightarrow> ('w \<Rightarrow> 'c Committee \<Rightarrow> usize \<Rightarrow> (SignatureError, 'w) outcome)
       \<Rightarrow> ('c, 'm, 'w) BlsSignatureAggregator \<Rightarrow> MemberSignature list \<Rightarrow> ('c, 'm, 'w) BlsSignatureAggregator" where
  "add_signatures cr add_signer ag [] = ag"
| "add_signatures cr add_signer ag (s # ss) =
     add_signatures cr add_signer (fst (add_signature cr add_signer ag s)) ss"

text \<open>The members whose signatures the aggregator accepted, in the order of acceptance.\<close>

definition accepted_index ::
    "'m crypto \<Rightarrow> ('w \<Rightarrow> 'c Committee \<Rightarrow> usize \<Rightarrow> (SignatureError, 'w) outcome)
       \<Rightarrow> ('c, 'm, 'w) BlsSignatureAggregator \<Rightarrow> MemberSignature \<Rightarrow> usize list" where
  "accepted_index cr add_signer ag s =
     (case (snd (add_signature cr add_signer ag s), c_address_to_index (ag_committee ag) (ms_address s)) of
        (Ok _, Some i) \<Rightarrow> [i]
      | _ \<Rightarrow> [])"

primrec accepted ::
    "'m crypto \<Rightarrow> ('w \<Rightarrow> 'c Committee \<Rightarrow> usize \<Rightarrow> (SignatureError, 'w) outcome)
       \<Rightarrow> ('c, 'm, 'w) BlsSignatureAggregator \<Rightarrow> MemberSignature list \<Rightarrow> usize list" where
  "accepted cr add_signer ag [] = []"
| "accepted cr add_signer ag (s # ss) =
     accepted_index cr add_signer ag s @
     accepted cr add_signer (fst (add_signature cr add_signer ag s)) ss"

section \<open>Well-formed committees\<close>

text \<open>What \<open>with_config\<close>, the only constructor, establishes.\<close>

definition committee_wf :: "'c Committee \<Rightarrow> bool" where
  "committee_wf c \<longleftrightarrow>
     (\<forall>a i. c_address_to_index c a = Some i \<longrightarrow> i < committee_size c \<and> m_address (c_members c ! i) = a) \<and>
     (\<forall>m \<in> set (c_members c). c_address_to_index c (m_address m) \<noteq> None) \<and>
     c_total_weight c = sum_list (map m_weight (c_members c))"

lemma with_config_wf: "committee_wf (with_config members epoch config)"
proof -
  let ?al = "zip (map m_address members) [0..<length members]"
  have "i < length members \<and> m_address (members ! i) = a" if "map_of (rev ?al) a = Some i" for a i
  proof -
    have "(a, i) \<in> set ?al" using map_of_SomeD [OF that] by simp
    then show ?thesis by (auto simp: in_set_zip)
  qed
  moreover have "map_of (rev ?al) (m_address m) \<noteq> None" if "m \<in> set members" for m
  proof -
    have "m_address m \<in> set (map fst ?al)" using that by simp
    then show ?thesis unfolding map_of_eq_None_iff set_rev by (simp only: set_map not_not)
  qed
  ultimately show ?thesis
    by (auto simp: committee_wf_def with_config_def committee_size_def)
qed

lemma members_at_Ok:
  "members_at c is = Ok ms \<longleftrightarrow> (\<forall>i \<in> set is. i < committee_size c) \<and> ms = map ((!) (c_members c)) is"
  by (induction "is" arbitrary: ms) (auto simp: member_at_def committee_size_def)

lemma members_at_in_range:
  "\<forall>i \<in> set is. i < committee_size c \<Longrightarrow> members_at c is = Ok (map ((!) (c_members c)) is)"
  by (simp add: members_at_Ok)

lemma members_at_no_Err: "members_at c is \<noteq> Err e"
  by (induction "is") (auto simp: member_at_def and_then_eq_Err)

lemma verify_committee_Ok:
  "verify_committee s c = Ok () \<longleftrightarrow>
     c_epoch c = cs_epoch s \<and> (\<forall>i \<in> set (bitmap_iter (cs_signers_bitmap s)). i < committee_size c)"
  by (auto simp: verify_committee_def ensure_def list_ex_iff not_le)

lemma verify_committee_no_panic: "verify_committee s c \<noteq> Panic"
  by (simp add: verify_committee_def ensure_def)

text \<open>The members a bitmap names, and their weight in exact arithmetic.\<close>

definition exact_weight :: "'c Committee \<Rightarrow> usize set \<Rightarrow> nat" where
  "exact_weight c S = (\<Sum>i\<in>S. unat (m_weight (c_members c ! i)))"

abbreviation signer_indices :: "CommitteeSignature \<Rightarrow> usize set" where
  "signer_indices s \<equiv> set (bitmap_iter (cs_signers_bitmap s))"

definition total_fits :: "'c Committee \<Rightarrow> bool" where
  "total_fits c \<longleftrightarrow> exact_weight c {..<committee_size c} * 6667 < 2 ^ 64"

lemma exact_weight_members:
  "exact_weight c {..<committee_size c} = sum_list (map (\<lambda>m. unat (m_weight m)) (c_members c))"
  by (simp add: exact_weight_def committee_size_def sum_list_sum_nth atLeast0LessThan)

lemma exact_weight_mono: "finite T \<Longrightarrow> S \<subseteq> T \<Longrightarrow> exact_weight c S \<le> exact_weight c T"
  unfolding exact_weight_def by (rule sum_mono2) auto

lemma exact_weight_distinct:
  "distinct is \<Longrightarrow> exact_weight c (set is) = sum_list (map (\<lambda>i. unat (m_weight (c_members c ! i))) is)"
  by (simp add: exact_weight_def sum_list_distinct_conv_sum_set)

lemma sig_weight_Ok:
  "sig_weight s c = Ok w \<longleftrightarrow> verify_committee s c = Ok () \<and>
     w = sum_list (map (\<lambda>i. m_weight (c_members c ! i)) (bitmap_iter (cs_signers_bitmap s)))"
  by (auto simp: sig_weight_def members_at_Ok verify_committee_Ok comp_def)

lemma exact_total: "committee_wf c \<Longrightarrow> total_fits c \<Longrightarrow>
    unat (c_total_weight c) = exact_weight c {..<committee_size c}"
  using unat_sum_list [of "map m_weight (c_members c)"]
  by (simp add: committee_wf_def total_fits_def exact_weight_members comp_def)

lemma unat_sig_weight:
  assumes "sig_weight s c = Ok w" "exact_weight c {..<committee_size c} < 2 ^ 64"
  shows "unat w = exact_weight c (signer_indices s)" "signer_indices s \<subseteq> {..<committee_size c}"
proof -
  let ?is = "bitmap_iter (cs_signers_bitmap s)"
  show sub: "signer_indices s \<subseteq> {..<committee_size c}"
    using assms(1) by (auto simp: sig_weight_Ok verify_committee_Ok)
  have ex: "exact_weight c (set ?is) = sum_list (map unat (map (\<lambda>i. m_weight (c_members c ! i)) ?is))"
    by (simp add: exact_weight_distinct [OF bitmap_set.iter_distinct] comp_def)
  have "exact_weight c (set ?is) < 2 ^ 64"
    using exact_weight_mono [OF _ sub, of c] assms(2) by simp
  then show "unat w = exact_weight c (signer_indices s)"
    using unat_sum_list [of "map (\<lambda>i. m_weight (c_members c ! i)) ?is"] ex assms(1)
    by (simp add: sig_weight_Ok)
qed

section \<open>The contract of a weight domain\<close>

locale weight_domain =
  fixes wd_add_signer :: "'w \<Rightarrow> 'c Committee \<Rightarrow> usize \<Rightarrow> (SignatureError, 'w) outcome"
    and wd_signed :: "'w \<Rightarrow> 'l::len word"
    and wd_weight_at :: "'w \<Rightarrow> 'c Committee \<Rightarrow> usize \<Rightarrow> 'l word"
    and wd_ready :: "'w \<Rightarrow> 'c Committee \<Rightarrow> bool"
  assumes add_signer_adds:
    "wd_ready w c \<Longrightarrow> i < committee_size c \<Longrightarrow>
       \<exists>w'. wd_add_signer w c i = Ok w' \<and> wd_signed w' = wd_signed w + wd_weight_at w c i \<and>
         wd_weight_at w' = wd_weight_at w \<and> wd_ready w' c"
begin

text \<open>
  Between calls, the signed weight is the weight of the accepted members, counted once each,
  and all of them are in the bitmap. A signature that verifies but does not aggregate leaves
  its member in the bitmap without being accepted.
\<close>

definition agg_inv :: "usize list \<Rightarrow> ('c, 'm, 'w) BlsSignatureAggregator \<Rightarrow> bool" where
  "agg_inv acc ag \<longleftrightarrow>
     committee_wf (ag_committee ag) \<and> wd_ready (ag_domain ag) (ag_committee ag) \<and>
     (\<forall>i. bitmap_contains (ag_bitmap ag) i \<longrightarrow> i < committee_size (ag_committee ag)) \<and>
     distinct acc \<and> (\<forall>i \<in> set acc. bitmap_contains (ag_bitmap ag) i) \<and>
     wd_signed (ag_domain ag) = sum_list (map (wd_weight_at (ag_domain ag) (ag_committee ag)) acc)"

definition same_context :: "('c, 'm, 'w) BlsSignatureAggregator \<Rightarrow> ('c, 'm, 'w) BlsSignatureAggregator \<Rightarrow> bool" where
  "same_context ag ag' \<longleftrightarrow>
     ag_committee ag' = ag_committee ag \<and> ag_hashi_id ag' = ag_hashi_id ag \<and> ag_message ag' = ag_message ag \<and>
     wd_weight_at (ag_domain ag') = wd_weight_at (ag_domain ag)"

text \<open>Only members accepted by now are in the bitmap: no aggregation has failed.\<close>

definition all_accepted :: "usize list \<Rightarrow> ('c, 'm, 'w) BlsSignatureAggregator \<Rightarrow> bool" where
  "all_accepted acc ag \<longleftrightarrow> (\<forall>i. bitmap_contains (ag_bitmap ag) i \<longrightarrow> i \<in> set acc)"

lemma verify_member_panics:
  assumes "agg_inv acc ag" "verify_member cr (ag_committee ag) (ag_hashi_id ag) (ag_message ag) s = Panic"
  shows "bcs_to_bytes cr (msg_intent cr, ag_hashi_id ag, c_epoch (ag_committee ag), ag_message ag) = None"
  using assms
  by (auto simp: verify_member_def committee_member_def member_at_def and_then_eq_Panic ok_or_eq
      agg_inv_def committee_wf_def committee_size_def signing_message_def
      split: if_splits option.splits)

lemma add_signature_fresh:
  assumes inv: "agg_inv acc ag"
    and v: "verify_member cr (ag_committee ag) (ag_hashi_id ag) (ag_message ag) s = Ok ()"
    and i: "c_address_to_index (ag_committee ag) (ms_address s) = Some i"
    and fresh: "\<not> bitmap_contains (ag_bitmap ag) i"
  obtains b where "add_signature cr wd_add_signer ag s =
      (ag\<lparr>ag_bitmap := b\<rparr>, Err (SignatureError ''aggregation failed''))"
    "\<exists>g. agg_add cr g (ms_signature s) = None"
    "\<And>j. bitmap_contains b j \<longleftrightarrow> i = j \<or> bitmap_contains (ag_bitmap ag) j"
  | b g w where "add_signature cr wd_add_signer ag s =
      (ag\<lparr>ag_bitmap := b, ag_aggregate_signature := Some g, ag_domain := w\<rparr>, Ok ())"
    "\<And>j. bitmap_contains b j \<longleftrightarrow> i = j \<or> bitmap_contains (ag_bitmap ag) j"
    "wd_signed w = wd_signed (ag_domain ag) + wd_weight_at (ag_domain ag) (ag_committee ag) i"
    "wd_weight_at w = wd_weight_at (ag_domain ag)" "wd_ready w (ag_committee ag)"
proof -
  have size: "i < committee_size (ag_committee ag)" using inv i by (simp add: agg_inv_def committee_wf_def)
  obtain w where w: "wd_add_signer (ag_domain ag) (ag_committee ag) i = Ok w"
    "wd_signed w = wd_signed (ag_domain ag) + wd_weight_at (ag_domain ag) (ag_committee ag) i"
    "wd_weight_at w = wd_weight_at (ag_domain ag)" "wd_ready w (ag_committee ag)"
    using add_signer_adds [OF _ size] inv unfolding agg_inv_def by blast
  obtain b where b: "bitmap_insert (ag_bitmap ag) i = (b, False)"
    using bitmap_set.insert_previous [of "ag_bitmap ag" i] fresh by (metis prod.collapse)
  have contains: "bitmap_contains b j \<longleftrightarrow> i = j \<or> bitmap_contains (ag_bitmap ag) j" for j
    using bitmap_set.contains_insert [of "ag_bitmap ag" i j] b by simp
  let ?g = "case ag_aggregate_signature ag of None \<Rightarrow> Some (agg_from cr (ms_signature s))
      | Some agg \<Rightarrow> agg_add cr agg (ms_signature s)"
  show thesis
  proof (cases ?g)
    case None
    then have "\<exists>g. agg_add cr g (ms_signature s) = None" by (auto split: option.splits)
    moreover have "add_signature cr wd_add_signer ag s =
        (ag\<lparr>ag_bitmap := b\<rparr>, Err (SignatureError ''aggregation failed''))"
      using None by (simp add: add_signature_def v i b Let_def)
    ultimately show thesis using that(1) contains by blast
  next
    case (Some g)
    then have "add_signature cr wd_add_signer ag s =
        (ag\<lparr>ag_bitmap := b, ag_aggregate_signature := Some g, ag_domain := w\<rparr>, Ok ())"
      using w(1) by (simp add: add_signature_def v i b Let_def)
    then show thesis using that(2) contains w(2-4) by blast
  qed
qed

lemma add_signature_duplicate:
  assumes v: "verify_member cr (ag_committee ag) (ag_hashi_id ag) (ag_message ag) s = Ok ()"
    and i: "c_address_to_index (ag_committee ag) (ms_address s) = Some i"
    and dup: "bitmap_contains (ag_bitmap ag) i"
  obtains b where "add_signature cr wd_add_signer ag s =
      (ag\<lparr>ag_bitmap := b\<rparr>, Err (SignatureError ''duplicate signature from same committee member''))"
    "\<And>j. bitmap_contains b j \<longleftrightarrow> bitmap_contains (ag_bitmap ag) j"
proof -
  obtain b where b: "bitmap_insert (ag_bitmap ag) i = (b, True)"
    using bitmap_set.insert_previous [of "ag_bitmap ag" i] dup by (metis prod.collapse)
  show thesis
    using that [of b] bitmap_set.contains_insert [of "ag_bitmap ag" i] dup b
    by (auto simp: add_signature_def v i Let_def)
qed

text \<open>
  Every offered signature keeps the invariant and the context. It panics only if the message
  does not serialise, and leaves a member unaccepted only if its signature does not aggregate.
\<close>

lemma add_signature_inv:
  assumes inv: "agg_inv acc ag"
  shows "agg_inv (acc @ accepted_index cr wd_add_signer ag s) (fst (add_signature cr wd_add_signer ag s)) \<and>
    same_context ag (fst (add_signature cr wd_add_signer ag s)) \<and>
    (bcs_to_bytes cr (msg_intent cr, ag_hashi_id ag, c_epoch (ag_committee ag), ag_message ag) \<noteq> None \<longrightarrow>
       snd (add_signature cr wd_add_signer ag s) \<noteq> Panic) \<and>
    (all_accepted acc ag \<and> (\<forall>g. agg_add cr g (ms_signature s) \<noteq> None) \<longrightarrow>
       all_accepted (acc @ accepted_index cr wd_add_signer ag s) (fst (add_signature cr wd_add_signer ag s)))"
proof (cases "verify_member cr (ag_committee ag) (ag_hashi_id ag) (ag_message ag) s")
  case (Ok x)
  then have v: "verify_member cr (ag_committee ag) (ag_hashi_id ag) (ag_message ag) s = Ok ()" by simp
  then obtain i where i: "c_address_to_index (ag_committee ag) (ms_address s) = Some i"
    by (auto simp: verify_member_def committee_member_def ok_or_eq split: if_splits)
  have size: "i < committee_size (ag_committee ag)" using inv i by (simp add: agg_inv_def committee_wf_def)
  show ?thesis
  proof (cases "bitmap_contains (ag_bitmap ag) i")
    case True
    from add_signature_duplicate [OF v i True] obtain b where
      "add_signature cr wd_add_signer ag s =
        (ag\<lparr>ag_bitmap := b\<rparr>, Err (SignatureError ''duplicate signature from same committee member''))"
      "\<And>j. bitmap_contains b j \<longleftrightarrow> bitmap_contains (ag_bitmap ag) j" by metis
    then show ?thesis using inv by (simp add: accepted_index_def agg_inv_def same_context_def all_accepted_def)
  next
    case False
    then have new: "i \<notin> set acc" using inv by (auto simp: agg_inv_def)
    show ?thesis
      by (rule add_signature_fresh [OF inv v i False, of ?thesis])
        (use inv i size new in \<open>auto simp: accepted_index_def agg_inv_def same_context_def all_accepted_def\<close>)
  qed
next
  case (Err e)
  then show ?thesis
    using inv by (simp add: add_signature_def same_context_def accepted_index_def)
next
  case Panic
  then show ?thesis
    using inv verify_member_panics [OF inv Panic] by (simp add: add_signature_def same_context_def accepted_index_def)
qed

lemma add_signatures_inv:
  assumes "agg_inv acc ag"
  shows "agg_inv (acc @ accepted cr wd_add_signer ag ss) (add_signatures cr wd_add_signer ag ss) \<and>
    same_context ag (add_signatures cr wd_add_signer ag ss) \<and>
    (all_accepted acc ag \<and> (\<forall>g. \<forall>s \<in> set ss. agg_add cr g (ms_signature s) \<noteq> None) \<longrightarrow>
       all_accepted (acc @ accepted cr wd_add_signer ag ss) (add_signatures cr wd_add_signer ag ss))"
  using assms
proof (induction ss arbitrary: acc ag)
  case (Cons s ss)
  note st = add_signature_inv [OF Cons.prems, of cr s]
  have "agg_inv (acc @ accepted_index cr wd_add_signer ag s) (fst (add_signature cr wd_add_signer ag s))"
    using st by blast
  from Cons.IH [OF this] st show ?case by (auto simp: same_context_def)
qed (simp add: same_context_def)

end

lemma finish_Ok:
  assumes "finish cr ag = Ok sm"
  shows "verify_signature_any_weight cr (ag_committee ag) (ag_hashi_id ag) sm = Ok ()"
    "cs_signers_bitmap (sm_signature sm) = ag_bitmap ag" "sm_message sm = ag_message ag"
    "cs_epoch (sm_signature sm) = c_epoch (ag_committee ag)" "ag_aggregate_signature ag \<noteq> None"
  using assms by (auto simp: finish_def Let_def split: option.splits)

section \<open>Both weight domains meet it\<close>

definition cw_weight_at :: "CommitteeWeight \<Rightarrow> 'c Committee \<Rightarrow> usize \<Rightarrow> u64" where
  "cw_weight_at w c i = m_weight (c_members c ! i)"

definition rw_weight_at :: "ReducedWeight \<Rightarrow> 'c Committee \<Rightarrow> usize \<Rightarrow> u16" where
  "rw_weight_at w c i = (case node_weight (rw_nodes w) (of_nat i) of None \<Rightarrow> 0 | Some x \<Rightarrow> x)"

definition rw_ready :: "ReducedWeight \<Rightarrow> 'c Committee \<Rightarrow> bool" where
  "rw_ready w c \<longleftrightarrow> (\<forall>i < committee_size c. node_weight (rw_nodes w) (of_nat i) \<noteq> None)"

interpretation stake: weight_domain cw_add_signer cw_signed cw_weight_at "\<lambda>_ _. True"
  by unfold_locales (simp add: cw_add_signer_def member_at_def committee_size_def cw_weight_at_def fun_eq_iff)

interpretation reduced: weight_domain rw_add_signer rw_signed rw_weight_at rw_ready
proof
  fix w :: ReducedWeight and c :: "'c Committee" and i :: usize
  assume ready: "rw_ready w c" and "i < committee_size c"
  then obtain x where "node_weight (rw_nodes w) (of_nat i) = Some x" by (auto simp: rw_ready_def)
  then show "\<exists>w'. rw_add_signer w c i = Ok w' \<and> rw_signed w' = rw_signed w + rw_weight_at w c i \<and>
      (rw_weight_at w' :: 'c Committee \<Rightarrow> _) = rw_weight_at w \<and> rw_ready w' c"
    using ready by (simp add: rw_add_signer_def rw_weight_at_def rw_ready_def fun_eq_iff)
qed

lemma stake_new: "committee_wf c \<Longrightarrow> stake.agg_inv [] (aggregator_new hashi_id c message)"
  by (simp add: stake.agg_inv_def aggregator_new_def bitmap_set.contains_empty)

lemma bind_members_Ok:
  "bind_members nodes i ms = Ok () \<longleftrightarrow>
     (\<forall>j < length ms. node_pk nodes (of_nat (i + j)) = Some (m_encryption_public_key (ms ! j)))"
proof (induction ms arbitrary: i)
  case (Cons m ms)
  have split: "(\<forall>j < Suc n. P j) \<longleftrightarrow> P 0 \<and> (\<forall>j < n. P (Suc j))" for P and n :: nat
    by (metis less_Suc_eq_0_disj)
  show ?case by (auto simp: Cons split add_ac split: option.splits)
qed simp

lemma bind_nodes_no_panic: "bind_nodes_to_committee c nodes \<noteq> Panic"
proof -
  have "bind_members nodes i ms \<noteq> Panic" for i ms
    by (induction ms arbitrary: i) (simp_all split: option.split)
  then show ?thesis by (simp add: bind_nodes_to_committee_def)
qed

text \<open>A node set in which every node with a key has a weight, as \<^verbatim>\<open>Nodes\<close> guarantees.\<close>

definition nodes_ok :: "Nodes \<Rightarrow> bool" where
  "nodes_ok nodes \<longleftrightarrow> (\<forall>id. node_pk nodes id \<noteq> None \<longrightarrow> node_weight nodes id \<noteq> None)"

lemma bind_nodes_ready:
  assumes "bind_nodes_to_committee c nodes = Ok ()" "nodes_ok nodes" "i < committee_size c"
  shows "node_weight nodes (of_nat i) \<noteq> None"
  using assms by (auto simp: bind_nodes_to_committee_def bind_members_Ok nodes_ok_def committee_size_def split: if_splits)

lemma reduced_new:
  assumes "aggregator_new_reduced hashi_id c message nodes = Ok ag" "nodes_ok nodes" "committee_wf c"
  shows "reduced.agg_inv [] ag" "ag_committee ag = c" "ag_hashi_id ag = hashi_id" "rw_nodes (ag_domain ag) = nodes"
    "bind_nodes_to_committee c nodes = Ok ()"
  using assms bind_nodes_ready [OF _ assms(2)]
  by (auto simp: aggregator_new_reduced_def reduced_weight_new_def reduced.agg_inv_def rw_ready_def
      bitmap_set.contains_empty)

lemma node_weights_Ok:
  assumes "\<And>i. i \<in> set is \<Longrightarrow> node_weight nodes (of_nat i) \<noteq> None"
  shows "node_weights nodes is =
    Ok (map (\<lambda>i. ucast (rw_weight_at \<lparr>rw_nodes = nodes, rw_signed = 0\<rparr> c i)) is)"
  using assms
proof (induction "is")
  case (Cons i "is")
  then obtain x where "node_weight nodes (of_nat i) = Some x" by fastforce
  then show ?case using Cons by (simp add: rw_weight_at_def)
qed simp

end
