(* ===== verification/Committee_Props.thy ===== *)
theory Committee_Props
  imports Committee
begin

text \<open>
  The properties of committees and certificates: what a verified certificate proves, that two
  certificates share an honest member, that a verifier counts at least the weight the aggregator
  reports, and that bitmaps received from peers never make verification panic.
\<close>

section \<open>Quorum arithmetic\<close>

lemma unat_certificate_threshold:
  assumes "unat t * 6667 < 2 ^ 64"
  shows "unat t * 6667 \<le> 10000 * unat (certificate_threshold t)"
proof -
  have "unat (t * CERTIFICATE_THRESHOLD_BPS) = unat t * 6667"
    using assms unat_mult_lem [of t CERTIFICATE_THRESHOLD_BPS] by (simp add: CERTIFICATE_THRESHOLD_BPS_def)
  then show ?thesis
    using div_ceil_bounds(1) [of MAX_BPS "t * CERTIFICATE_THRESHOLD_BPS"]
    by (simp add: certificate_threshold_def MAX_BPS_def)
qed

lemma exact_weight_Un_Int:
  assumes "finite A" "finite B"
  shows "exact_weight c A + exact_weight c B = exact_weight c (A \<union> B) + exact_weight c (A \<inter> B)"
  unfolding exact_weight_def by (rule sum.union_inter [OF assms, symmetric])

lemma verified_weight:
  assumes "verify_signature_and_weight cr c hid sm t = Ok ()"
  obtains w where "sig_weight (sm_signature sm) c = Ok w" "t \<le> w"
    "verify_signature_any_weight cr c hid sm = Ok ()"
  using assms by (auto simp: verify_signature_and_weight_def split: if_splits)

lemma unat_ucast_u16_u32: "unat (ucast w :: u32) = unat w" for w :: u16
proof -
  have "unat w < 2 ^ 32" using unat_lt_exp [of w] by simp
  then show ?thesis by (simp add: unsigned_ucast_eq take_bit_nat_eq_self)
qed

lemma members_at_verified:
  "verify_committee s c = Ok () \<Longrightarrow> members_at c (bitmap_iter (cs_signers_bitmap s)) \<noteq> Panic"
  by (simp add: verify_committee_Ok members_at_in_range)

lemma sig_weight_no_panic: "sig_weight s c \<noteq> Panic"
  using members_at_verified by (auto simp: sig_weight_def and_then_eq_Panic verify_committee_no_panic)

lemma any_weight_panics:
  "verify_signature_any_weight cr c hid sm = Panic \<Longrightarrow>
     bcs_to_bytes cr (msg_intent cr, hid, c_epoch c, sm_message sm) = None"
  using members_at_verified
  by (auto simp: verify_signature_any_weight_def and_then_eq_Panic verify_committee_no_panic verify_committee_Ok
      signing_message_def members_at_in_range split: if_splits)


lemma node_weights_no_panic:
  "(\<And>i. i \<in> set is \<Longrightarrow> node_weight nodes (of_nat i) \<noteq> None) \<Longrightarrow> node_weights nodes is \<noteq> Panic"
  by (induction "is") (auto simp: and_then_eq_Panic)

lemma reduced_weight_no_panic:
  assumes "nodes_ok nodes"
  shows "reduced_weight s c nodes \<noteq> Panic"
proof -
  have "node_weights nodes (bitmap_iter (cs_signers_bitmap s)) \<noteq> Panic"
    if "verify_committee s c = Ok ()" "bind_nodes_to_committee c nodes = Ok ()"
    using that bind_nodes_ready [OF that(2) assms] by (intro node_weights_no_panic) (auto simp: verify_committee_Ok)
  then show ?thesis
    by (auto simp: reduced_weight_def and_then_eq_Panic verify_committee_no_panic bind_nodes_no_panic)
qed


section \<open>Properties\<close>

text \<open>
  C5: two certificates that pass verification at the certificate threshold share signers of
  more than a third of the committee's weight: whatever members of at most a third of the
  weight misbehave, some other member signed both.
\<close>
theorem certificates_share_honest_signer:
  assumes "verify_signature_and_weight cr1 c hid1 sm1 (certificate_threshold (c_total_weight c)) = Ok ()"
    "verify_signature_and_weight cr2 c hid2 sm2 (certificate_threshold (c_total_weight c)) = Ok ()"
    "committee_wf c" "total_fits c" "0 < exact_weight c {..<committee_size c}"
    "3 * exact_weight c faulty \<le> exact_weight c {..<committee_size c}" "faulty \<subseteq> {..<committee_size c}"
  shows "\<exists>i. i \<in> signer_indices (sm_signature sm1) \<and> i \<in> signer_indices (sm_signature sm2) \<and> i \<notin> faulty"
proof -
  let ?n = "exact_weight c {..<committee_size c}" and ?t = "certificate_threshold (c_total_weight c)"
  let ?A = "signer_indices (sm_signature sm1)" and ?B = "signer_indices (sm_signature sm2)"
  have n: "unat (c_total_weight c) = ?n" by (rule exact_total [OF assms(3,4)])
  have fits: "?n < 2 ^ 64" using assms(4) by (simp add: total_fits_def)
  have thr: "?n * 6667 \<le> 10000 * unat ?t"
    using unat_certificate_threshold [of "c_total_weight c"] n assms(4) by (simp add: total_fits_def)
  obtain w1 where w1: "sig_weight (sm_signature sm1) c = Ok w1" "?t \<le> w1"
    using verified_weight [OF assms(1)] by metis
  obtain w2 where w2: "sig_weight (sm_signature sm2) c = Ok w2" "?t \<le> w2"
    using verified_weight [OF assms(2)] by metis
  have A: "unat ?t \<le> exact_weight c ?A" "?A \<subseteq> {..<committee_size c}"
    using unat_sig_weight [OF w1(1) fits] w1(2) by (auto simp: word_le_nat_alt)
  have B: "unat ?t \<le> exact_weight c ?B" "?B \<subseteq> {..<committee_size c}"
    using unat_sig_weight [OF w2(1) fits] w2(2) by (auto simp: word_le_nat_alt)
  have "exact_weight c (?A \<union> ?B) \<le> ?n" using A(2) B(2) by (intro exact_weight_mono) auto
  then have "2 * unat ?t \<le> ?n + exact_weight c (?A \<inter> ?B)"
    using exact_weight_Un_Int [of ?A ?B c] A(1) B(1) by simp
  then have "exact_weight c faulty < exact_weight c (?A \<inter> ?B)" using thr assms(5,6) by linarith
  then have "\<not> ?A \<inter> ?B \<subseteq> faulty"
    using exact_weight_mono [of faulty "?A \<inter> ?B" c] assms(7) finite_subset by fastforce
  then show ?thesis by blast
qed

text \<open>
  C9: what verification of a certificate establishes: it is for the committee's epoch, its
  signers are distinct members, their weight reaches the required one, and the aggregate
  signature verifies under exactly their keys over the bytes that bind the deployment, the
  epoch and the message.
\<close>
theorem verified_certificate_sound:
  assumes "verify_signature_and_weight cr c hid sm t = Ok ()"
    "exact_weight c {..<committee_size c} < 2 ^ 64"
  shows "cs_epoch (sm_signature sm) = c_epoch c \<and>
    distinct (bitmap_iter (cs_signers_bitmap (sm_signature sm))) \<and>
    signer_indices (sm_signature sm) \<subseteq> {..<committee_size c} \<and>
    unat t \<le> exact_weight c (signer_indices (sm_signature sm)) \<and>
    (\<exists>message_bytes. bcs_to_bytes cr (msg_intent cr, hid, c_epoch c, sm_message sm) = Some message_bytes \<and>
       agg_verify cr (cs_signature (sm_signature sm))
         (map (\<lambda>i. m_public_key (c_members c ! i)) (bitmap_iter (cs_signers_bitmap (sm_signature sm))))
         message_bytes)"
proof -
  obtain w where w: "sig_weight (sm_signature sm) c = Ok w" "t \<le> w"
    "verify_signature_any_weight cr c hid sm = Ok ()"
    using verified_weight [OF assms(1)] by metis
  have "verify_committee (sm_signature sm) c = Ok ()" using w(1) by (simp add: sig_weight_Ok)
  then show ?thesis
    using unat_sig_weight [OF w(1) assms(2)] w(2,3) bitmap_set.iter_distinct
    by (auto simp: verify_signature_any_weight_def members_at_Ok verify_committee_Ok Let_def comp_def
        signing_message_def word_le_nat_alt split: if_splits)
qed

text \<open>
  C37: verification never panics, whatever epoch, signature and bitmap bytes a peer sends, and
  neither does listing or weighing the signers, by stake or by reduced weight. The messages must
  serialise under the committee's epoch, and a node set must give a weight to every node it has
  a key for, as \<^verbatim>\<open>Nodes\<close> does: both look the node up by its id.
\<close>
theorem verification_no_panic:
  assumes "\<And>m. bcs_to_bytes cr (msg_intent cr, hid, c_epoch c, m) \<noteq> None" "nodes_ok nodes"
  shows "try_from_parts cr hid epoch message sig bits c t \<noteq> Panic \<and> signers s c \<noteq> Panic \<and>
   sig_weight s c \<noteq> Panic \<and> is_signer s a c \<noteq> Panic \<and> verify_signature_any_weight cr c hid sm \<noteq> Panic \<and>
   verify_signature_and_weight cr c hid sm t \<noteq> Panic \<and> reduced_weight s c nodes \<noteq> Panic \<and>
   verify_signature_and_reduced_weight cr c hid sm nodes r \<noteq> Panic"
proof -
  have v: "verify_signature_any_weight cr c hid sm \<noteq> Panic" for sm
    using any_weight_panics [of cr c hid sm] assms(1) by auto
  have vw: "verify_signature_and_weight cr c hid sm t \<noteq> Panic" for sm
    using sig_weight_no_panic v by (auto simp: verify_signature_and_weight_def and_then_eq_Panic)
  have "signers s c \<noteq> Panic" "is_signer s a c \<noteq> Panic"
    using members_at_verified
    by (auto simp: signers_def is_signer_def and_then_eq_Panic verify_committee_no_panic)
  moreover have "try_from_parts cr hid epoch message sig bits c t \<noteq> Panic"
    using vw by (cases "agg_from_bytes cr sig") (auto simp: try_from_parts_def Let_def and_then_eq_Panic)
  moreover have "verify_signature_and_reduced_weight cr c hid sm nodes r \<noteq> Panic"
    using v reduced_weight_no_panic [OF assms(2)]
    by (auto simp: verify_signature_and_reduced_weight_def and_then_eq_Panic)
  ultimately show ?thesis
    using v vw sig_weight_no_panic reduced_weight_no_panic [OF assms(2)] by blast
qed


text \<open>
  The same for reduced weights: when the committee's reduced weights sum to less than
  \<open>2 ^ 16\<close>, what the aggregator accumulates in 16 bits does not exceed what verification sums in
  32, so the certificate is accepted for every weight the aggregator reports as reached.
\<close>
theorem reduced_weight_reached_verifies:
  assumes "committee_wf c" "nodes_ok nodes"
    "aggregator_new_reduced hid c message nodes = Ok ag0"
    "ag = add_signatures cr rw_add_signer ag0 ss" "finish cr ag = Ok sm"
    "(\<Sum>i<committee_size c. unat (rw_weight_at \<lparr>rw_nodes = nodes, rw_signed = 0\<rparr> c i)) < 2 ^ 16"
    "reduced_weight_reached ag t"
  shows "\<exists>w \<ge> t. verify_signature_and_reduced_weight cr c hid sm nodes t = Ok w"
proof -
  let ?w = "rw_weight_at \<lparr>rw_nodes = nodes, rw_signed = 0\<rparr> c"
  note new = reduced_new [OF assms(3,2,1)]
  obtain acc where inv: "reduced.agg_inv acc ag" and same: "reduced.same_context ag0 ag"
    using reduced.add_signatures_inv [OF new(1), of cr ss] assms(4) by auto
  have ctx: "ag_committee ag = c" "ag_hashi_id ag = hid"
    "rw_weight_at (ag_domain ag) c = rw_weight_at (ag_domain ag0) c"
    using same new(2,3) by (simp_all add: reduced.same_context_def)
  have w0: "rw_weight_at (ag_domain ag0) c = ?w"
    using new(4) by (simp add: rw_weight_at_def fun_eq_iff)
  note f = finish_Ok [OF assms(5), unfolded ctx]
  let ?is = "bitmap_iter (ag_bitmap ag)"
  have vc: "verify_committee (sm_signature sm) c = Ok ()"
    using f(1) by (simp add: verify_signature_any_weight_def)
  then have range: "set ?is \<subseteq> {..<committee_size c}" using f(2) by (auto simp: verify_committee_Ok)
  have acc: "distinct acc" "set acc \<subseteq> set ?is"
    using inv bitmap_set.iter_set by (auto simp: reduced.agg_inv_def)
  have sums: "(\<Sum>i\<in>set acc. unat (?w i)) \<le> (\<Sum>i\<in>set ?is. unat (?w i))"
    "(\<Sum>i\<in>set ?is. unat (?w i)) < 2 ^ 16"
    using assms(6) sum_mono2 [of "{..<committee_size c}" "set ?is" "\<lambda>i. unat (?w i)"] range
    by (auto intro!: sum_mono2 acc(2))
  have lists: "sum_list (map (\<lambda>i. unat (?w i)) acc) = (\<Sum>i\<in>set acc. unat (?w i))"
    "sum_list (map (\<lambda>i. unat (?w i)) ?is) = (\<Sum>i\<in>set ?is. unat (?w i))"
    using acc(1) by (simp_all add: sum_list_distinct_conv_sum_set bitmap_set.iter_distinct)
  have s16: "unat (rw_signed (ag_domain ag)) = (\<Sum>i\<in>set acc. unat (?w i))"
    using unat_sum_list [of "map ?w acc"] sums lists(1) inv by (simp add: reduced.agg_inv_def ctx w0 comp_def)
  let ?v = "sum_list (map (\<lambda>i. ucast (?w i) :: u32) ?is)"
  have s32: "unat ?v = (\<Sum>i\<in>set ?is. unat (?w i))"
    using unat_sum_list [of "map (\<lambda>i. ucast (?w i) :: u32) ?is"] sums(2) lists(2)
    by (simp add: comp_def unat_ucast_u16_u32)
  have "ucast (rw_signed (ag_domain ag)) \<le> ?v"
    using s16 s32 sums(1) by (simp add: word_le_nat_alt unat_ucast_u16_u32)
  then have t: "t \<le> ?v" using assms(7) by (auto simp: reduced_weight_reached_def)
  have "node_weights nodes ?is = (Ok (map (\<lambda>i. ucast (?w i)) ?is) :: (SignatureError, _) outcome)"
    using range bind_nodes_ready [OF new(5) assms(2)] by (intro node_weights_Ok) auto
  then have "reduced_weight (sm_signature sm) c nodes = Ok ?v"
    using vc new(5) f(2) by (simp add: reduced_weight_def)
  then show ?thesis
    using f(1) t by (auto simp: verify_signature_and_reduced_weight_def not_less)
qed

section \<open>Witnesses\<close>

text \<open>Four members of equal stake and one-byte keys; an aggregate is the sum of its signatures.\<close>

definition wit_crypto :: "unit crypto" where
  "wit_crypto =
     \<lparr>bls_verify = (\<lambda>pk msg s. s = pk), agg_from = (\<lambda>s. s), agg_add = (\<lambda>g s. Some [hd g + hd s]),
      agg_verify = (\<lambda>g pks msg. g = [sum_list (map hd pks)]), agg_from_bytes = Some,
      msg_intent = 0, bcs_to_bytes = (\<lambda>_. Some [])\<rparr>"

definition wit_member :: "u8 \<Rightarrow> u8 \<Rightarrow> CommitteeMember" where
  "wit_member a k = \<lparr>m_address = [a], m_public_key = [k], m_encryption_public_key = [k], m_weight = 2500\<rparr>"

definition wit_committee :: "unit Committee" where
  "wit_committee = with_config [wit_member 0 1, wit_member 1 2, wit_member 2 4, wit_member 3 8] 5 ()"

definition wit_certificate :: "u8 \<Rightarrow> u8 \<Rightarrow> unit SignedMessage" where
  "wit_certificate bits agg =
     \<lparr>sm_signature = \<lparr>cs_epoch = 5, cs_signature = [agg], cs_signers_bitmap = \<lparr>bitmap = [bits]\<rparr>\<rparr>, sm_message = ()\<rparr>"

definition wit_sig :: "u8 \<Rightarrow> u8 \<Rightarrow> MemberSignature" where
  "wit_sig a k = \<lparr>ms_epoch = 5, ms_address = [a], ms_signature = [k]\<rparr>"

definition wit_nodes :: Nodes where
  "wit_nodes =
     \<lparr>num_nodes = 4,
      node_pk = (\<lambda>i. if i = 0 then Some [1] else if i = 1 then Some [2] else if i = 2 then Some [4]
                     else if i = 3 then Some [8] else None),
      node_weight = (\<lambda>i. if i < 4 then Some 25 else None)\<rparr>"

lemma wit_nodes_ok: "nodes_ok wit_nodes"
  by (auto simp: nodes_ok_def wit_nodes_def split: if_splits)

lemma wit_committee_wf: "committee_wf wit_committee"
  unfolding wit_committee_def by (rule with_config_wf)

lemma wit_exact: "exact_weight wit_committee {..<committee_size wit_committee} = 10000"
  by (simp add: exact_weight_members wit_committee_def with_config_def wit_member_def)

lemma wit_total_fits: "total_fits wit_committee"
  by (simp add: total_fits_def wit_exact)

lemma wit_threshold: "certificate_threshold (c_total_weight wit_committee) = 6667"
  by (simp add: wit_committee_def with_config_def wit_member_def certificate_threshold_def div_ceil_def
      CERTIFICATE_THRESHOLD_BPS_def MAX_BPS_def)


lemma wit_verified:
  "verify_signature_and_weight wit_crypto wit_committee [] (wit_certificate 224 7) 6667 = Ok ()"
  "verify_signature_and_weight wit_crypto wit_committee [] (wit_certificate 112 14) 6667 = Ok ()"
  by code_simp+

theorem certificates_share_honest_signer_witness:
  "\<exists>i. i \<in> signer_indices (sm_signature (wit_certificate 224 7)) \<and>
     i \<in> signer_indices (sm_signature (wit_certificate 112 14)) \<and> i \<notin> {1}"
  by (rule certificates_share_honest_signer
      [OF wit_verified(1) [folded wit_threshold] wit_verified(2) [folded wit_threshold] wit_committee_wf
        wit_total_fits])
    (simp_all add: wit_exact, simp_all add: exact_weight_def wit_committee_def with_config_def wit_member_def
      committee_size_def)

theorem verified_certificate_sound_witness:
  "6667 \<le> exact_weight wit_committee (signer_indices (sm_signature (wit_certificate 224 7)))"
  using verified_certificate_sound [OF wit_verified(1)] by (simp add: wit_exact)






theorem verification_no_panic_witness:
  "verify_signature_and_reduced_weight wit_crypto wit_committee [] (wit_certificate 255 0) wit_nodes 70 \<noteq> Panic"
proof -
  have "bcs_to_bytes wit_crypto (msg_intent wit_crypto, [], c_epoch wit_committee, m) \<noteq> None" for m
    by (simp add: wit_crypto_def)
  from verification_no_panic [OF this wit_nodes_ok] show ?thesis by simp
qed

definition wit_reduced0 :: "(unit, unit, ReducedWeight) BlsSignatureAggregator" where
  "wit_reduced0 =
     \<lparr>ag_committee = wit_committee, ag_hashi_id = [], ag_aggregate_signature = None, ag_bitmap = bitmap_new,
      ag_message = (), ag_domain = \<lparr>rw_nodes = wit_nodes, rw_signed = 0\<rparr>\<rparr>"

abbreviation wit_reduced :: "(unit, unit, ReducedWeight) BlsSignatureAggregator" where
  "wit_reduced \<equiv> add_signatures wit_crypto rw_add_signer wit_reduced0 [wit_sig 2 4, wit_sig 0 1, wit_sig 1 2]"

lemma wit_bind: "bind_nodes_to_committee wit_committee wit_nodes = Ok ()"
  by code_simp

lemma wit_reduced_new: "aggregator_new_reduced [] wit_committee () wit_nodes = Ok wit_reduced0"
  by (simp add: aggregator_new_reduced_def reduced_weight_new_def wit_bind wit_reduced0_def)

lemma wit_reduced_finish: "finish wit_crypto wit_reduced = Ok (wit_certificate 224 7)"
  by code_simp

lemma wit_reduced_signed: "rw_signed (ag_domain wit_reduced) = 75"
  by code_simp

lemma reduced_weight_reached_example:
  "\<exists>w \<ge> 70. verify_signature_and_reduced_weight wit_crypto wit_committee [] (wit_certificate 224 7) wit_nodes 70 = Ok w"
proof -
  have size: "committee_size wit_committee = 4"
    by (simp add: committee_size_def wit_committee_def with_config_def)
  have "(\<Sum>i<committee_size wit_committee.
      unat (rw_weight_at \<lparr>rw_nodes = wit_nodes, rw_signed = 0\<rparr> wit_committee i)) < 2 ^ 16"
    unfolding size by (simp add: rw_weight_at_def wit_nodes_def lessThan_nat_numeral lessThan_Suc)
  from reduced_weight_reached_verifies [OF wit_committee_wf wit_nodes_ok wit_reduced_new refl wit_reduced_finish this,
      of 70]
  show ?thesis by (simp add: reduced_weight_reached_def wit_reduced_signed del: add_signatures.simps)
qed

end
