(* ===== verification/Byte_Cursor.thy ===== *)
theory Byte_Cursor
  imports Hashi_Prelude
begin

text \<open>
  The byte cursor of \<^verbatim>\<open>crates/hashi/src/mpc/count_check.rs\<close>, with which the node walks
  BCS encoded messages of its peers before it deserialises them, and the ULEB128 numbers
  BCS uses for lengths and enum variants.

  A method that takes \<^verbatim>\<open>&mut Cursor\<close> and returns a \<^verbatim>\<open>Result\<close> is a \<open>walker\<close>: a function
  from the cursor to the value read and the advanced cursor, or an error. Every caller
  in the file propagates errors with \<^verbatim>\<open>?\<close> and drops the cursor, so no walker carries a
  cursor next to an error. The locale \<open>reader\<close> is the contract of a walker: it succeeds
  exactly when the remaining bytes start with a word of its grammar, consumes that word
  and nothing else, and never panics. The combinators of walkers preserve the contract,
  and \<open>cursor_length\<close> satisfies it for the canonical ULEB128 encodings.
\<close>

unbundle bit_operations_syntax

section \<open>Errors, sizes and the cursor\<close>

datatype CountCheckError =
    WrongCount string usize usize
  | TooMany string usize usize
  | WrongBytes string usize usize
  | TooManyBytes string usize usize
  | Truncated string
  | BadLength string
  | KeyOrder string
  | UnownedKey string u16
  | KeyRange string u32
  | DuplicateKey string u16
  | BadEntry string string
  | UnknownParty string u16
  | BadVariant string usize
  | Trailing usize

text \<open>The sizes and limits that come from \<^verbatim>\<open>fastcrypto\<close>, \<^verbatim>\<open>fastcrypto_tbls\<close>,
  \<^verbatim>\<open>sui_sdk_types\<close> and \<^verbatim>\<open>bcs\<close>.\<close>

record wire_sizes =
  POINT_SIZE_IN_BYTES :: usize
  SCALAR_SIZE_IN_BYTES :: usize
  RISTRETTO_POINT_BYTE_LENGTH :: usize
  RISTRETTO_SCALAR_BYTE_LENGTH :: usize
  SHARE_INDEX_SIZE :: usize
  BLAKE2B_OUTPUT_SIZE :: usize
  DIGEST_LEN :: usize
  ADDRESS_LENGTH :: usize
  PARTY_ID_SIZE :: usize
  BLS_G2_LENGTH :: usize
  MAX_SEQUENCE_LENGTH :: usize

record Cursor =
  bytes :: "u8 list"
  position :: usize

type_synonym 'a walker = "Cursor \<Rightarrow> (CountCheckError, 'a \<times> Cursor) outcome"

definition Cursor_new :: "u8 list \<Rightarrow> Cursor" where
  "Cursor_new bs = \<lparr>bytes = bs, position = 0\<rparr>"

text \<open>Sequencing with \<^verbatim>\<open>?\<close>, a value or an error that does not touch the cursor, and the
  loops \<^verbatim>\<open>for _ in 0..n\<close>.\<close>

definition walk_bind :: "'a walker \<Rightarrow> ('a \<Rightarrow> 'b walker) \<Rightarrow> 'b walker" where
  "walk_bind w f = (\<lambda>c. and_then (w c) (\<lambda>(v, c'). f v c'))"

definition walk_then :: "'a walker \<Rightarrow> 'b walker \<Rightarrow> 'b walker" where
  "walk_then w w' = walk_bind w (\<lambda>_. w')"

definition walk_lift :: "(CountCheckError, 'a) outcome \<Rightarrow> 'a walker" where
  "walk_lift r = (\<lambda>c. and_then r (\<lambda>v. Ok (v, c)))"

primrec walk_times :: "nat \<Rightarrow> unit walker \<Rightarrow> unit walker" where
  "walk_times 0 w = walk_lift (Ok ())"
| "walk_times (Suc n) w = walk_then w (walk_times n w)"

section \<open>The operations of the cursor\<close>

definition cursor_take :: "string \<Rightarrow> usize \<Rightarrow> u8 list walker" where
  "cursor_take field len c =
    (let end = position c + len in
     if end < 2 ^ 64 \<and> end \<le> length (bytes c)
     then Ok (take len (drop (position c) (bytes c)), c\<lparr>position := position c + len\<rparr>)
     else Err (Truncated field))"

definition cursor_array :: "usize \<Rightarrow> string \<Rightarrow> u8 list walker" where
  "cursor_array N field =
    walk_bind (cursor_take field N)
      (\<lambda>taken. walk_lift (if length taken = N then Ok taken else Err (Truncated field)))"

definition walk_drop :: "'a walker \<Rightarrow> unit walker" where
  "walk_drop w = walk_then w (walk_lift (Ok ()))"

definition skip_elements :: "string \<Rightarrow> usize \<Rightarrow> usize \<Rightarrow> unit walker" where
  "skip_elements field elems sz =
    walk_bind
      (walk_lift (if elems * sz < 2 ^ 64 then Ok (elems * sz) else Err (Truncated field)))
      (\<lambda>len. walk_drop (cursor_take field len))"

fun cursor_length_loop :: "wire_sizes \<Rightarrow> string \<Rightarrow> nat list \<Rightarrow> u64 \<Rightarrow> usize walker" where
  "cursor_length_loop sz field [] acc = walk_lift (Err (BadLength field))"
| "cursor_length_loop sz field (shift # shifts) acc =
    walk_bind (cursor_array 1 field) (\<lambda>arr.
      let byte = hd arr;
          digit = byte AND 0x7f;
          acc' = acc OR push_bit shift (ucast digit)
      in if digit = byte
         then walk_lift
           (if 0 < shift \<and> digit = 0 then Err (BadLength field)
            else if unat acc' \<le> MAX_SEQUENCE_LENGTH sz then Ok (unat acc')
            else Err (BadLength field))
         else cursor_length_loop sz field shifts acc')"

definition cursor_length :: "wire_sizes \<Rightarrow> string \<Rightarrow> usize walker" where
  "cursor_length sz field = cursor_length_loop sz field [0, 7, 14, 21, 28] 0"

definition variant :: "wire_sizes \<Rightarrow> string \<Rightarrow> usize walker" where
  "variant sz field = cursor_length sz field"

definition expect_variant :: "wire_sizes \<Rightarrow> string \<Rightarrow> usize \<Rightarrow> unit walker" where
  "expect_variant sz field expected =
    walk_bind (variant sz field)
      (\<lambda>v. walk_lift (if v = expected then Ok () else Err (BadVariant field v)))"

definition cursor_finish :: "Cursor \<Rightarrow> (CountCheckError, unit) outcome" where
  "cursor_finish c =
    (let trailing = length (bytes c) - position c in
     if trailing = 0 then Ok () else Err (Trailing trailing))"

text \<open>The public checks build a cursor, run one walker and call \<^verbatim>\<open>finish\<close>.\<close>

definition walk_whole :: "'a walker \<Rightarrow> u8 list \<Rightarrow> (CountCheckError, 'a) outcome" where
  "walk_whole w bs =
    and_then (w (Cursor_new bs)) (\<lambda>(v, c). and_then (cursor_finish c) (\<lambda>_. Ok v))"

section \<open>The contract of a walker\<close>

text \<open>A Rust slice holds fewer than \<open>2 ^ 63\<close> bytes, and a cursor never leaves its slice.\<close>

definition cursor_ok :: "Cursor \<Rightarrow> bool" where
  "cursor_ok c \<longleftrightarrow> position c \<le> length (bytes c) \<and> length (bytes c) < 2 ^ 63"

definition remaining :: "Cursor \<Rightarrow> u8 list" where
  "remaining c = drop (position c) (bytes c)"

definition consumes :: "Cursor \<Rightarrow> u8 list \<Rightarrow> Cursor \<Rightarrow> bool" where
  "consumes c t c' \<longleftrightarrow>
    bytes c' = bytes c \<and> position c' = position c + length t \<and> remaining c = t @ remaining c'"

lemma consumes_ok: "cursor_ok c \<Longrightarrow> consumes c t c' \<Longrightarrow> cursor_ok c'"
  by (auto simp: cursor_ok_def consumes_def remaining_def dest!: arg_cong [of _ _ length])

lemma consumes_position: "consumes c t c' \<Longrightarrow> position c' = position c + length t"
  by (simp add: consumes_def)

lemma consumes_Nil [simp]: "consumes c [] c' \<longleftrightarrow> c' = c"
  by (auto simp: consumes_def remaining_def)

lemma consumes_append:
  "consumes c (s @ t) c'' \<longleftrightarrow> (\<exists>c'. consumes c s c' \<and> consumes c' t c'')"
proof
  assume a: "consumes c (s @ t) c''"
  let ?c' = "c\<lparr>position := position c + length s\<rparr>"
  from a have r: "drop (position c) (bytes c) = s @ t @ remaining c''"
    by (simp add: consumes_def remaining_def)
  have "drop (length s) (drop (position c) (bytes c)) = t @ remaining c''" unfolding r by simp
  then have "consumes c s ?c' \<and> consumes ?c' t c''"
    using a by (simp add: consumes_def remaining_def add.commute add.left_commute)
  then show "\<exists>c'. consumes c s c' \<and> consumes c' t c''" by blast
qed (auto simp: consumes_def)

lemma consumes_take:
  assumes "cursor_ok c"
  shows "consumes c t c' \<longleftrightarrow>
    position c + length t \<le> length (bytes c) \<and> t = take (length t) (drop (position c) (bytes c))
    \<and> c' = c\<lparr>position := position c + length t\<rparr>"
proof
  assume a: "consumes c t c'"
  then have "cursor_ok c'" using assms consumes_ok by blast
  then show "position c + length t \<le> length (bytes c) \<and> t = take (length t) (drop (position c) (bytes c))
    \<and> c' = c\<lparr>position := position c + length t\<rparr>"
    using a by (auto simp: consumes_def cursor_ok_def remaining_def)
next
  assume a: "position c + length t \<le> length (bytes c) \<and> t = take (length t) (drop (position c) (bytes c))
    \<and> c' = c\<lparr>position := position c + length t\<rparr>"
  have "drop (position c) (bytes c) =
      take (length t) (drop (position c) (bytes c)) @ drop (length t) (drop (position c) (bytes c))"
    by (rule append_take_drop_id [symmetric])
  also have "\<dots> = t @ drop (length t) (drop (position c) (bytes c))" using a by metis
  finally show "consumes c t c'" using a by (simp add: consumes_def remaining_def add.commute)
qed

lemma consumes_all:
  "consumes (Cursor_new bs) t c \<and> length (bytes c) \<le> position c \<longleftrightarrow>
    t = bs \<and> c = \<lparr>bytes = bs, position = length bs\<rparr>"
  by (auto simp: consumes_def remaining_def Cursor_new_def)

locale reader =
  fixes w :: "'a walker" and R :: "usize \<Rightarrow> 'a \<Rightarrow> u8 list \<Rightarrow> bool"
  assumes reads:
      "cursor_ok c \<Longrightarrow>
        w c = Ok (v, c') \<longleftrightarrow> (\<exists>t. R (position c) v t \<and> consumes c t c')"
    and no_panic: "cursor_ok c \<Longrightarrow> w c \<noteq> Panic"
begin

lemma whole_iff:
  assumes "length bs < 2 ^ 63"
  shows "walk_whole w bs = Ok v \<longleftrightarrow> R 0 v bs"
proof -
  have ok: "cursor_ok (Cursor_new bs)" using assms by (simp add: cursor_ok_def Cursor_new_def)
  have "walk_whole w bs = Ok v \<longleftrightarrow>
      (\<exists>c. w (Cursor_new bs) = Ok (v, c) \<and> length (bytes c) \<le> position c)"
    by (auto simp: walk_whole_def cursor_finish_def)
  also have "\<dots> \<longleftrightarrow> (\<exists>c t. R 0 v t \<and> consumes (Cursor_new bs) t c \<and> length (bytes c) \<le> position c)"
    using reads [OF ok] by (auto simp: Cursor_new_def)
  also have "\<dots> \<longleftrightarrow> R 0 v bs" by (simp add: consumes_all)
  finally show ?thesis .
qed

lemma whole_no_panic: "length bs < 2 ^ 63 \<Longrightarrow> walk_whole w bs \<noteq> Panic"
  using no_panic [of "Cursor_new bs"]
  by (auto simp: walk_whole_def cursor_finish_def and_then_eq_Panic cursor_ok_def Cursor_new_def Let_def
      split: if_splits)

lemma value_unique:
  assumes "length (t @ s) < 2 ^ 63" "R 0 v t" "R 0 v' t'" "t @ s = t' @ s'"
  shows "t = t'" "v = v'"
proof -
  let ?c = "Cursor_new (t @ s)"
  have ok: "cursor_ok ?c" using assms by (simp add: cursor_ok_def Cursor_new_def)
  have c: "consumes ?c t (?c\<lparr>position := length t\<rparr>)"
    by (simp add: consumes_def remaining_def Cursor_new_def)
  have c': "consumes ?c t' (?c\<lparr>position := length t'\<rparr>)"
    unfolding assms(4) by (simp add: consumes_def remaining_def Cursor_new_def)
  have "w ?c = Ok (v, ?c\<lparr>position := length t\<rparr>)"
    using reads [OF ok] assms c by (auto simp: Cursor_new_def)
  moreover have "w ?c = Ok (v', ?c\<lparr>position := length t'\<rparr>)"
    using reads [OF ok] assms c' by (auto simp: Cursor_new_def)
  ultimately have "v = v'" "length t = length t'" by (auto simp: Cursor_new_def)
  then show "t = t'" "v = v'" using assms(4) by auto
qed

end

text \<open>A walker of unit values whose grammar does not depend on the position.\<close>

abbreviation recognises :: "unit walker \<Rightarrow> (u8 list \<Rightarrow> bool) \<Rightarrow> bool" where
  "recognises w F \<equiv> reader w (\<lambda>p v t. F t)"

named_theorems reader_intro \<open>walkers that satisfy the contract\<close>

lemma reader_cong_bounded:
  assumes r: "reader w R" and eq: "\<And>p v t. length t < 2 ^ 63 \<Longrightarrow> R p v t \<longleftrightarrow> R' p v t"
  shows "reader w R'"
proof
  fix c v c' assume ok: "cursor_ok c"
  have "length t < 2 ^ 63" if "consumes c t c'" for t
    using that ok by (auto simp: consumes_take cursor_ok_def)
  then show "w c = Ok (v, c') \<longleftrightarrow> (\<exists>t. R' (position c) v t \<and> consumes c t c')"
    using reader.reads [OF r ok] eq by metis
qed (rule reader.no_panic [OF r])

lemma reader_cong: "reader w R \<Longrightarrow> (\<And>p v t. R p v t \<longleftrightarrow> R' p v t) \<Longrightarrow> reader w R'"
  by (rule reader_cong_bounded)

lemma reader_bind:
  assumes "reader w R" "\<And>x. reader (f x) (S x)"
  shows "reader (walk_bind w f)
    (\<lambda>p v t. \<exists>x s u. t = s @ u \<and> R p x s \<and> S x (p + length s) v u)"
proof
  fix c v c'
  assume ok: "cursor_ok c"
  have "walk_bind w f c = Ok (v, c') \<longleftrightarrow> (\<exists>x c1. w c = Ok (x, c1) \<and> f x c1 = Ok (v, c'))"
    by (auto simp: walk_bind_def)
  also have "\<dots> \<longleftrightarrow> (\<exists>x c1 s. R (position c) x s \<and> consumes c s c1 \<and> f x c1 = Ok (v, c'))"
    using reader.reads [OF assms(1) ok] by auto
  also have "\<dots> \<longleftrightarrow> (\<exists>x c1 s u. R (position c) x s \<and> consumes c s c1
      \<and> S x (position c1) v u \<and> consumes c1 u c')"
    using reader.reads [OF assms(2)] consumes_ok [OF ok] by metis
  also have "\<dots> \<longleftrightarrow> (\<exists>t. (\<exists>x s u. t = s @ u \<and> R (position c) x s
      \<and> S x (position c + length s) v u) \<and> consumes c t c')"
    (is "?L \<longleftrightarrow> ?R")
  proof
    assume ?L
    then obtain x c1 s u where "R (position c) x s" "consumes c s c1" "S x (position c1) v u"
      "consumes c1 u c'" by blast
    moreover from this have "consumes c (s @ u) c'" "position c1 = position c + length s"
      by (auto simp: consumes_append consumes_position)
    ultimately show ?R by metis
  next
    assume ?R
    then obtain x s u where "R (position c) x s" "S x (position c + length s) v u"
      "consumes c (s @ u) c'" by blast
    moreover from this obtain c1 where "consumes c s c1" "consumes c1 u c'"
      by (auto simp: consumes_append)
    ultimately show ?L using consumes_position by metis
  qed
  finally show "walk_bind w f c = Ok (v, c') \<longleftrightarrow> (\<exists>t. (\<exists>x s u. t = s @ u \<and> R (position c) x s
      \<and> S x (position c + length s) v u) \<and> consumes c t c')" .
next
  fix c assume ok: "cursor_ok c"
  show "walk_bind w f c \<noteq> Panic"
  proof
    assume "walk_bind w f c = Panic"
    then obtain x c1 where x: "w c = Ok (x, c1)" "f x c1 = Panic"
      using reader.no_panic [OF assms(1) ok] by (auto simp: walk_bind_def and_then_eq_Panic)
    then have "cursor_ok c1" using reader.reads [OF assms(1) ok] consumes_ok ok by blast
    then show False using reader.no_panic [OF assms(2)] x by blast
  qed
qed

lemma reader_lift: "r \<noteq> Panic \<Longrightarrow> reader (walk_lift r) (\<lambda>p v t. t = [] \<and> r = Ok v)"
  by unfold_locales (auto simp: walk_lift_def and_then_eq_Panic)

lemma reader_take: "reader (cursor_take field n) (\<lambda>p v t. v = t \<and> length t = n)"
proof
  fix c v c' assume ok: "cursor_ok c"
  then show "cursor_take field n c = Ok (v, c') \<longleftrightarrow>
      (\<exists>t. (v = t \<and> length t = n) \<and> consumes c t c')"
    by (auto simp: cursor_take_def consumes_take cursor_ok_def Let_def)
qed (simp add: cursor_take_def Let_def)

lemma reader_array: "reader (cursor_array n field) (\<lambda>p v t. v = t \<and> length t = n)"
  unfolding cursor_array_def
  by (rule reader_cong, rule reader_bind [OF reader_take reader_lift]) (auto split: if_splits)

lemma recognises_drop: "reader w R \<Longrightarrow> reader (walk_drop w) (\<lambda>p _ t. \<exists>x. R p x t)"
  unfolding walk_drop_def walk_then_def
  by (rule reader_cong, rule reader_bind [OF _ reader_lift]) auto

lemma reader_then:
  "reader w R \<Longrightarrow> reader w' S \<Longrightarrow>
    reader (walk_then w w') (\<lambda>p v t. \<exists>x s u. t = s @ u \<and> R p x s \<and> S (p + length s) v u)"
  unfolding walk_then_def by (rule reader_bind)

lemma recognises_then:
  "recognises w F \<Longrightarrow> recognises w' G \<Longrightarrow>
    recognises (walk_then w w') (\<lambda>t. \<exists>s u. t = s @ u \<and> F s \<and> G u)"
  by (rule reader_cong, rule reader_then) auto

lemma ex_list_Suc: "(\<exists>ts. length ts = Suc n \<and> P ts) \<longleftrightarrow> (\<exists>y ys. length ys = n \<and> P (y # ys))"
  by (metis length_Cons length_Suc_conv)

lemma recognises_times:
  "recognises w F \<Longrightarrow>
    recognises (walk_times n w) (\<lambda>t. \<exists>ts. length ts = n \<and> list_all F ts \<and> t = concat ts)"
proof (induction n)
  case 0
  show ?case unfolding walk_times.simps by (rule reader_cong, rule reader_lift) auto
next
  case (Suc n)
  show ?case unfolding walk_times.simps
    by (rule reader_cong, rule recognises_then [OF Suc.prems Suc.IH [OF Suc.prems]])
      (simp add: ex_list_Suc, metis)
qed

lemma recognises_skip_elements:
  "recognises (skip_elements field n k) (\<lambda>t. length t = n * k)"
  unfolding skip_elements_def
  by (rule reader_cong_bounded,
      rule reader_bind [OF reader_lift recognises_drop [OF reader_take]])
    (auto split: if_splits)

end
