(* ===== verification/Uleb128.thy ===== *)
theory Uleb128
  imports Byte_Cursor
begin

text \<open>
  ULEB128 numbers: the canonical encoding that BCS prescribes for lengths and enum
  variants, the size computation \<^verbatim>\<open>uleb128_len\<close> of \<^verbatim>\<open>mpc/count_check.rs\<close>, and the proof
  that the loop in \<^verbatim>\<open>Cursor::length\<close> reads exactly the canonical encodings.
\<close>

section \<open>The canonical encoding\<close>

text \<open>The reference encoder: base 128 digits, least significant first, with the high bit
  set on every digit but the last.\<close>

fun uleb128 :: "nat \<Rightarrow> u8 list" where
  "uleb128 n = (if n < 128 then [of_nat n] else of_nat (n mod 128 + 128) # uleb128 (n div 128))"

declare uleb128.simps [simp del]

lemma uleb128_not_Nil [simp]: "uleb128 n \<noteq> []"
  by (subst uleb128.simps) simp

section \<open>The size of an encoding\<close>

text \<open>\<open>usize::BITS - value.leading_zeros()\<close>, the number of significant bits.\<close>

fun bit_len :: "nat \<Rightarrow> nat" where
  "bit_len n = (if n = 0 then 0 else 1 + bit_len (n div 2))"

declare bit_len.simps [simp del]

definition leading_zeros :: "usize \<Rightarrow> nat" where
  "leading_zeros n = 64 - bit_len n"

definition uleb128_len :: "usize \<Rightarrow> usize" where
  "uleb128_len n = max ((64 - leading_zeros n + 6) div 7) 1"

lemma bit_len_less: "n < 2 ^ k \<Longrightarrow> bit_len n \<le> k"
proof (induction k arbitrary: n)
  case 0 then show ?case by (simp add: bit_len.simps)
next
  case (Suc k)
  have "n div 2 < 2 ^ k" using Suc.prems by auto
  then show ?case using Suc.IH [of "n div 2"] by (subst bit_len.simps) simp
qed

lemma bit_len_pos: "0 < n \<Longrightarrow> 0 < bit_len n"
  by (subst bit_len.simps) simp

lemma bit_len_shift: "2 ^ k \<le> n \<Longrightarrow> bit_len n = k + bit_len (n div 2 ^ k)"
proof (induction k arbitrary: n)
  case (Suc k)
  have "2 ^ k \<le> n div 2" using Suc.prems by auto
  then have "bit_len (n div 2) = k + bit_len (n div 2 div 2 ^ k)" by (rule Suc.IH)
  moreover have "n \<noteq> 0" using Suc.prems by (metis not_one_le_zero one_le_numeral one_le_power order_trans)
  ultimately show ?case by (subst bit_len.simps) (simp add: div_mult2_eq)
qed simp

lemma length_uleb128: "length (uleb128 n) = max ((bit_len n + 6) div 7) 1"
proof (induction n rule: uleb128.induct)
  case (1 n)
  show ?case
  proof (cases "n < 128")
    case True
    then have "bit_len n \<le> 7" using bit_len_less [of n 7] by simp
    then show ?thesis using True by (subst uleb128.simps) (simp add: max_def)
  next
    case False
    then have b: "bit_len n = 7 + bit_len (n div 128)" using bit_len_shift [of 7 n] by simp
    have "0 < bit_len (n div 128)" using False by (intro bit_len_pos) (simp add: div_greater_zero_iff)
    then have "1 \<le> (bit_len (n div 128) + 6) div 7" by linarith
    moreover have "(13 + x) div 7 = Suc ((x + 6) div 7)" for x :: nat by presburger
    ultimately show ?thesis using False 1 b by (subst uleb128.simps) (simp add: max_def)
  qed
qed

lemma uleb128_len_eq: "n < 2 ^ 64 \<Longrightarrow> uleb128_len n = length (uleb128 n)"
  using bit_len_less [of n 64] by (simp add: uleb128_len_def leading_zeros_def length_uleb128)

section \<open>Reading a length\<close>

lemma nat_or_shift: "m < 2 ^ k \<Longrightarrow> m OR push_bit k d = m + 2 ^ k * d" for m d :: nat
proof -
  assume "m < 2 ^ k"
  then have m: "take_bit k m = m" by (simp add: take_bit_nat_eq_self)
  have "\<not> bit m n \<or> \<not> bit (push_bit k d) n" for n
    by (metis m bit_push_bit_iff_nat bit_take_bit_iff not_le)
  then have "m + push_bit k d = m OR push_bit k d" by (rule disjunctive_add)
  then show ?thesis by (simp add: push_bit_eq_mult mult.commute)
qed

lemma unat_digit: "unat (b AND 0x7f) = unat b mod 128" for b :: u8
proof -
  have "b AND 0x7f = take_bit 7 b" by (simp add: take_bit_eq_mask mask_eq_exp_minus_1)
  then have "unat (b AND 0x7f) = take_bit 7 (unat b)" by (simp only: unsigned_take_bit_eq)
  then show ?thesis by (simp add: take_bit_eq_mod)
qed

lemma digit_eq_iff: "b AND 0x7f = b \<longleftrightarrow> unat b < 128" for b :: u8
proof -
  have "b AND 0x7f = b \<longleftrightarrow> unat b mod 128 = unat b" by (simp only: word_unat_eq_iff unat_digit)
  then show ?thesis by (simp add: mod_eq_self_iff_div_eq_0 div_eq_0_iff)
qed

lemma unat_or_digit:
  fixes acc :: u64 and b :: u8
  assumes "unat acc < 2 ^ k" "k \<le> 28"
  shows "unat (acc OR push_bit k (ucast (b AND 0x7f))) = unat acc + 2 ^ k * (unat b mod 128)"
    and "unat acc + 2 ^ k * (unat b mod 128) < 2 ^ (k + 7)"
proof -
  let ?d = "unat b mod 128"
  have d: "unat (b AND 0x7f) = ?d" by (rule unat_digit)
  have lt: "2 ^ k * ?d + 2 ^ k \<le> 2 ^ (k + 7)"
    using mult_le_mono2 [of "?d + 1" 128 "2 ^ k"] by (simp add: power_add algebra_simps)
  have "(2::nat) ^ (k + 7) \<le> 2 ^ 35" using assms(2) by (intro power_increasing) auto
  then have small: "2 ^ k * ?d < 2 ^ 64" using lt assms(1) by simp
  have "unat (ucast (b AND 0x7f) :: u64) = ?d"
    by (simp add: d unsigned_ucast_eq take_bit_nat_eq_self)
  then have "unat (push_bit k (ucast (b AND 0x7f)) :: u64) = push_bit k ?d"
    using small unfolding unsigned_push_bit_eq
    by (simp add: take_bit_nat_eq_self push_bit_eq_mult mult.commute)
  then show "unat (acc OR push_bit k (ucast (b AND 0x7f))) = unat acc + 2 ^ k * ?d"
    using nat_or_shift [OF assms(1)] by (simp add: unsigned_or_eq)
  show "unat acc + 2 ^ k * ?d < 2 ^ (k + 7)" using lt assms(1) by linarith
qed

text \<open>The shape of an encoding by its first byte.\<close>

lemma byte_eq_of_nat: "n < 256 \<Longrightarrow> b = of_nat n \<longleftrightarrow> unat b = n" for b :: u8
  by (auto simp: word_unat_eq_iff unat_of_nat)

lemma byte_split:
  fixes v m :: nat
  assumes "v < 256"
  shows "v = m mod 128 + 128 \<longleftrightarrow> \<not> v < 128 \<and> v mod 128 = m mod 128"
  using assms le_mod_geq [of 128 v] by (cases "v < 128") auto

lemma mod_div_unique: "m = r + 128 * q \<Longrightarrow> r < 128 \<Longrightarrow> r = m mod 128 \<and> q = m div 128" for m r q :: nat
  by simp

lemma uleb128_Cons_iff:
  "b # u = uleb128 m \<longleftrightarrow>
    (if unat b < 128 then u = [] \<and> m = unat b
     else \<exists>q>0. u = uleb128 q \<and> m = unat b mod 128 + 128 * q)" for b :: u8
proof (cases "m < 128")
  case True
  then have "uleb128 m = [of_nat m]" by (simp add: uleb128.simps)
  moreover have "b = of_nat m \<longleftrightarrow> unat b = m" using True by (simp add: byte_eq_of_nat)
  ultimately show ?thesis using True by auto
next
  case False
  have e: "uleb128 m = of_nat (m mod 128 + 128) # uleb128 (m div 128)"
    using False by (subst uleb128.simps) simp
  have "b # u = uleb128 m \<longleftrightarrow> unat b = m mod 128 + 128 \<and> u = uleb128 (m div 128)"
    unfolding e using byte_eq_of_nat [of "m mod 128 + 128" b] by simp
  also have "\<dots> \<longleftrightarrow> \<not> unat b < 128 \<and> unat b mod 128 = m mod 128 \<and> u = uleb128 (m div 128)"
    using byte_split [of "unat b" m] unat_lt_exp [of b] by simp
  also have "\<dots> \<longleftrightarrow> \<not> unat b < 128 \<and> (\<exists>q>0. u = uleb128 q \<and> m = unat b mod 128 + 128 * q)"
    (is "?L \<longleftrightarrow> ?R")
  proof
    assume l: ?L
    have "0 < m div 128" using False by (simp add: div_greater_zero_iff)
    moreover have "m = m mod 128 + 128 * (m div 128)" by simp
    ultimately show ?R using l by metis
  next
    assume ?R
    then obtain q where "\<not> unat b < 128" "u = uleb128 q" "m = unat b mod 128 + 128 * q" by blast
    then show ?L using mod_div_unique [of m "unat b mod 128" q] by simp
  qed
  finally show ?thesis using False by (cases "unat b < 128") auto
qed

text \<open>After \<open>k\<close> digits the loop has accumulated a number below \<open>2 ^ (7 * k)\<close>; what it still
  accepts is the canonical encoding of a number of at most \<open>5 - k\<close> digits, which may be
  zero only if it is the whole number.\<close>

definition length_suffix :: "wire_sizes \<Rightarrow> nat \<Rightarrow> nat \<Rightarrow> nat \<Rightarrow> u8 list \<Rightarrow> bool" where
  "length_suffix sz k acc x t \<longleftrightarrow>
    (\<exists>m. t = uleb128 m \<and> m < 2 ^ (7 * (5 - k)) \<and> (0 < k \<longrightarrow> 0 < m)
      \<and> x = acc + 2 ^ (7 * k) * m \<and> x \<le> MAX_SEQUENCE_LENGTH sz)"

lemma length_suffix_step:
  assumes "k < 5" "length arr = 1"
  shows "length_suffix sz k acc x (arr @ u) \<longleftrightarrow>
    (let b = unat (hd arr); acc' = acc + 2 ^ (7 * k) * (b mod 128) in
     if b < 128 then u = [] \<and> (0 < k \<longrightarrow> 0 < b) \<and> x = acc' \<and> x \<le> MAX_SEQUENCE_LENGTH sz
     else length_suffix sz (Suc k) acc' x u)"
proof -
  obtain a where arr: "arr = [a]" using assms(2) by (auto simp: length_Suc_conv)
  let ?b = "unat a"
  have e: "length_suffix sz k acc x (arr @ u) \<longleftrightarrow>
    (\<exists>m. a # u = uleb128 m \<and> m < 2 ^ (7 * (5 - k)) \<and> (0 < k \<longrightarrow> 0 < m)
      \<and> x = acc + 2 ^ (7 * k) * m \<and> x \<le> MAX_SEQUENCE_LENGTH sz)"
    by (simp add: length_suffix_def arr)
  obtain j where j: "5 - k = Suc j" "5 - Suc k = j" using assms(1) by (metis Suc_diff_Suc)
  show ?thesis
  proof (cases "?b < 128")
    case True
    have "(128::nat) \<le> 2 ^ (7 * Suc j)" using power_increasing [of 7 "7 * Suc j" "2::nat"] by simp
    then have "?b < 2 ^ (7 * (5 - k))" using True unfolding j(1) by linarith
    then show ?thesis unfolding e uleb128_Cons_iff using True by (auto simp: arr Let_def)
  next
    case False
    have q: "?b mod 128 + 128 * q < 2 ^ (7 * (5 - k)) \<longleftrightarrow> q < 2 ^ (7 * (5 - Suc k))" for q
    proof -
      have "?b mod 128 < 128" by simp
      then have "?b mod 128 + 128 * q < 128 * 2 ^ (7 * j) \<longleftrightarrow> q < 2 ^ (7 * j)" by linarith
      then show ?thesis unfolding j by (simp add: power_add)
    qed
    have x: "acc + 2 ^ (7 * k) * (?b mod 128 + 128 * q)
        = acc + 2 ^ (7 * k) * (?b mod 128) + 2 ^ (7 * Suc k) * q" for q
      by (simp add: power_add algebra_simps)
    show ?thesis unfolding e uleb128_Cons_iff using False
      by (auto simp: arr Let_def length_suffix_def q x)
  qed
qed

lemma reader_length_loop:
  assumes "k + n = 5" "unat acc < 2 ^ (7 * k)"
  shows "reader (cursor_length_loop sz field (map ((*) 7) [k..<5]) acc)
    (\<lambda>p x t. length_suffix sz k (unat acc) x t)"
  using assms
proof (induction n arbitrary: k acc)
  case 0
  have "\<not> length_suffix sz k (unat acc) x t" for x t using 0 by (simp add: length_suffix_def)
  then show ?case using 0 reader_lift [of "Err (BadLength field)"] by (simp add: reader_cong)
next
  case (Suc n)
  then have k: "k < 5" "[k..<5] = k # [Suc k..<5]" by (auto simp: upt_conv_Cons)
  let ?acc = "\<lambda>arr :: u8 list. acc OR push_bit (7 * k) (ucast (hd arr AND 0x7f)) :: u64"
  have acc: "unat (?acc arr) = unat acc + 2 ^ (7 * k) * (unat (hd arr) mod 128)"
      "unat (?acc arr) < 2 ^ (7 * Suc k)" for arr
    using unat_or_digit [OF Suc.prems(2), of "hd arr"] k(1) by (auto simp: add.commute)
  have rec: "reader (cursor_length_loop sz field (map ((*) 7) [Suc k..<5]) (?acc arr))
    (\<lambda>p x t. length_suffix sz (Suc k) (unat (?acc arr)) x t)" for arr
    using Suc.prems acc(2) by (intro Suc.IH) auto
  let ?R = "\<lambda>arr p x t. if unat (hd arr) < 128
     then t = [] \<and> (0 < k \<longrightarrow> 0 < unat (hd arr)) \<and> x = unat (?acc arr) \<and> x \<le> MAX_SEQUENCE_LENGTH sz
     else length_suffix sz (Suc k) (unat (?acc arr)) x t"
  have body: "reader (let byte = hd arr; digit = byte AND 0x7f;
          acc' = acc OR push_bit (7 * k) (ucast digit)
      in if digit = byte
         then walk_lift
           (if 0 < 7 * k \<and> digit = 0 then Err (BadLength field)
            else if unat acc' \<le> MAX_SEQUENCE_LENGTH sz then Ok (unat acc')
            else Err (BadLength field))
         else cursor_length_loop sz field (map ((*) 7) [Suc k..<5]) acc') (?R arr)" for arr
  proof (cases "unat (hd arr) < 128")
    case True
    then have "hd arr AND 0x7f = hd arr" by (simp add: digit_eq_iff)
    then show ?thesis using True
      by (auto simp: Let_def unat_gt_0 intro!: reader_cong [OF reader_lift])
  next
    case False
    then show ?thesis using rec [of arr] by (simp add: Let_def digit_eq_iff)
  qed
  have step: "length_suffix sz k (unat acc) x (arr @ u) \<longleftrightarrow> ?R arr p x u"
    if "length arr = 1" for arr p x u
    unfolding length_suffix_step [OF k(1) that] acc(1) by (simp add: Let_def)
  show ?case unfolding k(2) list.map cursor_length_loop.simps
  proof (rule reader_cong, rule reader_bind [OF reader_array body])
    fix p v t
    have "(\<exists>arr u. t = arr @ u \<and> length arr = 1 \<and> ?R arr p v u)
        \<longleftrightarrow> (\<exists>arr u. t = arr @ u \<and> length arr = 1 \<and> length_suffix sz k (unat acc) v t)"
      using step by metis
    also have "\<dots> \<longleftrightarrow> length_suffix sz k (unat acc) v t"
    proof -
      have "t = [hd t] @ tl t" if "length_suffix sz k (unat acc) v t"
        using that by (auto simp: length_suffix_def)
      then show ?thesis by (metis One_nat_def length_Cons list.size(3))
    qed
    finally show "(\<exists>x s u. t = s @ u \<and> (x = s \<and> length s = 1) \<and> ?R x (p + length s) v u)
        \<longleftrightarrow> length_suffix sz k (unat acc) v t" by auto
  qed
qed

text \<open>The grammar of a length: the canonical encoding of a number within the limit of BCS
  and of the five digits the loop reads.\<close>

definition is_length :: "wire_sizes \<Rightarrow> usize \<Rightarrow> u8 list \<Rightarrow> bool" where
  "is_length sz n t \<longleftrightarrow> t = uleb128 n \<and> n \<le> MAX_SEQUENCE_LENGTH sz \<and> n < 2 ^ 35"

interpretation length_reader: reader "cursor_length sz field" "\<lambda>p n t. is_length sz n t"
proof -
  have "map ((*) 7) [0..<5] = [0, 7, 14, 21, 28::nat]" by (simp add: upt_rec)
  then have "reader (cursor_length sz field) (\<lambda>p x t. length_suffix sz 0 0 x t)"
    using reader_length_loop [of 0 5 0 sz field] by (simp add: cursor_length_def)
  then show "reader (cursor_length sz field) (\<lambda>p n t. is_length sz n t)"
    by (rule reader_cong) (auto simp: length_suffix_def is_length_def)
qed

end
