(* ===== verification/Count_Check.thy ===== *)
theory Count_Check
  imports Uleb128
begin

text \<open>
  The structural checks of \<^verbatim>\<open>crates/hashi/src/mpc/count_check.rs\<close>: before a node
  deserialises a message of the key generation, rotation or presigning protocols, it
  walks the bytes and compares every count with the committee it expects. The theory has
  the shapes, the walkers and the public checks in the order of the source.
\<close>

section \<open>Constants\<close>

definition POINT :: "wire_sizes \<Rightarrow> usize" where
  "POINT sz = POINT_SIZE_IN_BYTES sz"

definition SCALAR :: "wire_sizes \<Rightarrow> usize" where
  "SCALAR sz = SCALAR_SIZE_IN_BYTES sz"

definition EG_POINT :: "wire_sizes \<Rightarrow> usize" where
  "EG_POINT sz = RISTRETTO_POINT_BYTE_LENGTH sz"

definition DDH_NIZK :: "wire_sizes \<Rightarrow> usize" where
  "DDH_NIZK sz = 2 * EG_POINT sz + RISTRETTO_SCALAR_BYTE_LENGTH sz"

definition SHARE :: "wire_sizes \<Rightarrow> usize" where
  "SHARE sz = SHARE_INDEX_SIZE sz + SCALAR sz"

definition HASH :: "wire_sizes \<Rightarrow> usize" where
  "HASH sz = BLAKE2B_OUTPUT_SIZE sz"

definition MERKLE_DIGEST :: "wire_sizes \<Rightarrow> usize" where
  "MERKLE_DIGEST sz = DIGEST_LEN sz"

definition ADDRESS :: "wire_sizes \<Rightarrow> usize" where
  "ADDRESS sz = ADDRESS_LENGTH sz"

definition PARTY_ID :: "wire_sizes \<Rightarrow> usize" where
  "PARTY_ID sz = PARTY_ID_SIZE sz"

definition BATCH_INDEX :: usize where
  "BATCH_INDEX = 4"

definition EPOCH :: usize where
  "EPOCH = 8"

definition AGGREGATE_SIGNATURE :: "wire_sizes \<Rightarrow> usize" where
  "AGGREGATE_SIGNATURE sz = BLS_G2_LENGTH sz"

definition SHARED_COMPONENTS :: "wire_sizes \<Rightarrow> usize" where
  "SHARED_COMPONENTS sz = 2 * EG_POINT sz + DDH_NIZK sz"

definition RECOVERY_PACKAGE :: "wire_sizes \<Rightarrow> usize" where
  "RECOVERY_PACKAGE sz = EG_POINT sz + DDH_NIZK sz"

definition MAX_MERKLE_PATH :: usize where
  "MAX_MERKLE_PATH = 64 - 1"

definition MESSAGES_NONCE_GENERATION_AVID :: usize where
  "MESSAGES_NONCE_GENERATION_AVID = 2"

definition AVID_NONCE_MESSAGE_KIND_ECHO :: usize where
  "AVID_NONCE_MESSAGE_KIND_ECHO = 2"

definition PROTOCOL_COMPLAINT_AVSS :: usize where
  "PROTOCOL_COMPLAINT_AVSS = 0"

definition PROTOCOL_COMPLAINT_AVID_REVEAL :: usize where
  "PROTOCOL_COMPLAINT_AVID_REVEAL = 1"

definition PROTOCOL_COMPLAINT_AVID_BLAME :: usize where
  "PROTOCOL_COMPLAINT_AVID_BLAME = 2"

definition RS_LENGTH_PREFIX :: usize where
  "RS_LENGTH_PREFIX = 4"

definition RS_ELEMENT :: usize where
  "RS_ELEMENT = 2"

section \<open>Shapes\<close>

record AvssShape =
  threshold :: u16
  num_nodes :: u16

type_synonym PartyWeights = "u16 list"

definition PartyWeights_num_nodes :: "PartyWeights \<Rightarrow> usize" where
  "PartyWeights_num_nodes ws = length ws"

definition party_weight_of ::
  "PartyWeights \<Rightarrow> string \<Rightarrow> u16 \<Rightarrow> (CountCheckError, usize) outcome" where
  "party_weight_of ws field party =
    ok_or (UnknownParty field party)
      (if unat party < length ws then Some (unat (ws ! unat party)) else None)"

record AvidShape =
  avid_threshold :: u16
  avid_weights :: PartyWeights
  batch_size_per_weight :: u16

record DispersalShape =
  disp_weights :: PartyWeights
  batch_size :: usize
  data_shards :: usize

definition DispersalShape_new ::
  "PartyWeights \<Rightarrow> u16 \<Rightarrow> u16 \<Rightarrow> u16 \<Rightarrow> DispersalShape option" where
  "DispersalShape_new ws dealer per_weight max_faulty =
    (let total_weight = sum_list (map unat ws) mod 2 ^ 64 in
     if total_weight < 2 * unat max_faulty \<or> total_weight - 2 * unat max_faulty = 0 then None
     else
       let dealer_weight = (if unat dealer < length ws then ws ! unat dealer else 0) in
       Some \<lparr>disp_weights = ws, batch_size = unat dealer_weight * unat per_weight,
         data_shards = total_weight - 2 * unat max_faulty\<rparr>)"

record ExactShards =
  shard_bytes :: usize
  row_depth :: usize
  top_depth :: usize

text \<open>\<^verbatim>\<open>usize\<close> arithmetic wraps; \<^verbatim>\<open>div_ceil\<close> panics on a zero divisor.\<close>

definition usize_add :: "usize \<Rightarrow> usize \<Rightarrow> usize" where
  "usize_add a b = (a + b) mod 2 ^ 64"

definition usize_mul :: "usize \<Rightarrow> usize \<Rightarrow> usize" where
  "usize_mul a b = (a * b) mod 2 ^ 64"

definition usize_div_ceil :: "usize \<Rightarrow> usize \<Rightarrow> ('e, usize) outcome" where
  "usize_div_ceil a b =
    (if b = 0 then Panic else Ok (if a mod b = 0 then a div b else a div b + 1))"

definition avid_shard_bytes ::
  "wire_sizes \<Rightarrow> usize \<Rightarrow> usize \<Rightarrow> usize \<Rightarrow> ('e, usize) outcome" where
  "avid_shard_bytes sz row_weight batch shards =
    (let share_batch = usize_add (uleb128_len batch) (usize_mul (usize_add batch 1) (SCALAR sz));
         payload = usize_add (uleb128_len row_weight) (usize_mul row_weight share_batch)
     in and_then (usize_div_ceil (usize_add RS_LENGTH_PREFIX payload) (usize_mul RS_ELEMENT shards))
          (\<lambda>q. Ok (usize_mul q RS_ELEMENT)))"

text \<open>\<^verbatim>\<open>next_power_of_two\<close> wraps to zero above \<open>2 ^ 63\<close> and \<^verbatim>\<open>trailing_zeros\<close> of zero is the
  width.\<close>

fun next_power_of_two_nat :: "nat \<Rightarrow> nat" where
  "next_power_of_two_nat n = (if n \<le> 1 then 1 else 2 * next_power_of_two_nat ((n + 1) div 2))"

declare next_power_of_two_nat.simps [simp del]

definition next_power_of_two :: "usize \<Rightarrow> usize" where
  "next_power_of_two n = next_power_of_two_nat n mod 2 ^ 64"

fun trailing_zeros :: "usize \<Rightarrow> nat" where
  "trailing_zeros n = (if n = 0 then 64 else if odd n then 0 else 1 + trailing_zeros (n div 2))"

declare trailing_zeros.simps [simp del]

definition merkle_depth :: "usize \<Rightarrow> usize" where
  "merkle_depth leaves = trailing_zeros (next_power_of_two leaves)"

section \<open>Comparisons\<close>

definition expect_count :: "string \<Rightarrow> usize \<Rightarrow> usize \<Rightarrow> (CountCheckError, unit) outcome" where
  "expect_count field found expected =
    (if found = expected then Ok () else Err (WrongCount field found expected))"

definition at_most :: "string \<Rightarrow> usize \<Rightarrow> usize \<Rightarrow> (CountCheckError, unit) outcome" where
  "at_most field found maximum =
    (if found \<le> maximum then Ok () else Err (TooMany field found maximum))"

definition expect_bytes :: "string \<Rightarrow> usize \<Rightarrow> usize \<Rightarrow> (CountCheckError, unit) outcome" where
  "expect_bytes field found expected =
    (if found = expected then Ok () else Err (WrongBytes field found expected))"

definition at_most_bytes :: "string \<Rightarrow> usize \<Rightarrow> usize \<Rightarrow> (CountCheckError, unit) outcome" where
  "at_most_bytes field found maximum =
    (if found \<le> maximum then Ok () else Err (TooManyBytes field found maximum))"

section \<open>Walkers\<close>

definition walk_bytes :: "wire_sizes \<Rightarrow> string \<Rightarrow> unit walker" where
  "walk_bytes sz field =
    walk_bind (cursor_length sz field) (\<lambda>len. walk_drop (cursor_take field len))"

definition walk_merkle_node :: "wire_sizes \<Rightarrow> string \<Rightarrow> unit walker" where
  "walk_merkle_node sz field =
    walk_bind (variant sz field) (\<lambda>v.
      if v = 0 then walk_lift (Ok ())
      else if v = 1 then walk_drop (cursor_take field (MERKLE_DIGEST sz))
      else walk_lift (Err (BadVariant field v)))"

definition walk_merkle_path :: "wire_sizes \<Rightarrow> string \<Rightarrow> usize option \<Rightarrow> unit walker" where
  "walk_merkle_path sz field depth =
    walk_bind (cursor_length sz field) (\<lambda>nodes.
    walk_then (walk_lift
      (case depth of
        None \<Rightarrow> at_most field nodes MAX_MERKLE_PATH
      | Some d \<Rightarrow> expect_count field nodes d))
      (walk_times nodes (walk_merkle_node sz field)))"

definition walk_authenticated_shards ::
  "wire_sizes \<Rightarrow> usize \<Rightarrow> ExactShards option \<Rightarrow> unit walker" where
  "walk_authenticated_shards sz expected_shards exact =
    walk_bind (cursor_length sz ''shards'') (\<lambda>shards.
    walk_then (walk_lift (expect_count ''shards'' shards expected_shards))
    (walk_then (walk_times shards
      (walk_bind (cursor_length sz ''shards'') (\<lambda>len.
       walk_then (walk_lift
         (case exact of None \<Rightarrow> Ok () | Some ex \<Rightarrow> expect_bytes ''shards'' len (shard_bytes ex)))
       (walk_drop (cursor_take ''shards'' len)))))
    (walk_then (walk_merkle_path sz ''row_proof'' (map_option row_depth exact))
    (walk_merkle_path sz ''top_proof'' (map_option top_depth exact)))))"

definition walk_avss_message :: "wire_sizes \<Rightarrow> AvssShape \<Rightarrow> unit walker" where
  "walk_avss_message sz shape =
    walk_bind (cursor_length sz ''feldman_commitment'') (\<lambda>points.
    walk_then (walk_lift (expect_count ''feldman_commitment'' points (unat (threshold shape))))
    (walk_then (skip_elements ''feldman_commitment'' points (POINT sz))
    (walk_then (cursor_take ''ciphertext'' (2 * EG_POINT sz))
    (walk_bind (cursor_length sz ''ciphertext.encs'') (\<lambda>encs.
    walk_then (walk_lift (expect_count ''ciphertext.encs'' encs (unat (num_nodes shape))))
    (walk_then (walk_times encs (walk_bytes sz ''ciphertext.encs''))
    (walk_drop (cursor_take ''ciphertext.proof'' (DDH_NIZK sz)))))))))"

definition walk_avss_common_message :: "wire_sizes \<Rightarrow> AvidShape \<Rightarrow> u16 \<Rightarrow> unit walker" where
  "walk_avss_common_message sz shape dealer =
    walk_bind (walk_lift (party_weight_of (avid_weights shape) ''full_public_keys'' dealer)) (\<lambda>weight.
    let batch = weight * unat (batch_size_per_weight shape) in
    walk_bind (cursor_length sz ''full_public_keys'') (\<lambda>keys.
    walk_then (walk_lift (expect_count ''full_public_keys'' keys batch))
    (walk_then (skip_elements ''full_public_keys'' keys (POINT sz))
    (walk_then (cursor_take ''blinding_commit'' (POINT sz))
    (walk_then (cursor_take ''ciphertext_shared'' (SHARED_COMPONENTS sz))
    (walk_bind (cursor_length sz ''ciphertext_hashes'') (\<lambda>hashes.
    walk_then (walk_lift
      (expect_count ''ciphertext_hashes'' hashes (PartyWeights_num_nodes (avid_weights shape))))
    (walk_then (skip_elements ''ciphertext_hashes'' hashes (HASH sz))
    (walk_bind (cursor_length sz ''response_polynomial'') (\<lambda>coefficients.
    walk_then (walk_lift
      (expect_count ''response_polynomial'' coefficients (unat (avid_threshold shape))))
    (skip_elements ''response_polynomial'' coefficients (SCALAR sz))))))))))))"

definition walk_avid_vote :: "wire_sizes \<Rightarrow> PartyWeights \<Rightarrow> unit walker" where
  "walk_avid_vote sz weights =
    walk_then (walk_merkle_node sz ''vote.top_root'')
    (walk_bind (cursor_length sz ''vote.recipients'') (\<lambda>recipients.
    walk_then (walk_lift (at_most ''vote.recipients'' recipients (PartyWeights_num_nodes weights)))
    (walk_then (skip_elements ''vote.recipients'' recipients (PARTY_ID sz))
    (walk_drop (cursor_take ''common_message_hash'' (HASH sz))))))"

definition walk_vote_certificate :: "wire_sizes \<Rightarrow> usize option \<Rightarrow> unit walker" where
  "walk_vote_certificate sz max_signers_bytes =
    walk_then (cursor_take ''certificate'' (EPOCH + AGGREGATE_SIGNATURE sz))
    (walk_bind (cursor_length sz ''certificate.signers'') (\<lambda>signers.
    walk_then (walk_lift
      (case max_signers_bytes of
        None \<Rightarrow> Ok ()
      | Some m \<Rightarrow> at_most_bytes ''certificate.signers'' signers m))
    (walk_then (cursor_take ''certificate.signers'' signers)
    (walk_then (cursor_take ''certificate'' (ADDRESS sz))
    (walk_then (walk_bytes sz ''certificate.messages_hash'')
    (walk_drop (cursor_take ''certificate'' BATCH_INDEX)))))))"

text \<open>Arrays of bytes compare lexicographically, and \<^verbatim>\<open>u16::from_le_bytes\<close> takes the low byte
  first. The closure that handles an entry is a function of the state it captures.\<close>

fun bytes_le :: "u8 list \<Rightarrow> u8 list \<Rightarrow> bool" where
  "bytes_le [] ys = True"
| "bytes_le (x # xs) [] = False"
| "bytes_le (x # xs) (y # ys) = (x < y \<or> x = y \<and> bytes_le xs ys)"

definition u16_from_le_bytes :: "u8 list \<Rightarrow> u16" where
  "u16_from_le_bytes key = ucast (key ! 0) OR push_bit 8 (ucast (key ! 1))"

primrec walk_u16_entries ::
  "string \<Rightarrow> (u16 \<Rightarrow> 's \<Rightarrow> 's walker) \<Rightarrow> nat \<Rightarrow> u8 list option \<Rightarrow> 's \<Rightarrow> 's walker" where
  "walk_u16_entries field entry 0 previous_key s = walk_lift (Ok s)"
| "walk_u16_entries field entry (Suc n) previous_key s =
    walk_bind (cursor_array 2 field) (\<lambda>key.
    walk_then (walk_lift
      (if (case previous_key of None \<Rightarrow> False | Some previous \<Rightarrow> bytes_le key previous)
       then Err (KeyOrder field) else Ok ()))
    (walk_bind (entry (u16_from_le_bytes key) s)
      (\<lambda>s'. walk_u16_entries field entry n (Some key) s')))"

definition walk_u16_map ::
  "wire_sizes \<Rightarrow> string \<Rightarrow> usize \<Rightarrow> (u16 \<Rightarrow> 's \<Rightarrow> 's walker) \<Rightarrow> 's \<Rightarrow> 's walker" where
  "walk_u16_map sz field max_entries entry s =
    walk_bind (cursor_length sz field) (\<lambda>n.
    walk_then (walk_lift (at_most field n max_entries))
    (walk_u16_entries field entry n None s))"

section \<open>The public checks\<close>

definition check_avss_message ::
  "wire_sizes \<Rightarrow> u8 list \<Rightarrow> AvssShape \<Rightarrow> (CountCheckError, unit) outcome" where
  "check_avss_message sz bs shape = walk_whole (walk_avss_message sz shape) bs"

definition rotation_entry ::
  "wire_sizes \<Rightarrow> AvssShape \<Rightarrow> u16 list \<Rightarrow> u16 \<Rightarrow> (u16 \<rightharpoonup> usize \<times> usize) \<Rightarrow>
    (u16 \<rightharpoonup> usize \<times> usize) walker" where
  "rotation_entry sz shape owned index entries =
    walk_then (walk_lift
      (if index \<noteq> 0 \<and> index \<in> set owned then Ok ()
       else Err (UnownedKey ''rotation_messages'' index)))
    (walk_bind (\<lambda>c. Ok (position c, c)) (\<lambda>start.
     walk_then (walk_avss_message sz shape)
     (walk_bind (\<lambda>c. Ok (position c, c)) (\<lambda>stop.
      walk_lift (Ok (entries(index \<mapsto> (start, stop))))))))"

definition check_rotation_messages ::
  "wire_sizes \<Rightarrow> u8 list \<Rightarrow> AvssShape \<Rightarrow> u16 list \<Rightarrow>
    (CountCheckError, u16 \<rightharpoonup> usize \<times> usize) outcome" where
  "check_rotation_messages sz bs shape owned =
    walk_whole (walk_u16_map sz ''rotation_messages'' (length owned)
      (rotation_entry sz shape owned) Map.empty) bs"

definition avss_complaint_response_size :: "wire_sizes \<Rightarrow> u16 \<Rightarrow> usize" where
  "avss_complaint_response_size sz responder_weight =
    (let weight = unat responder_weight in
     usize_add (uleb128_len weight) (usize_mul weight (SHARE sz)))"

definition check_avss_complaint_response ::
  "wire_sizes \<Rightarrow> u8 list \<Rightarrow> u16 \<Rightarrow> (CountCheckError, unit) outcome" where
  "check_avss_complaint_response sz bs responder_weight =
    walk_whole
      (walk_bind (cursor_length sz ''complaint_response.shares'') (\<lambda>shares.
       walk_then (walk_lift
         (expect_count ''complaint_response.shares'' shares (unat responder_weight)))
       (skip_elements ''complaint_response.shares'' shares (SHARE sz)))) bs"

definition check_avss_common_message ::
  "wire_sizes \<Rightarrow> u8 list \<Rightarrow> AvidShape \<Rightarrow> u16 \<Rightarrow> (CountCheckError, unit) outcome" where
  "check_avss_common_message sz bs shape dealer =
    walk_whole (walk_avss_common_message sz shape dealer) bs"

definition check_avid_avss_message ::
  "wire_sizes \<Rightarrow> u8 list \<Rightarrow> AvidShape \<Rightarrow> u16 \<Rightarrow> (CountCheckError, unit) outcome" where
  "check_avid_avss_message sz bs shape dealer =
    walk_whole (walk_then (walk_avss_common_message sz shape dealer)
      (walk_bytes sz ''ciphertext'')) bs"

definition dispersal_entry ::
  "wire_sizes \<Rightarrow> DispersalShape \<Rightarrow> usize \<Rightarrow> usize \<Rightarrow> usize \<Rightarrow> u16 \<Rightarrow> unit \<Rightarrow> unit walker" where
  "dispersal_entry sz shape shards row_d top_d row _ =
    walk_bind (walk_lift (party_weight_of (disp_weights shape) ''dispersal'' row)) (\<lambda>row_weight.
    walk_bind (walk_lift (avid_shard_bytes sz row_weight (batch_size shape) (data_shards shape)))
      (\<lambda>sb. walk_authenticated_shards sz shards
        (Some \<lparr>shard_bytes = sb, row_depth = row_d, top_depth = top_d\<rparr>)))"

definition check_dispersal ::
  "wire_sizes \<Rightarrow> u8 list \<Rightarrow> DispersalShape \<Rightarrow> u16 \<Rightarrow> (CountCheckError, unit) outcome" where
  "check_dispersal sz bs shape holder =
    and_then (party_weight_of (disp_weights shape) ''dispersal'' holder) (\<lambda>shards.
    let row_d = merkle_depth (PartyWeights_num_nodes (disp_weights shape)) in
    and_then (cursor_length sz ''dispersal'' (Cursor_new bs)) (\<lambda>(n, _).
    let top_d = merkle_depth n in
    walk_whole (walk_u16_map sz ''dispersal'' (PartyWeights_num_nodes (disp_weights shape))
      (dispersal_entry sz shape shards row_d top_d) ()) bs))"

definition check_confirm_certificate ::
  "wire_sizes \<Rightarrow> u8 list \<Rightarrow> PartyWeights \<Rightarrow> (CountCheckError, unit) outcome" where
  "check_confirm_certificate sz bs weights =
    walk_whole (walk_vote_certificate sz
      (Some ((PartyWeights_num_nodes weights + 7) div 8))) bs"

definition check_echo ::
  "wire_sizes \<Rightarrow> u8 list \<Rightarrow> PartyWeights \<Rightarrow> u16 \<Rightarrow> (CountCheckError, unit) outcome" where
  "check_echo sz bs weights sender =
    and_then (party_weight_of weights ''echo'' sender) (\<lambda>shards.
    walk_whole (walk_authenticated_shards sz shards None) bs)"

definition check_avid_vote ::
  "wire_sizes \<Rightarrow> u8 list \<Rightarrow> PartyWeights \<Rightarrow> (CountCheckError, unit) outcome" where
  "check_avid_vote sz bs weights = walk_whole (walk_avid_vote sz weights) bs"

definition complaint_shards_entry ::
  "wire_sizes \<Rightarrow> PartyWeights \<Rightarrow> u16 \<Rightarrow> unit \<Rightarrow> unit walker" where
  "complaint_shards_entry sz weights disperser _ =
    walk_bind (walk_lift (party_weight_of weights ''complaint.shards'' disperser))
      (\<lambda>shards. walk_authenticated_shards sz shards None)"

definition check_protocol_complaint ::
  "wire_sizes \<Rightarrow> u8 list \<Rightarrow> PartyWeights \<Rightarrow> (CountCheckError, unit) outcome" where
  "check_protocol_complaint sz bs weights =
    walk_whole (walk_bind (variant sz ''complaint'') (\<lambda>v.
      if v = PROTOCOL_COMPLAINT_AVSS
      then walk_drop (cursor_take ''complaint'' (RECOVERY_PACKAGE sz))
      else if v = PROTOCOL_COMPLAINT_AVID_REVEAL
      then walk_then (walk_bytes sz ''complaint.ciphertext'')
        (walk_drop (cursor_take ''complaint.proof'' (RECOVERY_PACKAGE sz)))
      else if v = PROTOCOL_COMPLAINT_AVID_BLAME
      then walk_then (walk_u16_map sz ''complaint.shards'' (PartyWeights_num_nodes weights)
          (complaint_shards_entry sz weights) ())
        (walk_vote_certificate sz None)
      else walk_lift (Err (BadVariant ''complaint'' v)))) bs"

definition check_avid_complaint_response ::
  "wire_sizes \<Rightarrow> u8 list \<Rightarrow> (CountCheckError, unit) outcome" where
  "check_avid_complaint_response sz bs =
    walk_whole (walk_then (walk_bytes sz ''complaint_response.ciphertext'')
      (walk_drop (cursor_take ''complaint_response.recovery_package'' (RECOVERY_PACKAGE sz)))) bs"

definition walk_held_echo :: "wire_sizes \<Rightarrow> usize \<Rightarrow> unit walker" where
  "walk_held_echo sz shards =
    walk_then (cursor_take ''held_echoes'' (ADDRESS sz))
    (walk_then (expect_variant sz ''held_echoes'' MESSAGES_NONCE_GENERATION_AVID)
    (walk_then (cursor_take ''held_echoes'' BATCH_INDEX)
    (walk_then (expect_variant sz ''held_echoes'' AVID_NONCE_MESSAGE_KIND_ECHO)
    (walk_then (cursor_take ''held_echoes'' (ADDRESS sz))
    (walk_authenticated_shards sz shards None)))))"

definition check_held_avid_echoes ::
  "wire_sizes \<Rightarrow> u8 list \<Rightarrow> PartyWeights \<Rightarrow> u16 \<Rightarrow> (CountCheckError, unit) outcome" where
  "check_held_avid_echoes sz bs weights holder =
    and_then (party_weight_of weights ''held_echoes'' holder) (\<lambda>shards.
    walk_whole
      (walk_then (walk_avid_vote sz weights)
      (walk_bind (cursor_length sz ''held_echoes'') (\<lambda>echoes.
       walk_then (walk_lift (at_most ''held_echoes'' echoes (PartyWeights_num_nodes weights)))
       (walk_then (walk_times echoes (walk_held_echo sz shards))
       (walk_vote_certificate sz None))))) bs)"

end
