(* ===== verification/Count_Check_Grammar.thy ===== *)
theory Count_Check_Grammar
  imports Count_Check
begin

text \<open>
  The byte layouts of the protocol messages as grammars over byte strings, and the proof
  that every walker of \<^verbatim>\<open>mpc/count_check.rs\<close> recognises its grammar. A grammar is a
  predicate on byte strings put together from fixed-size fields, canonical ULEB128
  numbers, repetitions and sorted maps; it mentions neither cursors nor errors.
\<close>

section \<open>Grammars\<close>

type_synonym grammar = "u8 list \<Rightarrow> bool"

definition fixed :: "usize \<Rightarrow> grammar" where
  "fixed n t \<longleftrightarrow> length t = n"

primrec layout :: "grammar list \<Rightarrow> grammar" where
  "layout [] t = (t = [])"
| "layout (F # Fs) t = (\<exists>s u. t = s @ u \<and> F s \<and> layout Fs u)"

definition repeated :: "nat \<Rightarrow> grammar \<Rightarrow> grammar" where
  "repeated n F t \<longleftrightarrow> (\<exists>ts. length ts = n \<and> list_all F ts \<and> t = concat ts)"

definition sized :: "wire_sizes \<Rightarrow> (usize \<Rightarrow> bool) \<Rightarrow> grammar" where
  "sized sz P t \<longleftrightarrow> (\<exists>n. P n \<and> layout [is_length sz n, fixed n] t)"

definition merkle_node :: "wire_sizes \<Rightarrow> grammar" where
  "merkle_node sz t \<longleftrightarrow> is_length sz 0 t \<or> layout [is_length sz 1, fixed (MERKLE_DIGEST sz)] t"

definition merkle_path :: "wire_sizes \<Rightarrow> (usize \<Rightarrow> bool) \<Rightarrow> grammar" where
  "merkle_path sz P t \<longleftrightarrow> (\<exists>n. P n \<and> layout [is_length sz n, repeated n (merkle_node sz)] t)"

definition depth_ok :: "usize option \<Rightarrow> usize \<Rightarrow> bool" where
  "depth_ok depth n \<longleftrightarrow> (case depth of None \<Rightarrow> n \<le> 63 | Some d \<Rightarrow> n = d)"

definition shard_size_ok :: "ExactShards option \<Rightarrow> usize \<Rightarrow> bool" where
  "shard_size_ok exact n \<longleftrightarrow> (case exact of None \<Rightarrow> True | Some ex \<Rightarrow> n = shard_bytes ex)"

definition authenticated_shards :: "wire_sizes \<Rightarrow> usize \<Rightarrow> ExactShards option \<Rightarrow> grammar" where
  "authenticated_shards sz n exact =
    layout [is_length sz n, repeated n (sized sz (shard_size_ok exact)),
      merkle_path sz (depth_ok (map_option row_depth exact)),
      merkle_path sz (depth_ok (map_option top_depth exact))]"

definition avss_message :: "wire_sizes \<Rightarrow> AvssShape \<Rightarrow> grammar" where
  "avss_message sz shape =
    layout [is_length sz (unat (threshold shape)), fixed (unat (threshold shape) * POINT sz),
      fixed (2 * EG_POINT sz),
      is_length sz (unat (num_nodes shape)),
      repeated (unat (num_nodes shape)) (sized sz (\<lambda>_. True)),
      fixed (DDH_NIZK sz)]"

definition avss_common_message :: "wire_sizes \<Rightarrow> AvidShape \<Rightarrow> usize \<Rightarrow> grammar" where
  "avss_common_message sz shape batch =
    layout [is_length sz batch, fixed (batch * POINT sz), fixed (POINT sz),
      fixed (SHARED_COMPONENTS sz),
      is_length sz (length (avid_weights shape)), fixed (length (avid_weights shape) * HASH sz),
      is_length sz (unat (avid_threshold shape)),
      fixed (unat (avid_threshold shape) * SCALAR sz)]"

definition avid_vote :: "wire_sizes \<Rightarrow> usize \<Rightarrow> grammar" where
  "avid_vote sz nodes t \<longleftrightarrow>
    (\<exists>n\<le>nodes. layout [merkle_node sz, is_length sz n, fixed (n * PARTY_ID sz), fixed (HASH sz)] t)"

definition signers_ok :: "usize option \<Rightarrow> usize \<Rightarrow> bool" where
  "signers_ok limit n \<longleftrightarrow> (case limit of None \<Rightarrow> True | Some m \<Rightarrow> n \<le> m)"

definition vote_certificate :: "wire_sizes \<Rightarrow> usize option \<Rightarrow> grammar" where
  "vote_certificate sz limit =
    layout [fixed (8 + AGGREGATE_SIGNATURE sz), sized sz (signers_ok limit), fixed (ADDRESS sz),
      sized sz (\<lambda>_. True), fixed 4]"

text \<open>A map with \<^verbatim>\<open>u16\<close> keys: a count and that many key and entry pairs with the keys in
  strictly increasing byte order. The grammar of an entry may depend on the count and on
  the key.\<close>

definition key_rank :: "u8 list \<Rightarrow> nat" where
  "key_rank key = 256 * unat (key ! 0) + unat (key ! 1)"

definition flat :: "(u8 list \<times> u8 list) list \<Rightarrow> u8 list" where
  "flat kvs = concat (map (\<lambda>(k, e). k @ e) kvs)"

definition sorted_keys :: "(u8 list \<times> u8 list) list \<Rightarrow> bool" where
  "sorted_keys kvs \<longleftrightarrow>
    (\<forall>(k, e) \<in> set kvs. length k = 2) \<and> sorted_wrt (<) (map (key_rank \<circ> fst) kvs)"

definition u16_map :: "wire_sizes \<Rightarrow> usize \<Rightarrow> (usize \<Rightarrow> u16 \<Rightarrow> grammar) \<Rightarrow> grammar" where
  "u16_map sz limit F t \<longleftrightarrow>
    (\<exists>kvs. length kvs \<le> limit \<and> sorted_keys kvs
      \<and> (\<forall>(k, e) \<in> set kvs. F (length kvs) (u16_from_le_bytes k) e)
      \<and> layout [is_length sz (length kvs), (=) (flat kvs)] t)"

section \<open>Walkers recognise their grammars\<close>

lemma fields_single [simp]: "layout [F] t \<longleftrightarrow> F t"
  by auto

named_theorems recog \<open>walkers and the grammars they recognise\<close>

lemma recog_take [recog]: "recognises (walk_drop (cursor_take field n)) (fixed n)"
  by (rule reader_cong, rule recognises_drop [OF reader_take]) (auto simp: fixed_def)

lemma recog_skip [recog]: "recognises (skip_elements field n k) (fixed (n * k))"
  using recognises_skip_elements by (simp add: fixed_def)

lemma recog_single: "recognises w F \<Longrightarrow> recognises w (layout [F])"
  by (rule reader_cong) auto

lemma recog_then:
  "recognises w F \<Longrightarrow> recognises w' (layout Fs) \<Longrightarrow> recognises (walk_then w w') (layout (F # Fs))"
  by (rule reader_cong, rule recognises_then) auto

lemma recog_take_then:
  "recognises w' (layout Fs) \<Longrightarrow> recognises (walk_then (cursor_take field n) w') (layout (fixed n # Fs))"
  by (rule reader_cong, rule reader_then [OF reader_take]) (auto simp: fixed_def)

lemma recog_times: "recognises w F \<Longrightarrow> recognises (walk_times n w) (repeated n F)"
  by (rule reader_cong, rule recognises_times) (auto simp: repeated_def)

text \<open>A length followed by a comparison that succeeds on the lengths in \<open>P\<close>.\<close>

lemma recog_length_such:
  assumes "\<And>n. chk n = Ok () \<longleftrightarrow> P n" "\<And>n. chk n \<noteq> Panic"
    and "\<And>n. P n \<Longrightarrow> recognises (f n) (layout (Fs n))"
  shows "recognises (walk_bind (cursor_length sz field) (\<lambda>n. walk_then (walk_lift (chk n)) (f n)))
    (\<lambda>t. \<exists>n. P n \<and> layout (is_length sz n # Fs n) t)"
proof (rule reader_cong, rule reader_bind [OF length_reader.reader_axioms])
  fix n
  show "recognises (walk_then (walk_lift (chk n)) (f n)) (\<lambda>t. P n \<and> layout (Fs n) t)"
  proof (cases "P n")
    case True
    show ?thesis
      by (rule reader_cong, rule reader_then [OF reader_lift [OF assms(2)] assms(3) [OF True]])
        (use True assms(1) in auto)
  next
    case False
    then obtain e where e: "chk n = Err e" using assms(1,2) by (metis (full_types) old.unit.exhaust outcome.exhaust)
    show ?thesis
      by unfold_locales (auto simp: e False walk_then_def walk_bind_def walk_lift_def)
  qed
qed auto

lemma recog_counted:
  assumes "recognises (f m) (layout Fs)"
  shows "recognises (walk_bind (cursor_length sz field)
      (\<lambda>n. walk_then (walk_lift (expect_count field' n m)) (f n)))
    (layout (is_length sz m # Fs))"
  by (rule reader_cong, rule recog_length_such [where P = "\<lambda>n. n = m" and Fs = "\<lambda>_. Fs"])
    (use assms in \<open>auto simp: expect_count_def\<close>)

lemma recog_at_most:
  assumes "\<And>n. recognises (f n) (layout (Fs n))"
  shows "recognises (walk_bind (cursor_length sz field)
      (\<lambda>n. walk_then (walk_lift (at_most field' n m)) (f n)))
    (\<lambda>t. \<exists>n\<le>m. layout (is_length sz n # Fs n) t)"
  by (rule reader_cong, rule recog_length_such [where P = "\<lambda>n. n \<le> m" and Fs = Fs])
    (use assms in \<open>auto simp: at_most_def\<close>)

lemma recog_bytes [recog]: "recognises (walk_bytes sz field) (sized sz (\<lambda>_. True))"
  unfolding walk_bytes_def
  by (rule reader_cong, rule reader_bind [OF length_reader.reader_axioms recog_take])
    (auto simp: sized_def)

lemma recog_variant: "reader (variant sz field) (\<lambda>p n t. is_length sz n t)"
  unfolding variant_def by (rule length_reader.reader_axioms)

lemma recog_expect_variant [recog]: "recognises (expect_variant sz field v) (is_length sz v)"
  unfolding expect_variant_def
  by (rule reader_cong, rule reader_bind [OF recog_variant reader_lift]) (auto split: if_splits)

lemma recog_merkle_node [recog]: "recognises (walk_merkle_node sz field) (merkle_node sz)"
proof -
  have "recognises (if v = 0 then walk_lift (Ok ())
      else if v = 1 then walk_drop (cursor_take field (MERKLE_DIGEST sz))
      else walk_lift (Err (BadVariant field v)))
    (\<lambda>t. v = 0 \<and> t = [] \<or> v = 1 \<and> fixed (MERKLE_DIGEST sz) t)" for v
    by (cases "v = 0"; cases "v = 1")
      (auto intro!: reader_cong [OF reader_lift] reader_cong [OF recog_take])
  then show ?thesis unfolding walk_merkle_node_def
    by (rule reader_cong [OF reader_bind [OF recog_variant]])
      (simp add: merkle_node_def, metis append_Nil2)
qed

lemma depth_check:
  "(case depth of None \<Rightarrow> at_most field n MAX_MERKLE_PATH | Some d \<Rightarrow> expect_count field n d) = Ok ()
    \<longleftrightarrow> depth_ok depth n"
  "(case depth of None \<Rightarrow> at_most field n MAX_MERKLE_PATH | Some d \<Rightarrow> expect_count field n d) \<noteq> Panic"
  by (auto simp: depth_ok_def expect_count_def at_most_def MAX_MERKLE_PATH_def split: option.splits)

lemma shard_size_check:
  "(case exact of None \<Rightarrow> Ok () | Some ex \<Rightarrow> expect_bytes field n (shard_bytes ex)) = Ok ()
    \<longleftrightarrow> shard_size_ok exact n"
  "(case exact of None \<Rightarrow> Ok () | Some ex \<Rightarrow> expect_bytes field n (shard_bytes ex)) \<noteq> Panic"
  by (auto simp: shard_size_ok_def expect_bytes_def split: option.splits)

lemma signers_check:
  "(case limit of None \<Rightarrow> Ok () | Some m \<Rightarrow> at_most_bytes field n m) = Ok () \<longleftrightarrow> signers_ok limit n"
  "(case limit of None \<Rightarrow> Ok () | Some m \<Rightarrow> at_most_bytes field n m) \<noteq> Panic"
  by (auto simp: signers_ok_def at_most_bytes_def split: option.splits)

lemma recog_merkle_path [recog]:
  "recognises (walk_merkle_path sz field depth) (merkle_path sz (depth_ok depth))"
  unfolding walk_merkle_path_def
  by (rule reader_cong, rule recog_length_such
      [OF depth_check recog_single [OF recog_times [OF recog_merkle_node]]])
    (simp only: merkle_path_def)

lemma recog_shard [recog]:
  "recognises (walk_bind (cursor_length sz field) (\<lambda>len.
       walk_then (walk_lift
         (case exact of None \<Rightarrow> Ok () | Some ex \<Rightarrow> expect_bytes field' len (shard_bytes ex)))
       (walk_drop (cursor_take field'' len)))) (sized sz (shard_size_ok exact))"
  by (rule reader_cong, rule recog_length_such [OF shard_size_check recog_single [OF recog_take]])
    (simp only: sized_def)

lemmas recog_rules = recog_counted recog_take_then recog_then recog_single recog_times

lemma recog_authenticated_shards [recog]:
  "recognises (walk_authenticated_shards sz n exact) (authenticated_shards sz n exact)"
  unfolding walk_authenticated_shards_def authenticated_shards_def
  by (intro recog_rules recog)

lemma recog_avss_message [recog]:
  "recognises (walk_avss_message sz shape) (avss_message sz shape)"
  unfolding walk_avss_message_def avss_message_def
  by (intro recog_rules recog)

lemma recog_vote_certificate [recog]:
  "recognises (walk_vote_certificate sz limit) (vote_certificate sz limit)"
proof -
  have s: "recognises (walk_bind (cursor_length sz field) (\<lambda>signers.
    walk_then (walk_lift
      (case limit of None \<Rightarrow> Ok () | Some m \<Rightarrow> at_most_bytes field' signers m))
    (walk_then (cursor_take field'' signers) w))) (layout (sized sz (signers_ok limit) # Fs))"
    if "recognises w (layout Fs)" for field field' field'' w Fs
    by (rule reader_cong, rule recog_length_such [OF signers_check recog_take_then [OF that]])
      (simp add: sized_def, metis append_assoc)
  show ?thesis unfolding walk_vote_certificate_def vote_certificate_def EPOCH_def BATCH_INDEX_def
    by (intro s recog_rules recog)
qed

lemma recog_avid_vote [recog]:
  "recognises (walk_avid_vote sz ws) (avid_vote sz (length ws))"
proof -
  have rest: "recognises (walk_then (skip_elements f n (PARTY_ID sz)) (walk_drop (cursor_take g (HASH sz))))
      (layout [fixed (n * PARTY_ID sz), fixed (HASH sz)])" for f g n
    by (intro recog_rules recog)
  show ?thesis unfolding walk_avid_vote_def PartyWeights_num_nodes_def
    by (rule reader_cong, rule recognises_then [OF recog_merkle_node recog_at_most [OF rest]])
      (unfold avid_vote_def layout.simps(2) [of "merkle_node sz"], blast)
qed

text \<open>Parties outside the committee have no weight.\<close>

definition party_weight :: "PartyWeights \<Rightarrow> u16 \<Rightarrow> usize option" where
  "party_weight ws party =
    (if unat party < length ws then Some (unat (ws ! unat party)) else None)"

lemma party_weight_of_eq:
  "party_weight_of ws field party = ok_or (UnknownParty field party) (party_weight ws party)"
  by (simp add: party_weight_of_def party_weight_def)

lemma recog_weight:
  assumes "\<And>w. reader (g w) (R w)"
  shows "reader (walk_bind (walk_lift (party_weight_of ws field party)) g)
    (\<lambda>p v t. \<exists>w. party_weight ws party = Some w \<and> R w p v t)"
  by (rule reader_cong, rule reader_bind [OF reader_lift assms]) (auto simp: party_weight_of_eq)

lemma recog_avss_common_message [recog]:
  "recognises (walk_avss_common_message sz shape dealer)
    (\<lambda>t. \<exists>w. party_weight (avid_weights shape) dealer = Some w
      \<and> avss_common_message sz shape (w * unat (batch_size_per_weight shape)) t)"
  unfolding walk_avss_common_message_def avss_common_message_def Let_def PartyWeights_num_nodes_def
  by (intro recog_weight recog_rules recog)

section \<open>Maps with sorted keys\<close>

lemma key_rank_less:
  assumes "length k = 2" "length q = 2"
  shows "\<not> bytes_le k q \<longleftrightarrow> key_rank q < key_rank k"
proof -
  obtain a b c d where k: "k = [a, b]" and q: "q = [c, d]"
    using assms by (auto simp: length_Suc_conv numeral_2_eq_2)
  have "unat b < 256" "unat d < 256" using unat_lt_exp [of b] unat_lt_exp [of d] by simp_all
  then show ?thesis
    by (auto simp: k q key_rank_def word_less_nat_alt word_le_nat_alt word_unat_eq_iff)
qed

text \<open>What the loop accepts after the key \<open>prev\<close>, for an entry closure that reads \<open>E\<close> and
  changes its state.\<close>

fun entries ::
  "(u16 \<Rightarrow> 's \<Rightarrow> usize \<Rightarrow> 's \<Rightarrow> grammar) \<Rightarrow> u8 list option \<Rightarrow> usize \<Rightarrow> 's \<Rightarrow>
    (u8 list \<times> u8 list) list \<Rightarrow> 's \<Rightarrow> bool" where
  "entries E prev p s [] s' = (s' = s)"
| "entries E prev p s ((k, e) # kvs) s' =
    (length k = 2 \<and> (case prev of None \<Rightarrow> True | Some q \<Rightarrow> \<not> bytes_le k q)
     \<and> (\<exists>s1. E (u16_from_le_bytes k) s (p + 2) s1 e
          \<and> entries E (Some k) (p + 2 + length e) s1 kvs s'))"

lemma flat_simps [simp]: "flat [] = []" "flat ((k, e) # kvs) = k @ e @ flat kvs"
  by (simp_all add: flat_def)

lemma reader_entries:
  assumes E: "\<And>k s. reader (entry k s) (E k s)"
  shows "reader (walk_u16_entries field entry n prev s)
    (\<lambda>p s' t. \<exists>kvs. length kvs = n \<and> entries E prev p s kvs s' \<and> t = flat kvs)"
proof (induction n arbitrary: prev s)
  case 0
  show ?case unfolding walk_u16_entries.simps
    by (rule reader_cong, rule reader_lift) auto
next
  case (Suc n)
  let ?chk = "\<lambda>key. if (case prev of None \<Rightarrow> False | Some previous \<Rightarrow> bytes_le key previous)
       then Err (KeyOrder field) else Ok ()"
  have chk: "?chk key \<noteq> Panic"
    "?chk key = Ok u \<longleftrightarrow> (case prev of None \<Rightarrow> True | Some q \<Rightarrow> \<not> bytes_le key q)" for key u
    by (auto split: option.splits)
  show ?case unfolding walk_u16_entries.simps
  proof (rule reader_cong, rule reader_bind [OF reader_array],
      rule reader_then [OF reader_lift [OF chk(1)]], rule reader_bind [OF E Suc.IH])
    fix p s' t
    let ?L = "\<exists>x k u. t = k @ u \<and> (x = k \<and> length k = 2) \<and>
      (\<exists>y z u'. u = z @ u' \<and> (z = [] \<and> ?chk x = Ok y) \<and>
        (\<exists>s1 e w. u' = e @ w \<and> E (u16_from_le_bytes x) s (p + length k + length z) s1 e \<and>
          (\<exists>kvs. length kvs = n \<and> entries E (Some x) (p + length k + length z + length e) s1 kvs s'
            \<and> w = flat kvs)))"
    have "?L \<longleftrightarrow> (\<exists>k e kvs. length kvs = n \<and> entries E prev p s ((k, e) # kvs) s'
        \<and> t = flat ((k, e) # kvs))" (is "_ \<longleftrightarrow> ?R")
    proof
      assume ?L
      then obtain k e s1 kvs where "t = k @ e @ flat kvs" "length k = 2" "?chk k = Ok ()"
          "E (u16_from_le_bytes k) s (p + 2) s1 e" "length kvs = n"
          "entries E (Some k) (p + 2 + length e) s1 kvs s'"
        by (elim exE conjE) (rule that; simp del: entries.simps)
      then have "length kvs = n \<and> entries E prev p s ((k, e) # kvs) s' \<and> t = flat ((k, e) # kvs)"
        unfolding chk(2) by auto
      then show ?R by blast
    next
      assume ?R
      then obtain k e kvs s1 where k: "length kvs = n" "length k = 2" "t = k @ e @ flat kvs"
          "?chk k = Ok ()" "E (u16_from_le_bytes k) s (p + 2) s1 e"
          "entries E (Some k) (p + 2 + length e) s1 kvs s'"
        unfolding chk(2) by auto
      show ?L
        by (rule exI [of _ k], rule exI [of _ k], rule exI [of _ "e @ flat kvs"], intro conjI k refl,
            rule exI [of _ "()"], rule exI [of _ "[]"], rule exI [of _ "e @ flat kvs"],
            intro conjI k refl, simp,
            rule exI [of _ s1], rule exI [of _ e], rule exI [of _ "flat kvs"])
          (use k in \<open>simp del: entries.simps; blast\<close>)
    qed
    also have "\<dots> \<longleftrightarrow> (\<exists>kvs. length kvs = Suc n \<and> entries E prev p s kvs s' \<and> t = flat kvs)"
      by (simp only: ex_list_Suc split_paired_Ex)
    finally show "?L \<longleftrightarrow> (\<exists>kvs. length kvs = Suc n \<and> entries E prev p s kvs s' \<and> t = flat kvs)" .
  qed
qed

lemma reader_u16_map:
  assumes "\<And>k s. reader (entry k s) (E k s)"
  shows "reader (walk_u16_map sz field limit entry s)
    (\<lambda>p s' t. \<exists>kvs. length kvs \<le> limit \<and> is_length sz (length kvs) (uleb128 (length kvs))
      \<and> entries E None (p + length (uleb128 (length kvs))) s kvs s'
      \<and> t = uleb128 (length kvs) @ flat kvs)"
  unfolding walk_u16_map_def
proof (rule reader_cong, rule reader_bind [OF length_reader.reader_axioms],
    rule reader_then [OF reader_lift reader_entries [OF assms]])
  show "at_most field x limit \<noteq> Panic" for x by (simp add: at_most_def)
qed (auto simp: at_most_def is_length_def split: if_splits)

text \<open>The keys and the run of the closure separate.\<close>

fun run_entries ::
  "(u16 \<Rightarrow> 's \<Rightarrow> usize \<Rightarrow> 's \<Rightarrow> grammar) \<Rightarrow> usize \<Rightarrow> 's \<Rightarrow> (u8 list \<times> u8 list) list \<Rightarrow> 's \<Rightarrow> bool" where
  "run_entries E p s [] s' = (s' = s)"
| "run_entries E p s ((k, e) # kvs) s' =
    (\<exists>s1. E (u16_from_le_bytes k) s (p + 2) s1 e \<and> run_entries E (p + 2 + length e) s1 kvs s')"

lemma sorted_keys_Cons:
  "sorted_keys ((k, e) # kvs) \<longleftrightarrow>
    length k = 2 \<and> (\<forall>(k', e') \<in> set kvs. key_rank k < key_rank k') \<and> sorted_keys kvs"
  by (auto simp: sorted_keys_def)

lemma entries_iff_after:
  "length q = 2 \<Longrightarrow> entries E (Some q) p s kvs s' \<longleftrightarrow>
    sorted_keys kvs \<and> (\<forall>(k, e) \<in> set kvs. key_rank q < key_rank k) \<and> run_entries E p s kvs s'"
proof (induction kvs arbitrary: q p s)
  case (Cons kv kvs)
  obtain k e where kv: "kv = (k, e)" by (cases kv)
  show ?case
  proof (cases "length k = 2")
    case True
    have "entries E (Some q) p s (kv # kvs) s' \<longleftrightarrow>
        key_rank q < key_rank k \<and> sorted_keys kvs \<and> (\<forall>(k', e') \<in> set kvs. key_rank k < key_rank k')
        \<and> run_entries E p s (kv # kvs) s'"
      unfolding kv using Cons.IH [OF True] True key_rank_less [OF True Cons.prems] by auto
    then show ?thesis unfolding kv sorted_keys_Cons using True by fastforce
  qed (simp add: kv sorted_keys_Cons)
qed (simp add: sorted_keys_def)

lemma entries_iff:
  "entries E None p s kvs s' \<longleftrightarrow> sorted_keys kvs \<and> run_entries E p s kvs s'"
proof (cases kvs)
  case (Cons kv kvs')
  obtain k e where kv: "kv = (k, e)" by (cases kv)
  show ?thesis unfolding Cons kv sorted_keys_Cons
    by (cases "length k = 2") (auto simp: entries_iff_after)
qed (simp add: sorted_keys_def)

lemma run_entries_unit:
  "run_entries (\<lambda>k _ _ _. F k) p () kvs () \<longleftrightarrow> (\<forall>(k, e) \<in> set kvs. F (u16_from_le_bytes k) e)"
  by (induction kvs arbitrary: p) auto

lemma recog_u16_map:
  assumes "\<And>k s. recognises (entry k s) (F k)"
  shows "recognises (walk_u16_map sz field limit entry ()) (u16_map sz limit (\<lambda>_. F))"
  by (rule reader_cong, rule reader_u16_map [where E = "\<lambda>k _ _ _. F k", OF assms])
    (auto simp: entries_iff run_entries_unit u16_map_def is_length_def)

lemma sorted_keys_distinct:
  assumes "sorted_keys kvs"
  shows "distinct (map (u16_from_le_bytes \<circ> fst) kvs)"
proof -
  have inj: "key_rank k = key_rank q"
    if kq: "length k = 2" "length q = 2" "u16_from_le_bytes k = u16_from_le_bytes q" for k q
  proof -
    obtain a b c d where k: "k = [a, b]" and q: "q = [c, d]"
      using kq by (auto simp: length_Suc_conv numeral_2_eq_2)
    have v: "unat (u16_from_le_bytes [x, y]) = unat x + 256 * unat y" for x y
    proof -
      have "unat x < 2 ^ 8" "unat y < 2 ^ 8" using unat_lt_exp [of x] unat_lt_exp [of y] by simp_all
      moreover from this have "unat (push_bit 8 (ucast y :: u16)) = push_bit 8 (unat y)"
        unfolding unsigned_push_bit_eq
        by (simp add: push_bit_eq_mult take_bit_nat_eq_self unsigned_ucast_eq)
      ultimately show ?thesis using nat_or_shift [of "unat x" 8 "unat y"]
        unfolding u16_from_le_bytes_def unsigned_or_eq
        by (simp add: unsigned_ucast_eq take_bit_nat_eq_self)
    qed
    have sum: "unat a + 256 * unat b = unat c + 256 * unat d"
      using kq(3) v [of a b] v [of c d] by (simp add: k q)
    moreover have "unat a < 256" "unat c < 256" using unat_lt_exp [of a] unat_lt_exp [of c] by simp_all
    ultimately have "unat a = unat c" by (metis mod_less mod_mult_self2)
    with sum have "unat a = unat c \<and> unat b = unat d" by simp
    then show ?thesis by (simp add: k q key_rank_def)
  qed
  show ?thesis using assms
  proof (induction kvs)
    case (Cons kv kvs)
    obtain k e where kv: "kv = (k, e)" by (cases kv)
    have s: "length k = 2" "\<forall>(k', e') \<in> set kvs. key_rank k < key_rank k'" "sorted_keys kvs"
      using Cons.prems by (auto simp: kv sorted_keys_Cons)
    have "u16_from_le_bytes k' \<noteq> u16_from_le_bytes k" if "(k', e') \<in> set kvs" for k' e'
    proof
      assume "u16_from_le_bytes k' = u16_from_le_bytes k"
      moreover have "length k' = 2" using s(3) that by (auto simp: sorted_keys_def)
      ultimately have "key_rank k' = key_rank k" using inj s(1) by blast
      then show False using s(2) that by auto
    qed
    then have "u16_from_le_bytes k \<notin> (u16_from_le_bytes \<circ> fst) ` set kvs" by fastforce
    then show ?case using Cons.IH [OF s(3)] by (simp add: kv)
  qed simp
qed

section \<open>The rotation messages\<close>

fun ranges :: "usize \<Rightarrow> (u8 list \<times> u8 list) list \<Rightarrow> (u16 \<times> usize \<times> usize) list" where
  "ranges p [] = []"
| "ranges p ((k, e) # kvs) =
    (u16_from_le_bytes k, p + 2, p + 2 + length e) # ranges (p + 2 + length e) kvs"

lemma map_fst_ranges: "(\<forall>(k, e) \<in> set kvs. length k = 2) \<Longrightarrow>
    map fst (ranges p kvs) = map (u16_from_le_bytes \<circ> fst) kvs"
  by (induction p kvs rule: ranges.induct) auto

lemma reader_position: "reader (\<lambda>c. Ok (position c, c)) (\<lambda>p v t. v = p \<and> t = [])"
  by unfold_locales auto

lemma reader_rotation_entry:
  "reader (rotation_entry sz shape owned index m)
    (\<lambda>p m' t. index \<noteq> 0 \<and> index \<in> set owned \<and> avss_message sz shape t
      \<and> m' = m(index \<mapsto> (p, p + length t)))"
  unfolding rotation_entry_def
  by (rule reader_cong, rule reader_then [OF reader_lift reader_bind [OF reader_position
        reader_then [OF recog_avss_message reader_bind [OF reader_position reader_lift]]]])
    (auto split: if_splits)

lemma run_rotation_entries:
  "run_entries (\<lambda>k m p m' t. k \<noteq> 0 \<and> k \<in> set owned \<and> F t \<and> m' = m(k \<mapsto> (p, p + length t)))
     p m kvs m' \<longleftrightarrow>
   (\<forall>(k, e) \<in> set kvs. u16_from_le_bytes k \<noteq> 0 \<and> u16_from_le_bytes k \<in> set owned \<and> F e)
   \<and> m' = m ++ map_of (rev (ranges p kvs))"
  by (induction p kvs arbitrary: m rule: ranges.induct) auto

lemma map_of_rev: "distinct (map fst xs) \<Longrightarrow> map_of (rev xs) = map_of xs"
  by (metis (no_types, lifting) distinct_rev map_of_eqI map_of_inject_set rev_map set_rev)

lemma reader_rotation_messages:
  "reader (walk_u16_map sz field limit (rotation_entry sz shape owned) Map.empty)
    (\<lambda>p m t. \<exists>kvs. length kvs \<le> limit \<and> is_length sz (length kvs) (uleb128 (length kvs))
      \<and> sorted_keys kvs
      \<and> (\<forall>(k, e) \<in> set kvs. u16_from_le_bytes k \<noteq> 0 \<and> u16_from_le_bytes k \<in> set owned
            \<and> avss_message sz shape e)
      \<and> m = map_of (ranges (p + length (uleb128 (length kvs))) kvs)
      \<and> t = uleb128 (length kvs) @ flat kvs)"
proof (rule reader_cong, rule reader_u16_map [OF reader_rotation_entry])
  fix p m t
  have "sorted_keys kvs \<Longrightarrow> map_of (rev (ranges q kvs)) = map_of (ranges q kvs)" for q kvs
    by (rule map_of_rev) (simp add: map_fst_ranges sorted_keys_distinct sorted_keys_def)
  then show "(\<exists>kvs. length kvs \<le> limit \<and> is_length sz (length kvs) (uleb128 (length kvs))
      \<and> entries (\<lambda>k m p m' t. k \<noteq> 0 \<and> k \<in> set owned \<and> avss_message sz shape t
            \<and> m' = m(k \<mapsto> (p, p + length t))) None
          (p + length (uleb128 (length kvs))) Map.empty kvs m
      \<and> t = uleb128 (length kvs) @ flat kvs) \<longleftrightarrow>
    (\<exists>kvs. length kvs \<le> limit \<and> is_length sz (length kvs) (uleb128 (length kvs))
      \<and> sorted_keys kvs
      \<and> (\<forall>(k, e) \<in> set kvs. u16_from_le_bytes k \<noteq> 0 \<and> u16_from_le_bytes k \<in> set owned
            \<and> avss_message sz shape e)
      \<and> m = map_of (ranges (p + length (uleb128 (length kvs))) kvs)
      \<and> t = uleb128 (length kvs) @ flat kvs)"
    unfolding entries_iff run_rotation_entries by (simp cong: conj_cong)
qed

end
