(* ===== verification/Count_Check_Props.thy ===== *)
theory Count_Check_Props
  imports Count_Check_Grammar
begin

text \<open>
  What the structural checks of \<^verbatim>\<open>mpc/count_check.rs\<close> guarantee: they accept exactly the byte
  strings of the message grammars, they never panic on hostile bytes, and the sizes they
  compute are the sizes of the encodings.
\<close>

section \<open>Sizes\<close>

lemma usize_add_small: "a + b < 2 ^ 64 \<Longrightarrow> usize_add a b = a + b"
  by (simp add: usize_add_def)

lemma usize_mul_small: "a * b < 2 ^ 64 \<Longrightarrow> usize_mul a b = a * b"
  by (simp add: usize_mul_def)

lemma uleb128_len_le: "n < 2 ^ 64 \<Longrightarrow> uleb128_len n \<le> 10"
  using bit_len_less [of n 64] by (simp add: uleb128_len_def leading_zeros_def)

text \<open>\<^verbatim>\<open>div_ceil\<close> is the least number of pieces that covers.\<close>

lemma usize_div_ceil_covers:
  assumes "0 < b"
  obtains q where "usize_div_ceil a b = Ok q" "a \<le> q * b" "0 < a \<Longrightarrow> 0 < q \<and> (q - 1) * b < a" "q \<le> a"
proof -
  let ?q = "if a mod b = 0 then a div b else a div b + 1"
  have e: "a = a div b * b + a mod b" by simp
  have m: "a mod b < b" using assms by simp
  have le: "a \<le> ?q * b"
  proof (cases "a mod b = 0")
    case False
    have "a \<le> a div b * b + b" using e m by linarith
    then show ?thesis using False by simp
  qed (use e in simp)
  have lt: "0 < ?q \<and> (?q - 1) * b < a" if "0 < a"
  proof (cases "a mod b = 0")
    case True
    then have d: "a = a div b * b" using e by simp
    then have pos: "0 < a div b" using that by (metis gr0I mult_0)
    then have "(a div b - 1) * b < a div b * b" using assms by simp
    then show ?thesis using True d pos by simp
  next
    case False
    then have "a div b * b < a" using e by linarith
    then show ?thesis using False by simp
  qed
  have "?q \<le> a"
  proof (cases "a mod b = 0")
    case False
    then have "a div b * b < a" using e by linarith
    moreover have "a div b * 1 \<le> a div b * b" using assms by (intro mult_le_mono2) simp
    ultimately have "a div b < a" by linarith
    then show ?thesis using False by simp
  qed simp
  then show thesis using that [of ?q] le lt assms by (simp add: usize_div_ceil_def)
qed

lemma next_power_of_two_nat_depth:
  "0 < n \<Longrightarrow> n \<le> 2 ^ k \<Longrightarrow> \<exists>d\<le>k. next_power_of_two_nat n = 2 ^ d \<and> n \<le> 2 ^ d \<and> (1 < n \<longrightarrow> 0 < d \<and> 2 ^ (d - 1) < n)"
proof (induction n arbitrary: k rule: next_power_of_two_nat.induct)
  case (1 n)
  show ?case
  proof (cases "n \<le> 1")
    case True
    then show ?thesis using 1 by (intro exI [of _ 0]) (simp add: next_power_of_two_nat.simps)
  next
    case False
    then obtain k' where k: "k = Suc k'" using 1 by (cases k) auto
    let ?h = "(n + 1) div 2"
    have "0 < ?h" "?h \<le> 2 ^ k'" using False 1(3) by (auto simp: k)
    then obtain d where d: "d \<le> k'" "next_power_of_two_nat ?h = 2 ^ d" "?h \<le> 2 ^ d"
      "1 < ?h \<longrightarrow> 0 < d \<and> 2 ^ (d - 1) < ?h"
      using 1(1) [OF False] by blast
    have "n \<le> 2 * ?h" by presburger
    then have up: "n \<le> 2 ^ Suc d" using d(3) by simp
    have lo: "2 ^ d < n"
    proof (cases "?h = 1")
      case True
      have "next_power_of_two_nat 1 = 1" by (simp add: next_power_of_two_nat.simps)
      then have "(2::nat) ^ d = 1" using d(2) unfolding True by simp
      then have "d = 0" by (cases d) simp_all
      then show ?thesis using False by simp
    next
      case False
      then have "0 < d" "2 ^ (d - 1) < ?h" using d(4) \<open>0 < ?h\<close> by auto
      then obtain e where e: "d = Suc e" "2 ^ e < ?h" by (cases d) auto
      then have "2 ^ e + 1 \<le> ?h" by simp
      then show ?thesis unfolding e(1) power_Suc by linarith
    qed
    show ?thesis using False d(1,2) up lo
      by (intro exI [of _ "Suc d"]) (simp add: k next_power_of_two_nat.simps [of n])
  qed
qed

lemma trailing_zeros_pow2: "trailing_zeros (2 ^ d) = d"
  by (induction d) (simp_all add: trailing_zeros.simps)

lemma merkle_depth_least:
  assumes "0 < n" "n \<le> 2 ^ 63"
  shows "n \<le> 2 ^ merkle_depth n" "1 < n \<Longrightarrow> 0 < merkle_depth n \<and> 2 ^ (merkle_depth n - 1) < n"
proof -
  obtain d where d: "d \<le> 63" "next_power_of_two_nat n = 2 ^ d" "n \<le> 2 ^ d"
    "1 < n \<longrightarrow> 0 < d \<and> 2 ^ (d - 1) < n"
    using next_power_of_two_nat_depth [OF assms] by blast
  have "(2::nat) ^ d \<le> 2 ^ 63" using d(1) by (intro power_increasing) auto
  then have "(2::nat) ^ d < 2 ^ 64" by simp
  then have "merkle_depth n = d" using d(2) by (simp add: merkle_depth_def next_power_of_two_def trailing_zeros_pow2)
  then show "n \<le> 2 ^ merkle_depth n" "1 < n \<Longrightarrow> 0 < merkle_depth n \<and> 2 ^ (merkle_depth n - 1) < n"
    using d(3,4) by simp_all
qed

text \<open>The bytes of a row: a length prefix and \<open>row_weight\<close> share batches, each a vector of
  \<open>batch\<close> scalars and one more scalar.\<close>

definition row_payload :: "wire_sizes \<Rightarrow> nat \<Rightarrow> nat \<Rightarrow> nat" where
  "row_payload sz row_weight batch =
    4 + length (uleb128 row_weight)
      + row_weight * (length (uleb128 batch) + (batch + 1) * SCALAR sz)"

lemma row_payload_small:
  assumes "w < 2 ^ 16" "b < 2 ^ 32" "SCALAR sz \<le> 2 ^ 8"
  shows "length (uleb128 b) + (b + 1) * SCALAR sz \<le> 2 ^ 41"
    "row_payload sz w b \<le> 2 ^ 58" "uleb128_len w = length (uleb128 w)" "uleb128_len b = length (uleb128 b)"
proof -
  show w: "uleb128_len w = length (uleb128 w)" using assms(1) by (intro uleb128_len_eq) simp
  show b: "uleb128_len b = length (uleb128 b)" using assms(2) by (intro uleb128_len_eq) simp
  have wl: "length (uleb128 w) \<le> 10" unfolding w [symmetric] using assms(1) by (intro uleb128_len_le) simp
  have bl: "length (uleb128 b) \<le> 10" unfolding b [symmetric] using assms(2) by (intro uleb128_len_le) simp
  have "(b + 1) * SCALAR sz \<le> 2 ^ 32 * 2 ^ 8" using assms by (intro mult_le_mono) simp_all
  then show s: "length (uleb128 b) + (b + 1) * SCALAR sz \<le> 2 ^ 41" using bl by simp
  have "w * (length (uleb128 b) + (b + 1) * SCALAR sz) \<le> 2 ^ 16 * 2 ^ 41"
    using s assms(1) by (intro mult_le_mono) simp_all
  then show "row_payload sz w b \<le> 2 ^ 58" using wl by (simp add: row_payload_def)
qed

lemma avid_shard_bytes_covers:
  assumes "w < 2 ^ 16" "b < 2 ^ 32" "SCALAR sz \<le> 2 ^ 8" "0 < shards" "shards < 2 ^ 63"
  obtains q where "avid_shard_bytes sz w b shards = (Ok (2 * q) :: ('e, usize) outcome)" "row_payload sz w b \<le> 2 * q * shards"
    "0 < q" "2 * (q - 1) * shards < row_payload sz w b"
proof -
  note small = row_payload_small [OF assms(1-3)]
  let ?sb = "length (uleb128 b) + (b + 1) * SCALAR sz"
  have "(b + 1) * SCALAR sz < 2 ^ 64" "?sb < 2 ^ 64" using small(1) by simp_all
  moreover have "b + 1 < 2 ^ 64" using assms(2) by simp
  ultimately have sb: "usize_add (uleb128_len b) (usize_mul (usize_add b 1) (SCALAR sz)) = ?sb"
    by (simp add: small usize_add_small usize_mul_small)
  have p: "4 + length (uleb128 w) + w * ?sb < 2 ^ 64" using small(2) by (simp add: row_payload_def)
  have pay: "usize_add RS_LENGTH_PREFIX (usize_add (uleb128_len w) (usize_mul w ?sb)) = row_payload sz w b"
  proof -
    have "usize_mul w ?sb = w * ?sb" using p by (intro usize_mul_small) simp
    moreover have "usize_add (length (uleb128 w)) (w * ?sb) = length (uleb128 w) + w * ?sb"
      using p by (intro usize_add_small) simp
    ultimately show ?thesis using p
      by (simp only: RS_LENGTH_PREFIX_def small) (simp add: usize_add_def row_payload_def)
  qed
  have d: "usize_mul RS_ELEMENT shards = 2 * shards"
    using assms(5) by (simp add: RS_ELEMENT_def usize_mul_def)
  obtain q where q: "usize_div_ceil (row_payload sz w b) (2 * shards) = (Ok q :: ('e, usize) outcome)"
    "row_payload sz w b \<le> q * (2 * shards)"
    "0 < row_payload sz w b \<Longrightarrow> 0 < q \<and> (q - 1) * (2 * shards) < row_payload sz w b"
    "q \<le> row_payload sz w b"
    using usize_div_ceil_covers [of "2 * shards" "row_payload sz w b"] assms(4) by auto
  have "usize_mul q RS_ELEMENT = 2 * q"
    using q(4) small(2) by (simp add: RS_ELEMENT_def usize_mul_def)
  then have "avid_shard_bytes sz w b shards = (Ok (2 * q) :: ('e, usize) outcome)"
    unfolding avid_shard_bytes_def Let_def sb pay d q(1) by simp
  moreover have "0 < row_payload sz w b" by (simp add: row_payload_def)
  ultimately show thesis using that [of q] q(2,3) by (simp add: mult.assoc mult.left_commute)
qed

section \<open>The remaining grammars\<close>

definition party_shards :: "wire_sizes \<Rightarrow> PartyWeights \<Rightarrow> u16 \<Rightarrow> grammar" where
  "party_shards sz ws party t \<longleftrightarrow>
    (\<exists>w. party_weight ws party = Some w \<and> authenticated_shards sz w None t)"

definition protocol_complaint :: "wire_sizes \<Rightarrow> PartyWeights \<Rightarrow> grammar" where
  "protocol_complaint sz ws t \<longleftrightarrow>
    layout [is_length sz 0, fixed (RECOVERY_PACKAGE sz)] t
    \<or> layout [is_length sz 1, sized sz (\<lambda>_. True), fixed (RECOVERY_PACKAGE sz)] t
    \<or> layout [is_length sz 2, u16_map sz (length ws) (\<lambda>_. party_shards sz ws),
        vote_certificate sz None] t"

definition held_echo :: "wire_sizes \<Rightarrow> usize \<Rightarrow> grammar" where
  "held_echo sz w =
    layout [fixed (ADDRESS sz), is_length sz 2, fixed 4, is_length sz 2, fixed (ADDRESS sz),
      authenticated_shards sz w None]"

definition held_echoes :: "wire_sizes \<Rightarrow> PartyWeights \<Rightarrow> usize \<Rightarrow> grammar" where
  "held_echoes sz ws w t \<longleftrightarrow>
    (\<exists>n\<le>length ws. layout [avid_vote sz (length ws), is_length sz n, repeated n (held_echo sz w),
      vote_certificate sz None] t)"

text \<open>A row of a dispersal: the shards of the holder have the exact size of the row and both
  Merkle paths have the depth of their trees, the upper one over as many rows as the map
  has.\<close>

definition dispersal_row ::
  "wire_sizes \<Rightarrow> DispersalShape \<Rightarrow> usize \<Rightarrow> usize \<Rightarrow> u16 \<Rightarrow> grammar" where
  "dispersal_row sz shape w rows row t \<longleftrightarrow>
    (\<exists>rw sb. party_weight (disp_weights shape) row = Some rw
      \<and> avid_shard_bytes sz rw (batch_size shape) (data_shards shape)
          = (Ok sb :: (CountCheckError, usize) outcome)
      \<and> authenticated_shards sz w (Some \<lparr>shard_bytes = sb,
          row_depth = merkle_depth (length (disp_weights shape)), top_depth = merkle_depth rows\<rparr>) t)"

definition dispersal :: "wire_sizes \<Rightarrow> DispersalShape \<Rightarrow> usize \<Rightarrow> grammar" where
  "dispersal sz shape w =
    u16_map sz (length (disp_weights shape)) (dispersal_row sz shape w)"

lemma recog_complaint_shards:
  "recognises (complaint_shards_entry sz ws k s) (party_shards sz ws k)"
  unfolding complaint_shards_entry_def
  by (rule reader_cong, rule recog_weight [OF recog_authenticated_shards]) (simp add: party_shards_def)

lemma recog_protocol_complaint:
  "recognises (walk_bind (variant sz ''complaint'') (\<lambda>v.
      if v = PROTOCOL_COMPLAINT_AVSS
      then walk_drop (cursor_take ''complaint'' (RECOVERY_PACKAGE sz))
      else if v = PROTOCOL_COMPLAINT_AVID_REVEAL
      then walk_then (walk_bytes sz ''complaint.ciphertext'')
        (walk_drop (cursor_take ''complaint.proof'' (RECOVERY_PACKAGE sz)))
      else if v = PROTOCOL_COMPLAINT_AVID_BLAME
      then walk_then (walk_u16_map sz ''complaint.shards'' (PartyWeights_num_nodes ws)
          (complaint_shards_entry sz ws) ())
        (walk_vote_certificate sz None)
      else walk_lift (Err (BadVariant ''complaint'' v)))) (protocol_complaint sz ws)"
proof -
  let ?G = "\<lambda>v t. v = 0 \<and> layout [fixed (RECOVERY_PACKAGE sz)] t
    \<or> v = 1 \<and> layout [sized sz (\<lambda>_. True), fixed (RECOVERY_PACKAGE sz)] t
    \<or> v = 2 \<and> layout [u16_map sz (length ws) (\<lambda>_. party_shards sz ws), vote_certificate sz None] t"
  have r: "recognises (walk_drop (cursor_take ''complaint'' (RECOVERY_PACKAGE sz)))
      (layout [fixed (RECOVERY_PACKAGE sz)])"
    "recognises (walk_then (walk_bytes sz ''complaint.ciphertext'')
        (walk_drop (cursor_take ''complaint.proof'' (RECOVERY_PACKAGE sz))))
      (layout [sized sz (\<lambda>_. True), fixed (RECOVERY_PACKAGE sz)])"
    "recognises (walk_then (walk_u16_map sz ''complaint.shards'' (PartyWeights_num_nodes ws)
          (complaint_shards_entry sz ws) ())
        (walk_vote_certificate sz None))
      (layout [u16_map sz (length ws) (\<lambda>_. party_shards sz ws), vote_certificate sz None])"
    unfolding PartyWeights_num_nodes_def
    by (intro recog_rules recog recog_u16_map [OF recog_complaint_shards])+
  have e: "recognises (walk_lift (Err (BadVariant ''complaint'' v))) (\<lambda>t. False)" for v
    by (rule reader_cong, rule reader_lift) auto
  have "recognises (if v = PROTOCOL_COMPLAINT_AVSS
      then walk_drop (cursor_take ''complaint'' (RECOVERY_PACKAGE sz))
      else if v = PROTOCOL_COMPLAINT_AVID_REVEAL
      then walk_then (walk_bytes sz ''complaint.ciphertext'')
        (walk_drop (cursor_take ''complaint.proof'' (RECOVERY_PACKAGE sz)))
      else if v = PROTOCOL_COMPLAINT_AVID_BLAME
      then walk_then (walk_u16_map sz ''complaint.shards'' (PartyWeights_num_nodes ws)
          (complaint_shards_entry sz ws) ())
        (walk_vote_certificate sz None)
      else walk_lift (Err (BadVariant ''complaint'' v))) (?G v)" for v
  proof -
    consider "v = 0" | "v = 1" | "v = 2" | "v \<noteq> 0" "v \<noteq> 1" "v \<noteq> 2" by blast
    then show ?thesis
      by cases (use r e in \<open>simp_all add: PROTOCOL_COMPLAINT_AVSS_def PROTOCOL_COMPLAINT_AVID_REVEAL_def
          PROTOCOL_COMPLAINT_AVID_BLAME_def del: layout.simps\<close>)
  qed
  then show ?thesis
    by (rule reader_cong [OF reader_bind [OF recog_variant]])
      (unfold protocol_complaint_def layout.simps(2) [of "is_length sz _"], blast)
qed

lemma recog_held_echoes:
  "recognises (walk_then (walk_avid_vote sz ws)
      (walk_bind (cursor_length sz ''held_echoes'') (\<lambda>echoes.
       walk_then (walk_lift (at_most ''held_echoes'' echoes (PartyWeights_num_nodes ws)))
       (walk_then (walk_times echoes (walk_held_echo sz w))
       (walk_vote_certificate sz None))))) (held_echoes sz ws w)"
proof -
  have h: "recognises (walk_held_echo sz w) (held_echo sz w)"
    unfolding walk_held_echo_def held_echo_def MESSAGES_NONCE_GENERATION_AVID_def
      AVID_NONCE_MESSAGE_KIND_ECHO_def BATCH_INDEX_def
    by (intro recog_rules recog)
  have rest: "recognises (walk_then (walk_times n (walk_held_echo sz w)) (walk_vote_certificate sz None))
      (layout [repeated n (held_echo sz w), vote_certificate sz None])" for n
    by (intro recog_rules recog h)
  show ?thesis unfolding PartyWeights_num_nodes_def
    by (rule reader_cong, rule recognises_then [OF recog_avid_vote recog_at_most [OF rest]])
      (unfold held_echoes_def layout.simps(2) [of "avid_vote sz _"], blast)
qed

lemma avid_shard_bytes_no_panic:
  assumes "0 < d" "d < 2 ^ 63"
  shows "avid_shard_bytes sz rw b d \<noteq> Panic"
  using assms by (simp add: avid_shard_bytes_def Let_def and_then_eq_Panic usize_div_ceil_def
      usize_mul_def RS_ELEMENT_def)

lemma recog_dispersal_entry:
  assumes "0 < data_shards shape" "data_shards shape < 2 ^ 63"
  shows "recognises (dispersal_entry sz shape w (merkle_depth (length (disp_weights shape)))
      (merkle_depth rows) k s) (dispersal_row sz shape w rows k)"
  unfolding dispersal_entry_def
  by (rule reader_cong, rule recog_weight
      [OF reader_bind [OF reader_lift [OF avid_shard_bytes_no_panic [OF assms]] recog_authenticated_shards]])
    (auto simp: dispersal_row_def)

lemma u16_mapE:
  assumes "u16_map sz limit F bs"
  obtains kvs where "length kvs \<le> limit" "sorted_keys kvs"
    "\<forall>(k, e) \<in> set kvs. F (length kvs) (u16_from_le_bytes k) e"
    "is_length sz (length kvs) (uleb128 (length kvs))" "bs = uleb128 (length kvs) @ flat kvs"
  using assms unfolding u16_map_def is_length_def by auto

lemma u16_mapI:
  "length kvs \<le> limit \<Longrightarrow> sorted_keys kvs \<Longrightarrow>
    (\<forall>(k, e) \<in> set kvs. F (length kvs) (u16_from_le_bytes k) e) \<Longrightarrow>
    is_length sz (length kvs) (uleb128 (length kvs)) \<Longrightarrow> bs = uleb128 (length kvs) @ flat kvs \<Longrightarrow>
    u16_map sz limit F bs"
  unfolding u16_map_def by (intro exI [of _ kvs]) auto

text \<open>The number the first walk over the bytes reads is the number of entries.\<close>

lemma first_length:
  assumes "length (uleb128 m @ t) < 2 ^ 63" "is_length sz m (uleb128 m)"
  shows "cursor_length sz field (Cursor_new (uleb128 m @ t))
    = Ok (m, \<lparr>bytes = uleb128 m @ t, position = length (uleb128 m)\<rparr>)"
proof -
  have ok: "cursor_ok (Cursor_new (uleb128 m @ t))"
    using assms(1) by (simp add: cursor_ok_def Cursor_new_def)
  have "consumes (Cursor_new (uleb128 m @ t)) (uleb128 m)
      \<lparr>bytes = uleb128 m @ t, position = length (uleb128 m)\<rparr>"
    by (simp add: consumes_def remaining_def Cursor_new_def)
  then show ?thesis using assms(2) by (subst length_reader.reads [OF ok]) blast
qed

lemma check_dispersal_iff:
  assumes "length bs < 2 ^ 63" "0 < data_shards shape" "data_shards shape < 2 ^ 63"
  shows "check_dispersal sz bs shape holder = Ok () \<longleftrightarrow>
    (\<exists>w. party_weight (disp_weights shape) holder = Some w \<and> dispersal sz shape w bs)"
proof -
  let ?lim = "length (disp_weights shape)"
  have whole: "walk_whole (walk_u16_map sz ''dispersal'' ?lim
      (dispersal_entry sz shape w (merkle_depth ?lim) (merkle_depth n)) ()) bs = Ok ()
    \<longleftrightarrow> u16_map sz ?lim (\<lambda>_. dispersal_row sz shape w n) bs" for w n
    by (rule reader.whole_iff [OF recog_u16_map [OF recog_dispersal_entry [OF assms(2,3)]] assms(1)])
  have "(\<exists>n c. cursor_length sz ''dispersal'' (Cursor_new bs) = Ok (n, c)
      \<and> u16_map sz ?lim (\<lambda>_. dispersal_row sz shape w n) bs) \<longleftrightarrow> dispersal sz shape w bs"
    (is "?L \<longleftrightarrow> ?R") for w
  proof
    assume ?L
    then obtain n c where n: "cursor_length sz ''dispersal'' (Cursor_new bs) = Ok (n, c)"
      and m: "u16_map sz ?lim (\<lambda>_. dispersal_row sz shape w n) bs" by blast
    from m show ?R
    proof (rule u16_mapE)
      fix kvs
      assume kvs: "length kvs \<le> ?lim" "sorted_keys kvs"
        "\<forall>(k, e) \<in> set kvs. dispersal_row sz shape w n (u16_from_le_bytes k) e"
        "is_length sz (length kvs) (uleb128 (length kvs))" "bs = uleb128 (length kvs) @ flat kvs"
      have "n = length kvs"
        using first_length [OF _ kvs(4), of "flat kvs" "''dispersal''"] n assms(1) by (simp add: kvs(5))
      then show ?R unfolding dispersal_def using kvs by (intro u16_mapI) auto
    qed
  next
    assume ?R
    then show ?L unfolding dispersal_def
    proof (rule u16_mapE)
      fix kvs
      assume kvs: "length kvs \<le> ?lim" "sorted_keys kvs"
        "\<forall>(k, e) \<in> set kvs. dispersal_row sz shape w (length kvs) (u16_from_le_bytes k) e"
        "is_length sz (length kvs) (uleb128 (length kvs))" "bs = uleb128 (length kvs) @ flat kvs"
      have "u16_map sz ?lim (\<lambda>_. dispersal_row sz shape w (length kvs)) bs"
        using kvs by (intro u16_mapI) auto
      moreover have "\<exists>c. cursor_length sz ''dispersal'' (Cursor_new bs) = Ok (length kvs, c)"
        using first_length [OF _ kvs(4), of "flat kvs" "''dispersal''"] assms(1) by (simp add: kvs(5))
      ultimately show ?L by blast
    qed
  qed
  then show ?thesis
    by (simp add: check_dispersal_def PartyWeights_num_nodes_def party_weight_of_eq Let_def whole)
qed

section \<open>The properties\<close>

text \<open>C19: \<^verbatim>\<open>Cursor::length\<close> reads \<open>n\<close> exactly when the remaining bytes start with the canonical
  ULEB128 encoding of \<open>n\<close> and \<open>n\<close> is within the limit of BCS, and it advances by
  \<^verbatim>\<open>uleb128_len(n)\<close>: every length within the limit round-trips, and a second encoding of the
  same number (padded with zero digits) is never accepted.\<close>

theorem length_reads_canonical_uleb128:
  assumes "cursor_ok c" "MAX_SEQUENCE_LENGTH sz < 2 ^ 35"
  shows "cursor_length sz field c = Ok (n, c') \<longleftrightarrow>
    n \<le> MAX_SEQUENCE_LENGTH sz
    \<and> take (uleb128_len n) (remaining c) = uleb128 n
    \<and> c' = c\<lparr>position := position c + uleb128_len n\<rparr>"
proof -
  have "cursor_length sz field c = Ok (n, c') \<longleftrightarrow>
      n \<le> MAX_SEQUENCE_LENGTH sz \<and> consumes c (uleb128 n) c'"
    using length_reader.reads [OF assms(1)] assms(2) by (auto simp: is_length_def)
  moreover have "n \<le> MAX_SEQUENCE_LENGTH sz \<Longrightarrow> uleb128_len n = length (uleb128 n)"
    using assms(2) by (intro uleb128_len_eq) simp
  moreover have "position c + length (uleb128 n) \<le> length (bytes c)"
    if "take (length (uleb128 n)) (remaining c) = uleb128 n"
    using arg_cong [OF that, of length] assms(1) by (auto simp: remaining_def cursor_ok_def min_def split: if_splits)
  ultimately show ?thesis
    by (auto simp: consumes_take [OF assms(1)] remaining_def)
qed

definition bcs_sizes :: wire_sizes where
  "bcs_sizes = \<lparr>POINT_SIZE_IN_BYTES = 33, SCALAR_SIZE_IN_BYTES = 32,
    RISTRETTO_POINT_BYTE_LENGTH = 32, RISTRETTO_SCALAR_BYTE_LENGTH = 32, SHARE_INDEX_SIZE = 2,
    BLAKE2B_OUTPUT_SIZE = 32, DIGEST_LEN = 32, ADDRESS_LENGTH = 32, PARTY_ID_SIZE = 2,
    BLS_G2_LENGTH = 96, MAX_SEQUENCE_LENGTH = 2 ^ 31 - 1\<rparr>"

theorem length_reads_canonical_uleb128_witness:
  "cursor_length bcs_sizes ''f'' \<lparr>bytes = [9, 172, 2, 7], position = 1\<rparr>
     = Ok (300, \<lparr>bytes = [9, 172, 2, 7], position = 3\<rparr>)
   \<and> cursor_length bcs_sizes ''f'' \<lparr>bytes = [130, 0], position = 0\<rparr>
     \<noteq> Ok (2, \<lparr>bytes = [130, 0], position = 2\<rparr>)"
proof
  have l: "uleb128_len 300 = 2" "uleb128_len 2 = 1"
    by (simp_all add: uleb128_len_def leading_zeros_def bit_len.simps)
  have u: "uleb128 300 = [172, 2]" "uleb128 2 = [2]" by (simp_all add: uleb128.simps)
  show "cursor_length bcs_sizes ''f'' \<lparr>bytes = [9, 172, 2, 7], position = 1\<rparr>
     = Ok (300, \<lparr>bytes = [9, 172, 2, 7], position = 3\<rparr>)"
    by (subst length_reads_canonical_uleb128)
      (simp_all add: cursor_ok_def bcs_sizes_def l u remaining_def)
  show "cursor_length bcs_sizes ''f'' \<lparr>bytes = [130, 0], position = 0\<rparr>
     \<noteq> Ok (2, \<lparr>bytes = [130, 0], position = 2\<rparr>)"
    by (subst length_reads_canonical_uleb128)
      (simp_all add: cursor_ok_def bcs_sizes_def l u remaining_def)
qed

lemma recog_complaint_response:
  "recognises (walk_bind (cursor_length sz field) (\<lambda>shares.
       walk_then (walk_lift (expect_count field' shares n)) (skip_elements field'' shares (SHARE sz))))
    (layout [is_length sz n, fixed (n * SHARE sz)])"
  by (intro recog_rules recog)

lemma recog_bytes_then_take:
  "recognises (walk_then (walk_bytes sz field) (walk_drop (cursor_take field' n)))
    (layout [sized sz (\<lambda>_. True), fixed n])"
  by (intro recog_rules recog)

lemma recog_avid_avss_message:
  "recognises (walk_then (walk_avss_common_message sz shape dealer) (walk_bytes sz field))
    (layout [\<lambda>t. \<exists>w. party_weight (avid_weights shape) dealer = Some w
      \<and> avss_common_message sz shape (w * unat (batch_size_per_weight shape)) t, sized sz (\<lambda>_. True)])"
  by (intro recog_rules recog)

text \<open>C20: The checks of the AVSS messages (key generation and key rotation) succeed exactly on
  the byte strings of their layouts: the commitment has \<open>threshold\<close> points, there is one
  encryption per node, a complaint response has one share per unit of weight, and a
  rotation map has strictly increasing nonzero keys that the dealer owns; no byte is left
  over. The rotation check returns the byte range of every message.\<close>

theorem avss_checks_accept_exactly:
  assumes bs: "length bs < 2 ^ 63"
  shows "(check_avss_message sz bs shape = Ok () \<longleftrightarrow> avss_message sz shape bs)
    \<and> (check_avss_complaint_response sz bs weight = Ok () \<longleftrightarrow>
        layout [is_length sz (unat weight), fixed (unat weight * SHARE sz)] bs)
    \<and> (check_rotation_messages sz bs shape owned = Ok m \<longleftrightarrow>
        (\<exists>kvs. length kvs \<le> length owned \<and> is_length sz (length kvs) (uleb128 (length kvs))
          \<and> sorted_keys kvs
          \<and> (\<forall>(k, e) \<in> set kvs. u16_from_le_bytes k \<noteq> 0 \<and> u16_from_le_bytes k \<in> set owned
                \<and> avss_message sz shape e)
          \<and> m = map_of (ranges (length (uleb128 (length kvs))) kvs)
          \<and> bs = uleb128 (length kvs) @ flat kvs))"
  unfolding check_avss_message_def check_avss_complaint_response_def check_rotation_messages_def
    reader.whole_iff [OF recog_avss_message bs] reader.whole_iff [OF recog_complaint_response bs]
    reader.whole_iff [OF reader_rotation_messages bs]
  by simp

text \<open>C21: The checks of the AVID messages (nonce generation) succeed exactly on the byte strings of
  their layouts, for senders, dealers and holders that are in the committee; in a dispersal
  every shard has the exact size of its row and both Merkle paths the exact depth.\<close>

theorem avid_checks_accept_exactly:
  assumes bs: "length bs < 2 ^ 63"
    and shards: "0 < data_shards dshape" "data_shards dshape < 2 ^ 63"
  shows "(check_avss_common_message sz bs shape dealer = Ok () \<longleftrightarrow>
        (\<exists>w. party_weight (avid_weights shape) dealer = Some w
          \<and> avss_common_message sz shape (w * unat (batch_size_per_weight shape)) bs))
    \<and> (check_avid_avss_message sz bs shape dealer = Ok () \<longleftrightarrow>
        (\<exists>w. party_weight (avid_weights shape) dealer = Some w
          \<and> layout [avss_common_message sz shape (w * unat (batch_size_per_weight shape)),
              sized sz (\<lambda>_. True)] bs))
    \<and> (check_dispersal sz bs dshape holder = Ok () \<longleftrightarrow>
        (\<exists>w. party_weight (disp_weights dshape) holder = Some w \<and> dispersal sz dshape w bs))
    \<and> (check_confirm_certificate sz bs ws = Ok () \<longleftrightarrow>
        vote_certificate sz (Some ((length ws + 7) div 8)) bs)
    \<and> (check_echo sz bs ws sender = Ok () \<longleftrightarrow> party_shards sz ws sender bs)
    \<and> (check_avid_vote sz bs ws = Ok () \<longleftrightarrow> avid_vote sz (length ws) bs)
    \<and> (check_protocol_complaint sz bs ws = Ok () \<longleftrightarrow> protocol_complaint sz ws bs)
    \<and> (check_avid_complaint_response sz bs = Ok () \<longleftrightarrow>
        layout [sized sz (\<lambda>_. True), fixed (RECOVERY_PACKAGE sz)] bs)
    \<and> (check_held_avid_echoes sz bs ws holder = Ok () \<longleftrightarrow>
        (\<exists>w. party_weight ws holder = Some w \<and> held_echoes sz ws w bs))"
proof (intro conjI)
  show "check_dispersal sz bs dshape holder = Ok () \<longleftrightarrow>
      (\<exists>w. party_weight (disp_weights dshape) holder = Some w \<and> dispersal sz dshape w bs)"
    by (rule check_dispersal_iff [OF bs shards])
  show "check_avss_common_message sz bs shape dealer = Ok () \<longleftrightarrow>
        (\<exists>w. party_weight (avid_weights shape) dealer = Some w
          \<and> avss_common_message sz shape (w * unat (batch_size_per_weight shape)) bs)"
    unfolding check_avss_common_message_def
    by (rule reader.whole_iff [OF recog_avss_common_message bs])
  show "check_avid_avss_message sz bs shape dealer = Ok () \<longleftrightarrow>
        (\<exists>w. party_weight (avid_weights shape) dealer = Some w
          \<and> layout [avss_common_message sz shape (w * unat (batch_size_per_weight shape)),
              sized sz (\<lambda>_. True)] bs)"
    unfolding check_avid_avss_message_def reader.whole_iff [OF recog_avid_avss_message bs]
      layout.simps(2) by blast
  show "check_confirm_certificate sz bs ws = Ok () \<longleftrightarrow>
        vote_certificate sz (Some ((length ws + 7) div 8)) bs"
    unfolding check_confirm_certificate_def PartyWeights_num_nodes_def
    by (rule reader.whole_iff [OF recog_vote_certificate bs])
  show "check_echo sz bs ws sender = Ok () \<longleftrightarrow> party_shards sz ws sender bs"
    unfolding check_echo_def party_weight_of_eq party_shards_def
    by (simp add: reader.whole_iff [OF recog_authenticated_shards bs])
  show "check_avid_vote sz bs ws = Ok () \<longleftrightarrow> avid_vote sz (length ws) bs"
    unfolding check_avid_vote_def by (rule reader.whole_iff [OF recog_avid_vote bs])
  show "check_protocol_complaint sz bs ws = Ok () \<longleftrightarrow> protocol_complaint sz ws bs"
    unfolding check_protocol_complaint_def by (rule reader.whole_iff [OF recog_protocol_complaint bs])
  show "check_avid_complaint_response sz bs = Ok () \<longleftrightarrow>
        layout [sized sz (\<lambda>_. True), fixed (RECOVERY_PACKAGE sz)] bs"
    unfolding check_avid_complaint_response_def by (rule reader.whole_iff [OF recog_bytes_then_take bs])
  show "check_held_avid_echoes sz bs ws holder = Ok () \<longleftrightarrow>
        (\<exists>w. party_weight ws holder = Some w \<and> held_echoes sz ws w bs)"
    unfolding check_held_avid_echoes_def party_weight_of_eq
    by (simp add: reader.whole_iff [OF recog_held_echoes bs])
qed

text \<open>C39: No check panics, whatever bytes a peer sends: neither the cursor arithmetic nor the
  shard size computation can abort the node.\<close>

theorem count_checks_never_panic:
  assumes bs: "length bs < 2 ^ 63"
    and shards: "0 < data_shards dshape" "data_shards dshape < 2 ^ 63"
  shows "check_avss_message sz bs shape \<noteq> Panic
    \<and> check_rotation_messages sz bs shape owned \<noteq> Panic
    \<and> check_avss_complaint_response sz bs weight \<noteq> Panic
    \<and> check_avss_common_message sz bs ashape dealer \<noteq> Panic
    \<and> check_avid_avss_message sz bs ashape dealer \<noteq> Panic
    \<and> check_dispersal sz bs dshape holder \<noteq> Panic
    \<and> check_confirm_certificate sz bs ws \<noteq> Panic
    \<and> check_echo sz bs ws sender \<noteq> Panic
    \<and> check_avid_vote sz bs ws \<noteq> Panic
    \<and> check_protocol_complaint sz bs ws \<noteq> Panic
    \<and> check_avid_complaint_response sz bs \<noteq> Panic
    \<and> check_held_avid_echoes sz bs ws holder \<noteq> Panic"
proof -
  note np = reader.whole_no_panic [OF _ bs]
  have len: "cursor_length sz f (Cursor_new bs) \<noteq> Panic" for f
    using bs by (intro length_reader.no_panic) (simp add: cursor_ok_def Cursor_new_def)
  have disp: "check_dispersal sz bs dshape holder \<noteq> Panic"
    unfolding check_dispersal_def and_then_eq_Panic party_weight_of_eq Let_def PartyWeights_num_nodes_def
    using len np [OF recog_u16_map [OF recog_dispersal_entry [OF shards]]] by auto
  show ?thesis
    unfolding check_avss_message_def check_rotation_messages_def check_avss_complaint_response_def
      check_avss_common_message_def check_avid_avss_message_def check_confirm_certificate_def
      check_echo_def check_avid_vote_def check_protocol_complaint_def
      check_avid_complaint_response_def check_held_avid_echoes_def and_then_eq_Panic party_weight_of_eq
    using disp np [OF recog_avss_message] np [OF reader_rotation_messages]
      np [OF recog_complaint_response] np [OF recog_avss_common_message]
      np [OF recog_avid_avss_message] np [OF recog_vote_certificate]
      np [OF recog_authenticated_shards] np [OF recog_avid_vote] np [OF recog_protocol_complaint]
      np [OF recog_bytes_then_take] np [OF recog_held_echoes]
    by simp
qed

lemma ranges_in_bytes:
  assumes "(i, a, z) \<in> set (ranges (length pre) kvs)" "\<forall>(k, e) \<in> set kvs. length k = 2"
  shows "\<exists>k e. (k, e) \<in> set kvs \<and> i = u16_from_le_bytes k \<and> a \<le> z \<and> z \<le> length (pre @ flat kvs)
    \<and> take (z - a) (drop a (pre @ flat kvs)) = e"
  using assms
proof (induction kvs arbitrary: pre)
  case (Cons kv kvs)
  obtain k e where kv: "kv = (k, e)" by (cases kv)
  have k: "length k = 2" using Cons.prems(2) by (simp add: kv)
  consider (hd) "i = u16_from_le_bytes k" "a = length (pre @ k)" "z = length (pre @ k @ e)"
    | (tl) "(i, a, z) \<in> set (ranges (length (pre @ k @ e)) kvs)"
    using Cons.prems(1) k by (auto simp: kv add.assoc)
  then show ?case
  proof cases
    case hd
    then have "(k, e) \<in> set (kv # kvs) \<and> i = u16_from_le_bytes k \<and> a \<le> z
      \<and> z \<le> length (pre @ flat (kv # kvs)) \<and> take (z - a) (drop a (pre @ flat (kv # kvs))) = e"
      by (simp add: kv)
    then show ?thesis by blast
  next
    case tl
    have "\<forall>(k, e) \<in> set kvs. length k = 2" using Cons.prems(2) by simp
    from Cons.IH [OF tl this] show ?thesis by (auto simp: kv)
  qed
qed simp

text \<open>C34: Every byte range that the rotation check returns belongs to a share index that is nonzero
  and owned by the dealer, lies within the payload, and holds a message that passes the
  AVSS check on its own.\<close>

theorem rotation_ranges_are_checked_messages:
  assumes bs: "length bs < 2 ^ 63"
    and ok: "check_rotation_messages sz bs shape owned = Ok m"
    and range: "m index = Some (start, stop)"
  shows "index \<noteq> 0 \<and> index \<in> set owned \<and> start \<le> stop \<and> stop \<le> length bs
    \<and> check_avss_message sz (take (stop - start) (drop start bs)) shape = Ok ()"
proof -
  obtain kvs where kvs: "sorted_keys kvs"
    "\<forall>(k, e) \<in> set kvs. u16_from_le_bytes k \<noteq> 0 \<and> u16_from_le_bytes k \<in> set owned
      \<and> avss_message sz shape e"
    "m = map_of (ranges (length (uleb128 (length kvs))) kvs)"
    "bs = uleb128 (length kvs) @ flat kvs"
    using ok unfolding check_rotation_messages_def reader.whole_iff [OF reader_rotation_messages bs]
    by auto
  have "(index, start, stop) \<in> set (ranges (length (uleb128 (length kvs))) kvs)"
    using range kvs(3) by (auto dest: map_of_SomeD)
  then obtain k e where e: "(k, e) \<in> set kvs" "index = u16_from_le_bytes k" "start \<le> stop"
    "stop \<le> length bs" "take (stop - start) (drop start bs) = e"
    using ranges_in_bytes [of index start stop "uleb128 (length kvs)" kvs] kvs(1,4)
    by (auto simp: sorted_keys_def)
  have msg: "avss_message sz shape e" "index \<noteq> 0" "index \<in> set owned" using kvs(2) e(1,2) by auto
  have "length e < 2 ^ 63" using e(5) bs by auto
  then have "check_avss_message sz e shape = Ok ()"
    unfolding check_avss_message_def using reader.whole_iff [OF recog_avss_message] msg(1) by blast
  then show ?thesis using e msg by simp
qed

text \<open>C35: For a shape built by \<^verbatim>\<open>DispersalShape::new\<close> the expected shard size is exact: no
  intermediate product wraps, \<open>data_shards\<close> shards of that size hold the encoded row, and
  shards one Reed-Solomon element smaller do not. The expected Merkle depth is that of the
  smallest perfect tree over the leaves.\<close>

theorem dispersal_sizes_exact:
  assumes "DispersalShape_new ws dealer per_weight max_faulty = Some shape"
    and "party_weight ws row = Some row_weight"
    and "SCALAR sz \<le> 2 ^ 8" "sum_list (map unat ws) < 2 ^ 63" "0 < leaves" "leaves \<le> 2 ^ 63"
  shows "(\<exists>q>0. avid_shard_bytes sz row_weight (batch_size shape) (data_shards shape)
        = (Ok (2 * q) :: (CountCheckError, usize) outcome)
      \<and> row_payload sz row_weight (batch_size shape) \<le> 2 * q * data_shards shape
      \<and> 2 * (q - 1) * data_shards shape < row_payload sz row_weight (batch_size shape))
    \<and> leaves \<le> 2 ^ merkle_depth leaves
    \<and> (leaves = 1 \<or> 2 ^ (merkle_depth leaves - 1) < leaves)"
proof -
  have u16: "unat (x :: u16) < 2 ^ 16" for x using unat_lt_exp [of x] by simp
  have w: "row_weight < 2 ^ 16" using assms(2) u16 by (auto simp: party_weight_def split: if_splits)
  define dw where "dw = (if unat dealer < length ws then ws ! unat dealer else 0)"
  have dw: "batch_size shape = unat dw * unat per_weight"
    using assms(1) by (auto simp: DispersalShape_new_def Let_def dw_def split: if_splits)
  have "unat dw * unat per_weight \<le> (2 ^ 16 - 1) * (2 ^ 16 - 1)"
    using u16 [of dw] u16 [of per_weight] by (intro mult_le_mono) simp_all
  then have b: "batch_size shape < 2 ^ 32" by (simp add: dw)
  have d: "0 < data_shards shape" "data_shards shape < 2 ^ 63"
    using assms(1,4) by (auto simp: DispersalShape_new_def Let_def split: if_splits)
  obtain q where "avid_shard_bytes sz row_weight (batch_size shape) (data_shards shape)
        = (Ok (2 * q) :: (CountCheckError, usize) outcome)"
      "row_payload sz row_weight (batch_size shape) \<le> 2 * q * data_shards shape"
      "0 < q" "2 * (q - 1) * data_shards shape < row_payload sz row_weight (batch_size shape)"
    by (rule avid_shard_bytes_covers [OF w b assms(3) d])
  moreover have "leaves = 1 \<or> 2 ^ (merkle_depth leaves - 1) < leaves"
    using merkle_depth_least(2) [OF assms(5,6)] assms(5) by (cases "leaves = 1") simp_all
  ultimately show ?thesis using merkle_depth_least(1) [OF assms(5,6)] by blast
qed

section \<open>Concrete messages\<close>

lemma layoutI: "F s \<Longrightarrow> layout Fs u \<Longrightarrow> layout (F # Fs) (s @ u)"
  by auto

lemma layout_fixed_le: "layout Fs t \<Longrightarrow> fixed n \<in> set Fs \<Longrightarrow> n \<le> length t"
  by (induction Fs arbitrary: t) (auto simp: fixed_def trans_le_add2)

lemma sizedI: "P (length u) \<Longrightarrow> is_length sz (length u) s \<Longrightarrow> sized sz P (s @ u)"
  unfolding sized_def by (intro exI [of _ "length u"]) (auto simp: fixed_def)

lemma is_length_digit: "n < 128 \<Longrightarrow> is_length bcs_sizes n [of_nat n]"
  by (simp add: is_length_def uleb128.simps bcs_sizes_def)

definition one_of_one :: AvssShape where
  "one_of_one = \<lparr>threshold = 1, num_nodes = 1\<rparr>"

definition small_avss_message :: "u8 list" where
  "small_avss_message =
    [1] @ replicate 33 7 @ replicate 64 8 @ [1] @ [2, 5, 6] @ replicate 96 9 @ []"

lemma small_avss_message_ok: "avss_message bcs_sizes one_of_one small_avss_message"
proof -
  have "sized bcs_sizes (\<lambda>_. True) [2, 5, 6]"
    using sizedI [of "\<lambda>_. True" "[5, 6]" bcs_sizes "[2]"] is_length_digit [of 2]
    by (simp add: numeral_2_eq_2)
  then have "repeated 1 (sized bcs_sizes (\<lambda>_. True)) [2, 5, 6]"
    unfolding repeated_def by (intro exI [of _ "[[2, 5, 6]]"]) simp
  then show ?thesis
    unfolding avss_message_def small_avss_message_def one_of_one_def
    using is_length_digit [of 1]
    by (intro layoutI) (simp_all add: fixed_def POINT_def EG_POINT_def DDH_NIZK_def bcs_sizes_def)
qed

lemma length_small_avss_message: "length small_avss_message = 198"
  by (simp add: small_avss_message_def)

theorem avss_checks_accept_exactly_witness:
  "check_avss_message bcs_sizes small_avss_message one_of_one = Ok ()
   \<and> check_avss_message bcs_sizes (take 50 small_avss_message) one_of_one \<noteq> Ok ()"
proof
  show "check_avss_message bcs_sizes small_avss_message one_of_one = Ok ()"
    using avss_checks_accept_exactly [of small_avss_message bcs_sizes one_of_one]
      small_avss_message_ok length_small_avss_message by auto
  have "\<not> avss_message bcs_sizes one_of_one (take 50 small_avss_message)"
  proof
    assume "avss_message bcs_sizes one_of_one (take 50 small_avss_message)"
    then have "DDH_NIZK bcs_sizes \<le> length (take 50 small_avss_message)"
      unfolding avss_message_def by (rule layout_fixed_le) simp
    then show False by (simp add: DDH_NIZK_def EG_POINT_def bcs_sizes_def)
  qed
  then show "check_avss_message bcs_sizes (take 50 small_avss_message) one_of_one \<noteq> Ok ()"
    using avss_checks_accept_exactly [of "take 50 small_avss_message" bcs_sizes one_of_one] by auto
qed

definition two_of_three :: DispersalShape where
  "two_of_three = \<lparr>disp_weights = [1, 1, 1], batch_size = 1, data_shards = 1\<rparr>"

theorem avid_checks_accept_exactly_witness:
  "check_avid_complaint_response bcs_sizes ([0] @ replicate 128 3) = Ok ()
   \<and> check_avid_complaint_response bcs_sizes [0] \<noteq> Ok ()"
proof
  have l: "layout [sized bcs_sizes (\<lambda>_. True), fixed (RECOVERY_PACKAGE bcs_sizes)]
      ([0] @ replicate 128 3 @ [])"
  proof (intro layoutI)
    show "sized bcs_sizes (\<lambda>_. True) [0]"
      using sizedI [of "\<lambda>_. True" "[]" bcs_sizes "[0]"] is_length_digit [of 0] by simp
  qed (simp_all add: fixed_def RECOVERY_PACKAGE_def DDH_NIZK_def EG_POINT_def bcs_sizes_def)
  have "check_avid_complaint_response bcs_sizes ([0] @ replicate 128 3) = Ok () \<longleftrightarrow>
      layout [sized bcs_sizes (\<lambda>_. True), fixed (RECOVERY_PACKAGE bcs_sizes)] ([0] @ replicate 128 3)"
    using avid_checks_accept_exactly [of "[0] @ replicate 128 3" two_of_three bcs_sizes]
    by (simp add: two_of_three_def del: layout.simps)
  then show "check_avid_complaint_response bcs_sizes ([0] @ replicate 128 3) = Ok ()"
    using l by (simp del: layout.simps)
  have "check_avid_complaint_response bcs_sizes [0] = Ok () \<longleftrightarrow>
      layout [sized bcs_sizes (\<lambda>_. True), fixed (RECOVERY_PACKAGE bcs_sizes)] [0]"
    using avid_checks_accept_exactly [of "[0]" two_of_three bcs_sizes]
    by (simp add: two_of_three_def del: layout.simps)
  moreover have "\<not> layout [sized bcs_sizes (\<lambda>_. True), fixed (RECOVERY_PACKAGE bcs_sizes)] [0]"
  proof
    assume "layout [sized bcs_sizes (\<lambda>_. True), fixed (RECOVERY_PACKAGE bcs_sizes)] [0]"
    then have "RECOVERY_PACKAGE bcs_sizes \<le> length [0 :: u8]" by (rule layout_fixed_le) simp
    then show False by (simp add: RECOVERY_PACKAGE_def DDH_NIZK_def EG_POINT_def bcs_sizes_def)
  qed
  ultimately show "check_avid_complaint_response bcs_sizes [0] \<noteq> Ok ()" by blast
qed

theorem count_checks_never_panic_witness:
  "check_echo bcs_sizes [255, 255, 255, 255, 255, 255] [1, 1, 1] 2 \<noteq> Panic"
  using count_checks_never_panic [of "[255, 255, 255, 255, 255, 255]" two_of_three bcs_sizes]
  by (simp add: two_of_three_def)

definition small_rotation :: "u8 list" where
  "small_rotation = [1, 5, 0] @ small_avss_message"

lemma small_rotation_ok:
  "check_rotation_messages bcs_sizes small_rotation one_of_one [5] = Ok [5 \<mapsto> (3, 201)]"
proof -
  have u: "u16_from_le_bytes [5, 0] = 5" by (simp add: u16_from_le_bytes_def)
  have one: "uleb128 1 = [1]" by (simp add: uleb128.simps)
  have len: "length small_rotation < 2 ^ 63"
    by (simp add: small_rotation_def length_small_avss_message)
  let ?kvs = "[([5, 0], small_avss_message)] :: (u8 list \<times> u8 list) list"
  have "length ?kvs \<le> length [5 :: u16]" "is_length bcs_sizes (length ?kvs) (uleb128 (length ?kvs))"
      "sorted_keys ?kvs" "small_rotation = uleb128 (length ?kvs) @ flat ?kvs"
      "[5 \<mapsto> (3, 201)] = map_of (ranges (0 + length (uleb128 (length ?kvs))) ?kvs)"
      "\<forall>(k, e) \<in> set ?kvs. u16_from_le_bytes k \<noteq> 0 \<and> u16_from_le_bytes k \<in> set [5]
        \<and> avss_message bcs_sizes one_of_one e"
    using one is_length_digit [of 1]
    by (simp_all add: sorted_keys_def u small_avss_message_ok small_rotation_def
        length_small_avss_message numeral_3_eq_3)
  then show ?thesis
    unfolding check_rotation_messages_def reader.whole_iff [OF reader_rotation_messages len] by blast
qed

theorem rotation_ranges_are_checked_messages_witness:
  "check_avss_message bcs_sizes (take 198 (drop 3 small_rotation)) one_of_one = Ok ()"
  using rotation_ranges_are_checked_messages [OF _ small_rotation_ok, of 5 3 201]
  by (simp add: small_rotation_def length_small_avss_message)

theorem dispersal_sizes_exact_witness:
  "\<exists>q>0. avid_shard_bytes bcs_sizes 1 1 1 = (Ok (2 * q) :: (CountCheckError, usize) outcome)
      \<and> row_payload bcs_sizes 1 1 \<le> 2 * q \<and> 2 * (q - 1) < row_payload bcs_sizes 1 1"
proof -
  have "DispersalShape_new [1, 1, 1] 0 1 1 = Some two_of_three"
    by (simp add: DispersalShape_new_def two_of_three_def)
  moreover have "party_weight [1, 1, 1] 2 = Some 1" by (simp add: party_weight_def)
  ultimately show ?thesis
    using dispersal_sizes_exact [of "[1, 1, 1]" 0 1 1 two_of_three 2 1 bcs_sizes 3]
    by (simp add: two_of_three_def SCALAR_def bcs_sizes_def)
qed

end
