(* ===== verification/Deposit_Tracker.thy ===== *)
theory Deposit_Tracker
  imports Hashi_Prelude
begin

text \<open>
  The deposit tracker of \<^verbatim>\<open>crates/hashi/src/deposit_tracker.rs\<close>: which Bitcoin outpoints the
  pending deposit requests wait for, what is known about each of them, the index the block
  scanner uses, and the gauges that count outpoints by status.

  A function that can panic (\<^verbatim>\<open>unwrap\<close>, indexing, \<^verbatim>\<open>expect\<close>, \<^verbatim>\<open>assert!\<close>, \<^verbatim>\<open>unreachable!\<close>) returns
  an \<open>option\<close> whose \<open>None\<close> is the panic. The mutex makes every operation atomic, so an
  operation is a function of the state it finds; the watch channel is the number of
  notifications sent. \<^verbatim>\<open>HashMap\<close>s are partial maps and \<^verbatim>\<open>HashSet\<close>s are sets; a loop over one takes
  the iteration order as an argument, a function that lists the keys, and nothing below
  depends on which one it is.
\<close>

section \<open>Data\<close>

type_synonym Address = "256 word"
type_synonym Txid = "256 word"

record OutPoint =
  op_txid :: Txid
  op_vout :: u32

record HashCheckpoint =
  height :: u32
  block_hash :: "256 word"

record TxOut =
  txout_value :: u64
  script_pubkey :: "u8 list"

text \<open>Of a transaction the tracker uses the outputs and the answer of \<^verbatim>\<open>is_coinbase\<close>.\<close>

record Transaction =
  tx_output :: "TxOut list"
  is_coinbase :: bool

definition DEPOSIT_SCRIPT_LEN :: usize where
  "DEPOSIT_SCRIPT_LEN = 34"

datatype RecordedOutput = Kept TxOut | LongScript u64 "u8 list" usize

definition RecordedOutput_new :: "TxOut \<Rightarrow> RecordedOutput" where
  "RecordedOutput_new txout =
    (let script = script_pubkey txout in
     if DEPOSIT_SCRIPT_LEN \<le> length script \<and> DEPOSIT_SCRIPT_LEN < length script
     then LongScript (txout_value txout) (take DEPOSIT_SCRIPT_LEN script) (length script)
     else Kept txout)"

datatype DepositStatus =
    Unchecked
  | NotFound
  | InMempool
  | InBlock HashCheckpoint bool RecordedOutput
  | InvalidVout HashCheckpoint

record ObservationToken =
  token_outpoint :: OutPoint
  token_discovery_id :: u64

datatype DepositDiscovery = Known DepositStatus | Discover ObservationToken | Pending | Untracked

datatype 'e DiscoveryResolution =
    Complete "'e + DepositStatus"
  | ResolutionPending
  | ResolutionUntracked

record Entry =
  requests :: "Address set"
  status :: DepositStatus
  discovery_id :: "u64 option"

text \<open>The two metrics of the tracker: a signed 64-bit gauge per label, which wraps, and a
  counter.\<close>

record Metrics =
  deposit_outpoint_confirmations :: "string \<Rightarrow> u64"
  coinbase_deposit_observations_total :: u64

definition CONFIRMATION_STATUS_LABELS :: "string list" where
  "CONFIRMATION_STATUS_LABELS =
    [''unchecked'', ''not_found'', ''mempool'', ''invalid_vout'', ''0'', ''1'', ''2'', ''3'', ''4'',
     ''5'', ''6_plus'']"

record TrackerState =
  metrics :: "Metrics option"
  entries :: "OutPoint \<rightharpoonup> Entry"
  scan_candidates_by_txid :: "Txid \<rightharpoonup> OutPoint set"
  request_outpoints :: "Address \<rightharpoonup> OutPoint"
  tip :: "HashCheckpoint option"
  bitcoin_generation :: u64
  next_discovery_id :: u64

record DepositTracker =
  inner :: TrackerState
  work_tx :: nat

type_synonym 'a order = "'a set \<Rightarrow> 'a list"

text \<open>A loop whose body may panic.\<close>

primrec for_each :: "('a \<Rightarrow> 's \<Rightarrow> 's option) \<Rightarrow> 'a list \<Rightarrow> 's \<Rightarrow> 's option" where
  "for_each f [] s = Some s"
| "for_each f (x # xs) s = Option.bind (f x s) (for_each f xs)"

section \<open>Confirmations and buckets\<close>

definition confirmations :: "u32 \<Rightarrow> u32 \<Rightarrow> u32" where
  "confirmations block_height tip_height =
    saturating_sub (saturating_add tip_height 1) block_height"

definition effective_deposit_confirmation_threshold :: "u32 \<Rightarrow> u32 \<Rightarrow> bool \<Rightarrow> u32" where
  "effective_deposit_confirmation_threshold coinbase_maturity configured coinbase =
    (if coinbase then max configured coinbase_maturity else configured)"

definition in_block_bucket :: "u32 \<Rightarrow> u32 \<Rightarrow> usize" where
  "in_block_bucket block_height tip_height = 4 + unat (min (confirmations block_height tip_height) 6)"

fun is_scan_candidate :: "DepositStatus \<Rightarrow> bool" where
  "is_scan_candidate Unchecked = True"
| "is_scan_candidate NotFound = True"
| "is_scan_candidate InMempool = True"
| "is_scan_candidate (InBlock c b out) = False"
| "is_scan_candidate (InvalidVout c) = False"

fun status_bucket :: "DepositStatus \<Rightarrow> HashCheckpoint option \<Rightarrow> usize" where
  "status_bucket Unchecked t = 0"
| "status_bucket NotFound t = 1"
| "status_bucket InMempool t = 2"
| "status_bucket (InvalidVout c) t = 3"
| "status_bucket (InBlock c b out) t =
    in_block_bucket (height c) (case t of None \<Rightarrow> 0 | Some t' \<Rightarrow> height t')"

section \<open>The state\<close>

definition adjust_metric_bucket :: "usize \<Rightarrow> int \<Rightarrow> TrackerState \<Rightarrow> TrackerState option" where
  "adjust_metric_bucket bucket delta st =
    (case metrics st of
       None \<Rightarrow> Some st
     | Some m \<Rightarrow>
         if bucket < length CONFIRMATION_STATUS_LABELS then
           let label = CONFIRMATION_STATUS_LABELS ! bucket;
               gauge = deposit_outpoint_confirmations m;
               new = (if delta > 0 then gauge label + of_int delta else gauge label - of_int (- delta))
           in Some (st\<lparr>metrics := Some (m\<lparr>deposit_outpoint_confirmations := gauge(label := new)\<rparr>)\<rparr>)
         else None)"

definition adjust_metric :: "DepositStatus \<Rightarrow> int \<Rightarrow> TrackerState \<Rightarrow> TrackerState option" where
  "adjust_metric s delta st = adjust_metric_bucket (status_bucket s (tip st)) delta st"

definition insert_scan_candidate :: "OutPoint \<Rightarrow> TrackerState \<Rightarrow> TrackerState" where
  "insert_scan_candidate outpoint st =
    (let old = (case scan_candidates_by_txid st (op_txid outpoint) of None \<Rightarrow> {} | Some s \<Rightarrow> s)
     in st\<lparr>scan_candidates_by_txid :=
         (scan_candidates_by_txid st)(op_txid outpoint \<mapsto> insert outpoint old)\<rparr>)"

definition remove_scan_candidate :: "OutPoint \<Rightarrow> TrackerState \<Rightarrow> TrackerState" where
  "remove_scan_candidate outpoint st =
    (case scan_candidates_by_txid st (op_txid outpoint) of
       None \<Rightarrow> st
     | Some outpoints \<Rightarrow>
         let left = outpoints - {outpoint} in
         if left = {} then
           st\<lparr>scan_candidates_by_txid := (scan_candidates_by_txid st)(op_txid outpoint := None)\<rparr>
         else
           st\<lparr>scan_candidates_by_txid := (scan_candidates_by_txid st)(op_txid outpoint \<mapsto> left)\<rparr>)"

definition rebuild_scan_candidate_index :: "OutPoint order \<Rightarrow> TrackerState \<Rightarrow> TrackerState" where
  "rebuild_scan_candidate_index order st =
    (let outpoints = filter (\<lambda>op. case entries st op of
           None \<Rightarrow> False | Some e \<Rightarrow> is_scan_candidate (status e)) (order (dom (entries st)))
     in fold insert_scan_candidate outpoints (st\<lparr>scan_candidates_by_txid := Map.empty\<rparr>))"

definition count_coinbase :: "DepositStatus \<Rightarrow> TrackerState \<Rightarrow> TrackerState" where
  "count_coinbase new st =
    (case new of
       InBlock c True out \<Rightarrow>
         st\<lparr>metrics := map_option (\<lambda>m. m\<lparr>coinbase_deposit_observations_total :=
             coinbase_deposit_observations_total m + 1\<rparr>) (metrics st)\<rparr>
     | _ \<Rightarrow> st)"

definition transition ::
  "OutPoint \<Rightarrow> DepositStatus \<Rightarrow> TrackerState \<Rightarrow> (TrackerState \<times> bool) option" where
  "transition outpoint new st =
    Option.bind (entries st outpoint) (\<lambda>old_entry.
    let old = status old_entry in
    if old = new then Some (st, False) else
    Option.bind (adjust_metric old (-1) (count_coinbase new st)) (\<lambda>st.
    Option.bind (adjust_metric new 1 st) (\<lambda>st.
    let st = (if is_scan_candidate old \<and> \<not> is_scan_candidate new
                then remove_scan_candidate outpoint st
              else if \<not> is_scan_candidate old \<and> is_scan_candidate new
                then insert_scan_candidate outpoint st
              else st)
    in Option.bind (entries st outpoint) (\<lambda>entry.
       Some (st\<lparr>entries := (entries st)(outpoint \<mapsto> entry\<lparr>status := new, discovery_id := None\<rparr>)\<rparr>,
         True)))))"

definition reset_entry :: "OutPoint \<Rightarrow> TrackerState \<Rightarrow> TrackerState option" where
  "reset_entry outpoint st =
    Option.bind (entries st outpoint) (\<lambda>entry.
    if status entry = Unchecked
    then Some (st\<lparr>entries := (entries st)(outpoint \<mapsto> entry\<lparr>discovery_id := None\<rparr>)\<rparr>)
    else map_option fst (transition outpoint Unchecked st))"

definition remove_entry :: "OutPoint \<Rightarrow> TrackerState \<Rightarrow> TrackerState option" where
  "remove_entry outpoint st =
    Option.bind (entries st outpoint) (\<lambda>entry.
    Option.bind (adjust_metric (status entry) (-1) (st\<lparr>entries := (entries st)(outpoint := None)\<rparr>))
      (\<lambda>st. Some (remove_scan_candidate outpoint st)))"

definition state_remove_request :: "Address \<Rightarrow> TrackerState \<Rightarrow> (TrackerState \<times> bool) option" where
  "state_remove_request request st =
    (case request_outpoints st request of
       None \<Rightarrow> Some (st, False)
     | Some outpoint \<Rightarrow>
         let st = st\<lparr>request_outpoints := (request_outpoints st)(request := None)\<rparr> in
         Option.bind (entries st outpoint) (\<lambda>entry.
         let entry = entry\<lparr>requests := requests entry - {request}\<rparr>;
             st = st\<lparr>entries := (entries st)(outpoint \<mapsto> entry)\<rparr>
         in if requests entry = {} then map_option (\<lambda>st. (st, True)) (remove_entry outpoint st)
            else Some (st, True)))"

definition insert_request :: "Address \<Rightarrow> OutPoint \<Rightarrow> TrackerState \<Rightarrow> TrackerState option" where
  "insert_request request outpoint st =
    Option.bind
      (if entries st outpoint = None then
         adjust_metric Unchecked 1 (insert_scan_candidate outpoint
           (st\<lparr>entries := (entries st)(outpoint \<mapsto>
              \<lparr>requests = {}, status = Unchecked, discovery_id = None\<rparr>)\<rparr>))
       else Some st)
    (\<lambda>st. Option.bind (entries st outpoint) (\<lambda>entry.
     Some (st\<lparr>entries := (entries st)(outpoint \<mapsto> entry\<lparr>requests := insert request (requests entry)\<rparr>),
       request_outpoints := (request_outpoints st)(request \<mapsto> outpoint)\<rparr>)))"

definition block_status :: "HashCheckpoint \<Rightarrow> Transaction \<Rightarrow> OutPoint \<Rightarrow> DepositStatus" where
  "block_status checkpoint tx outpoint =
    (if unat (op_vout outpoint) < length (tx_output tx)
     then InBlock checkpoint (is_coinbase tx) (RecordedOutput_new (tx_output tx ! unat (op_vout outpoint)))
     else InvalidVout checkpoint)"

definition apply_transaction ::
  "OutPoint order \<Rightarrow> HashCheckpoint \<Rightarrow> Transaction \<times> Txid \<Rightarrow> TrackerState \<times> bool \<Rightarrow>
    (TrackerState \<times> bool) option" where
  "apply_transaction order checkpoint tx_id sc =
    (case scan_candidates_by_txid (fst sc) (snd tx_id) of
       None \<Rightarrow> Some sc
     | Some outpoints \<Rightarrow>
         for_each (\<lambda>outpoint (st, changed).
             map_option (\<lambda>(st, b). (st, changed \<or> b))
               (transition outpoint (block_status checkpoint (fst tx_id) outpoint) st))
           (order outpoints) sc)"

definition apply_block ::
  "OutPoint order \<Rightarrow> HashCheckpoint \<Rightarrow> Transaction list \<Rightarrow> Txid list \<Rightarrow> TrackerState \<Rightarrow>
    (TrackerState \<times> bool) option" where
  "apply_block order checkpoint txdata txids st =
    for_each (apply_transaction order checkpoint) (zip txdata txids) (st, False)"

definition bump_bitcoin_generation :: "TrackerState \<Rightarrow> TrackerState option" where
  "bump_bitcoin_generation st =
    Option.bind (checked_add (bitcoin_generation st) 1) (\<lambda>generation.
    Some (st\<lparr>bitcoin_generation := generation,
      entries := (\<lambda>op. map_option (\<lambda>e. e\<lparr>discovery_id := None\<rparr>) (entries st op))\<rparr>))"

section \<open>The tracker\<close>

definition notify_work :: "DepositTracker \<Rightarrow> DepositTracker" where
  "notify_work d = d\<lparr>work_tx := work_tx d + 1\<rparr>"

definition new_inner :: "Metrics option \<Rightarrow> DepositTracker" where
  "new_inner ms =
    \<lparr>inner = \<lparr>metrics = map_option (\<lambda>m. m\<lparr>deposit_outpoint_confirmations :=
         fold (\<lambda>label gauge. gauge(label := 0)) CONFIRMATION_STATUS_LABELS
           (deposit_outpoint_confirmations m)\<rparr>) ms,
       entries = Map.empty, scan_candidates_by_txid = Map.empty, request_outpoints = Map.empty,
       tip = None, bitcoin_generation = 0, next_discovery_id = 0\<rparr>,
     work_tx = 0\<rparr>"

definition desired_by_outpoint ::
  "Address order \<Rightarrow> (Address \<rightharpoonup> OutPoint) \<Rightarrow> (OutPoint \<rightharpoonup> Address set)" where
  "desired_by_outpoint order desired =
    fold (\<lambda>request m. case desired request of
         None \<Rightarrow> m
       | Some outpoint \<Rightarrow>
           m(outpoint \<mapsto> insert request (case m outpoint of None \<Rightarrow> {} | Some s \<Rightarrow> s)))
      (order (dom desired)) Map.empty"

definition install_requests ::
  "(OutPoint \<rightharpoonup> Address set) \<Rightarrow> OutPoint \<Rightarrow> TrackerState \<Rightarrow> TrackerState option" where
  "install_requests by_outpoint outpoint st =
    Option.bind (by_outpoint outpoint) (\<lambda>request_ids.
    case entries st outpoint of
      Some entry \<Rightarrow>
        Some (st\<lparr>entries := (entries st)(outpoint \<mapsto> entry\<lparr>requests := request_ids\<rparr>)\<rparr>)
    | None \<Rightarrow>
        Option.bind (adjust_metric Unchecked 1 st) (\<lambda>st.
        Some (st\<lparr>entries := (entries st)(outpoint \<mapsto>
          \<lparr>requests = request_ids, status = Unchecked, discovery_id = None\<rparr>)\<rparr>)))"

definition replace_requests ::
  "Address order \<Rightarrow> OutPoint order \<Rightarrow> OutPoint order \<Rightarrow> OutPoint order \<Rightarrow>
    (Address \<times> OutPoint) list \<Rightarrow> DepositTracker \<Rightarrow> DepositTracker option" where
  "replace_requests ord_requests ord_removed ord_desired ord_index reqs d =
    (let desired = map_of (rev reqs); st = inner d in
     if request_outpoints st = desired then Some d else
     let by_outpoint = desired_by_outpoint ord_requests desired;
         removed = filter (\<lambda>outpoint. by_outpoint outpoint = None) (ord_removed (dom (entries st)))
     in Option.bind (for_each remove_entry removed st) (\<lambda>st.
        Option.bind (for_each (install_requests by_outpoint) (ord_desired (dom by_outpoint)) st) (\<lambda>st.
        let st = rebuild_scan_candidate_index ord_index (st\<lparr>request_outpoints := desired\<rparr>)
        in Some (notify_work (d\<lparr>inner := st\<rparr>)))))"

definition upsert_request :: "Address \<Rightarrow> OutPoint \<Rightarrow> DepositTracker \<Rightarrow> DepositTracker option" where
  "upsert_request request outpoint d =
    (if request_outpoints (inner d) request = Some outpoint then Some d else
     Option.bind (state_remove_request request (inner d)) (\<lambda>(st, _).
     Option.bind (insert_request request outpoint st) (\<lambda>st.
     Some (notify_work (d\<lparr>inner := st\<rparr>)))))"

definition remove_request :: "Address \<Rightarrow> DepositTracker \<Rightarrow> DepositTracker option" where
  "remove_request request d =
    Option.bind (state_remove_request request (inner d)) (\<lambda>(st, removed).
    if removed then Some (notify_work (d\<lparr>inner := st\<rparr>)) else Some (d\<lparr>inner := st\<rparr>))"

definition contains_request :: "Address \<Rightarrow> DepositTracker \<Rightarrow> bool" where
  "contains_request request d \<longleftrightarrow> request_outpoints (inner d) request \<noteq> None"

definition discovery :: "OutPoint \<Rightarrow> DepositTracker \<Rightarrow> (DepositTracker \<times> DepositDiscovery) option" where
  "discovery outpoint d =
    (let st = inner d in
     case entries st outpoint of
       None \<Rightarrow> Some (d, Untracked)
     | Some entry \<Rightarrow>
         if status entry = Unchecked \<and> discovery_id entry \<noteq> None then Some (d, Pending)
         else if status entry = Unchecked then
           let did = next_discovery_id st in
           Option.bind (checked_add (next_discovery_id st) 1) (\<lambda>next.
           Some (d\<lparr>inner := st\<lparr>next_discovery_id := next,
                 entries := (entries st)(outpoint \<mapsto> entry\<lparr>discovery_id := Some did\<rparr>)\<rparr>\<rparr>,
             Discover \<lparr>token_outpoint = outpoint, token_discovery_id = did\<rparr>))
         else Some (d, Known (status entry)))"

definition recorded_status :: "OutPoint \<Rightarrow> DepositTracker \<Rightarrow> DepositStatus option" where
  "recorded_status outpoint d =
    (case entries (inner d) outpoint of
       None \<Rightarrow> None
     | Some entry \<Rightarrow> if status entry = Unchecked then None else Some (status entry))"

definition resolve_discovery ::
  "ObservationToken \<Rightarrow> 'e + DepositStatus \<Rightarrow> DepositTracker \<Rightarrow>
    (DepositTracker \<times> 'e DiscoveryResolution) option" where
  "resolve_discovery token result d =
    (if result = Inr Unchecked then None else
     let st = inner d in
     case entries st (token_outpoint token) of
       None \<Rightarrow> Some (d, ResolutionUntracked)
     | Some entry \<Rightarrow>
         if discovery_id entry = Some (token_discovery_id token) then
           (case result of
              Inr s \<Rightarrow>
                Option.bind (transition (token_outpoint token) s st) (\<lambda>(st, _).
                Some (notify_work (d\<lparr>inner := st\<rparr>), Complete (Inr s)))
            | Inl err \<Rightarrow>
                Some (d\<lparr>inner := st\<lparr>entries := (entries st)(token_outpoint token \<mapsto>
                    entry\<lparr>discovery_id := None\<rparr>)\<rparr>\<rparr>, Complete (Inl err)))
         else if status entry \<noteq> Unchecked then Some (d, Complete (Inr (status entry)))
         else if discovery_id entry \<noteq> None then Some (d, ResolutionPending)
         else Some (d, Complete result))"

definition apply_block_with_txids_if_current ::
  "OutPoint order \<Rightarrow> u64 \<Rightarrow> HashCheckpoint \<Rightarrow> Transaction list \<Rightarrow> Txid list \<Rightarrow> DepositTracker \<Rightarrow>
    DepositTracker option" where
  "apply_block_with_txids_if_current order generation checkpoint txdata txids d =
    (if bitcoin_generation (inner d) \<noteq> generation then Some d else
     Option.bind (apply_block order checkpoint txdata txids (inner d)) (\<lambda>(st, changed).
     Some (if changed then notify_work (d\<lparr>inner := st\<rparr>) else d\<lparr>inner := st\<rparr>)))"

text \<open>\<^verbatim>\<open>compute_txid\<close> is the transaction hash of the \<^verbatim>\<open>bitcoin\<close> crate.\<close>

definition apply_block_if_current ::
  "(Transaction \<Rightarrow> Txid) \<Rightarrow> OutPoint order \<Rightarrow> u64 \<Rightarrow> HashCheckpoint \<Rightarrow> Transaction list \<Rightarrow>
    DepositTracker \<Rightarrow> DepositTracker option" where
  "apply_block_if_current compute_txid order generation checkpoint txdata d =
    apply_block_with_txids_if_current order generation checkpoint txdata (map compute_txid txdata) d"

definition retip_entry :: "HashCheckpoint \<Rightarrow> OutPoint \<Rightarrow> TrackerState \<Rightarrow> TrackerState option" where
  "retip_entry new_tip outpoint st =
    Option.bind (entries st outpoint) (\<lambda>entry.
    case status entry of
      InBlock checkpoint b out \<Rightarrow>
        let old_bucket = status_bucket (status entry) (tip st);
            new_bucket = in_block_bucket (height checkpoint) (height new_tip)
        in if old_bucket \<noteq> new_bucket then
             Option.bind (adjust_metric_bucket old_bucket (-1) st) (adjust_metric_bucket new_bucket 1)
           else Some st
    | _ \<Rightarrow> None)"

definition is_in_block :: "DepositStatus \<Rightarrow> bool" where
  "is_in_block s = (case s of InBlock c b out \<Rightarrow> True | _ \<Rightarrow> False)"

definition set_tip :: "OutPoint order \<Rightarrow> HashCheckpoint \<Rightarrow> DepositTracker \<Rightarrow> DepositTracker option" where
  "set_tip order new_tip d =
    (let st = inner d in
     if tip st = Some new_tip then Some d else
     let in_block = filter (\<lambda>op. case entries st op of None \<Rightarrow> False | Some e \<Rightarrow> is_in_block (status e))
           (order (dom (entries st)))
     in Option.bind (for_each (retip_entry new_tip) in_block st) (\<lambda>st.
        Some (notify_work (d\<lparr>inner := st\<lparr>tip := Some new_tip\<rparr>\<rparr>))))"

definition reset_bitcoin_state :: "OutPoint order \<Rightarrow> DepositTracker \<Rightarrow> DepositTracker option" where
  "reset_bitcoin_state order d =
    Option.bind (bump_bitcoin_generation (inner d)) (\<lambda>st.
    Option.bind (for_each reset_entry (order (dom (entries st))) st) (\<lambda>st.
    Some (notify_work (d\<lparr>inner := st\<lparr>tip := None\<rparr>\<rparr>))))"

definition status_checkpoint :: "DepositStatus \<Rightarrow> HashCheckpoint option" where
  "status_checkpoint s =
    (case s of InBlock c b out \<Rightarrow> Some c | InvalidVout c \<Rightarrow> Some c | _ \<Rightarrow> None)"

definition reorg_entry ::
  "HashCheckpoint list \<Rightarrow> OutPoint \<Rightarrow> TrackerState \<Rightarrow> TrackerState option" where
  "reorg_entry disconnected outpoint st =
    Option.bind (entries st outpoint) (\<lambda>entry.
    Option.bind (status_checkpoint (status entry)) (\<lambda>checkpoint.
    if checkpoint \<in> set disconnected then reset_entry outpoint st else Some st))"

definition apply_reorg ::
  "OutPoint order \<Rightarrow> HashCheckpoint list \<Rightarrow> DepositTracker \<Rightarrow> DepositTracker option" where
  "apply_reorg order disconnected d =
    Option.bind (bump_bitcoin_generation (inner d)) (\<lambda>st.
    let candidates = filter (\<lambda>op. case entries st op of
          None \<Rightarrow> False | Some e \<Rightarrow> status_checkpoint (status e) \<noteq> None) (order (dom (entries st)))
    in Option.bind (for_each (reorg_entry disconnected) candidates st) (\<lambda>st.
       Some (notify_work (d\<lparr>inner := st\<rparr>))))"

definition has_scan_candidates :: "DepositTracker \<Rightarrow> bool" where
  "has_scan_candidates d \<longleftrightarrow> scan_candidates_by_txid (inner d) \<noteq> Map.empty"

definition entry_actionable :: "u32 \<Rightarrow> u32 \<Rightarrow> HashCheckpoint option \<Rightarrow> DepositStatus \<Rightarrow> bool" where
  "entry_actionable coinbase_maturity threshold t s =
    (case s of
       Unchecked \<Rightarrow> True
     | InBlock checkpoint coinbase out \<Rightarrow>
         (case t of
            None \<Rightarrow> False
          | Some t' \<Rightarrow> effective_deposit_confirmation_threshold coinbase_maturity threshold coinbase
              \<le> confirmations (height checkpoint) (height t'))
     | _ \<Rightarrow> False)"

definition actionable_requests :: "u32 \<Rightarrow> u32 \<Rightarrow> DepositTracker \<Rightarrow> Address set" where
  "actionable_requests coinbase_maturity threshold d =
    (let st = inner d in
     \<Union> (requests ` {e \<in> ran (entries st).
        entry_actionable coinbase_maturity threshold (tip st) (status e)}))"

end
