(* ===== verification/Deposit_Tracker_Inv.thy ===== *)
theory Deposit_Tracker_Inv
  imports Deposit_Tracker
begin

text \<open>
  The invariant of the deposit tracker and its preservation by the operations on the state:
  the scan index is the set of scan candidates grouped by transaction, every gauge is the
  number of outpoints with its label, the discovery ids belong to unchecked outpoints and
  were issued before, and entries and requests point at each other.
\<close>

section \<open>The scan index\<close>

definition candidates :: "(OutPoint \<rightharpoonup> Entry) \<Rightarrow> OutPoint set" where
  "candidates E = {op. \<exists>e. E op = Some e \<and> is_scan_candidate (status e)}"

definition by_txid :: "OutPoint set \<Rightarrow> Txid \<rightharpoonup> OutPoint set" where
  "by_txid S t = (if {op \<in> S. op_txid op = t} = {} then None else Some {op \<in> S. op_txid op = t})"

lemma by_txid_insert:
  "scan_candidates_by_txid st = by_txid S \<Longrightarrow>
    insert_scan_candidate op st = st\<lparr>scan_candidates_by_txid := by_txid (insert op S)\<rparr>"
  by (auto simp: insert_scan_candidate_def by_txid_def Let_def fun_eq_iff intro!: TrackerState.fold_congs(3))

lemma by_txid_remove:
  assumes "scan_candidates_by_txid st = by_txid S"
  shows "remove_scan_candidate op st = st\<lparr>scan_candidates_by_txid := by_txid (S - {op})\<rparr>"
proof (cases "{q \<in> S. op_txid q = op_txid op} = {}")
  case True
  then have "by_txid (S - {op}) = by_txid S" by (intro ext) (auto simp: by_txid_def)
  then show ?thesis using True assms by (simp add: remove_scan_candidate_def by_txid_def)
next
  case False
  let ?L = "{q \<in> S. op_txid q = op_txid op} - {op}"
  have "by_txid (S - {op}) = (by_txid S)(op_txid op := if ?L = {} then None else Some ?L)"
    by (intro ext) (auto simp: by_txid_def)
  moreover have "by_txid S (op_txid op) = Some {q \<in> S. op_txid q = op_txid op}"
    using False by (simp add: by_txid_def)
  ultimately show ?thesis using assms by (simp add: remove_scan_candidate_def Let_def)
qed

section \<open>The gauges\<close>

text \<open>How many outpoints are in a bucket, where \<open>T\<close> is the tip an outpoint is counted at, and
  a family of gauges that shows the numbers \<open>f\<close>.\<close>

definition wcount :: "(OutPoint \<rightharpoonup> Entry) \<Rightarrow> (OutPoint \<Rightarrow> HashCheckpoint option) \<Rightarrow> usize \<Rightarrow> u64" where
  "wcount E T b = of_nat (card {op. \<exists>e. E op = Some e \<and> status_bucket (status e) (T op) = b})"

definition meters :: "Metrics option \<Rightarrow> (usize \<Rightarrow> u64) \<Rightarrow> bool" where
  "meters ms f \<longleftrightarrow> (\<forall>m. ms = Some m \<longrightarrow>
    (\<forall>b < length CONFIRMATION_STATUS_LABELS.
      deposit_outpoint_confirmations m (CONFIRMATION_STATUS_LABELS ! b) = f b))"

lemma labels_length: "length CONFIRMATION_STATUS_LABELS = 11"
  by (simp add: CONFIRMATION_STATUS_LABELS_def)

lemma labels_distinct: "distinct CONFIRMATION_STATUS_LABELS"
  by (simp add: CONFIRMATION_STATUS_LABELS_def)

lemma status_bucket_less: "status_bucket s t < length CONFIRMATION_STATUS_LABELS"
proof -
  have "in_block_bucket a b < 11" for a b by (simp add: in_block_bucket_def u_arith)
  then show ?thesis by (cases s) (auto simp: labels_length)
qed

lemma adjust_metric_bucket_ok:
  assumes "b < length CONFIRMATION_STATUS_LABELS"
  shows "\<exists>ms. adjust_metric_bucket b delta st = Some (st\<lparr>metrics := ms\<rparr>)
    \<and> (\<forall>f. meters (metrics st) f \<longrightarrow> meters ms (f(b := f b + of_int delta)))"
proof (cases "metrics st")
  case None
  then have "st\<lparr>metrics := None\<rparr> = st" by simp
  then show ?thesis using None by (intro exI [of _ None]) (simp add: adjust_metric_bucket_def meters_def)
next
  case (Some m)
  let ?g = "deposit_outpoint_confirmations m" and ?l = "CONFIRMATION_STATUS_LABELS ! b"
  let ?ms = "Some (m\<lparr>deposit_outpoint_confirmations := ?g(?l := ?g ?l + of_int delta)\<rparr>)"
  have "adjust_metric_bucket b delta st = Some (st\<lparr>metrics := ?ms\<rparr>)"
    using Some assms by (simp add: adjust_metric_bucket_def Let_def)
  moreover have "meters ?ms (f(b := f b + of_int delta))" if "meters (metrics st) f" for f
    using that Some assms labels_distinct by (auto simp: meters_def nth_eq_iff_index_eq)
  ultimately show ?thesis by blast
qed

lemma wcount_same_statuses:
  "(\<And>op. map_option status (E op) = map_option status (E' op)) \<Longrightarrow> wcount E T = wcount E' T"
proof (intro ext)
  fix b assume e: "\<And>op. map_option status (E op) = map_option status (E' op)"
  have "(\<exists>e. E op = Some e \<and> status_bucket (status e) (T op) = b) \<longleftrightarrow>
      (\<exists>e. E' op = Some e \<and> status_bucket (status e) (T op) = b)" for op
    using e [of op] by (cases "E op"; cases "E' op") auto
  then show "wcount E T b = wcount E' T b" by (simp add: wcount_def)
qed

lemma wcount_insert:
  assumes "finite (dom E)" "E op = None" "status_bucket (status e) (T op) = b"
  shows "wcount (E(op \<mapsto> e)) T = (wcount E T)(b := wcount E T b + 1)"
proof (intro ext)
  fix c
  define S where "S F = {q. \<exists>e. F q = Some e \<and> status_bucket (status e) (T q) = c}" for F :: "OutPoint \<rightharpoonup> Entry"
  have "S (E(op \<mapsto> e)) = (if c = b then insert op (S E) else S E)"
    using assms(2,3) by (auto simp: S_def)
  moreover have "finite (S E)" unfolding S_def by (rule finite_subset [OF _ assms(1)]) auto
  moreover have "op \<notin> S E" using assms(2) by (simp add: S_def)
  ultimately have "card (S (E(op \<mapsto> e))) = card (S E) + (if c = b then 1 else 0)" by simp
  moreover have "wcount F T c = of_nat (card (S F))" for F by (simp add: wcount_def S_def)
  ultimately show "wcount (E(op \<mapsto> e)) T c = ((wcount E T)(b := wcount E T b + 1)) c" by auto
qed

lemma wcount_remove:
  assumes "finite (dom E)" "E op = Some e" "status_bucket (status e) (T op) = b"
  shows "wcount (E(op := None)) T = (wcount E T)(b := wcount E T b - 1)"
proof -
  have "wcount ((E(op := None))(op \<mapsto> e)) T
      = (wcount (E(op := None)) T)(b := wcount (E(op := None)) T b + 1)"
    using assms by (intro wcount_insert) auto
  moreover have "(E(op := None))(op \<mapsto> e) = E" using assms(2) by auto
  ultimately have "wcount E T = (wcount (E(op := None)) T)(b := wcount (E(op := None)) T b + 1)" by simp
  then show ?thesis by (simp add: fun_eq_iff)
qed

lemma wcount_replace:
  assumes "finite (dom E)" "E op = Some e" "status_bucket (status e) (T op) = b"
    and "status_bucket (status e') (T' op) = b'" "\<And>q. q \<noteq> op \<Longrightarrow> T' q = T q"
  shows "wcount (E(op \<mapsto> e')) T' =
    (let f = (wcount E T)(b := wcount E T b - 1) in f(b' := f b' + 1))"
proof -
  have "wcount (E(op := None)) T' = wcount (E(op := None)) T"
    using assms(5) by (auto simp: wcount_def fun_eq_iff intro!: arg_cong [of _ _ card])
  moreover have "wcount ((E(op := None))(op \<mapsto> e')) T' =
      (wcount (E(op := None)) T')(b' := wcount (E(op := None)) T' b' + 1)"
    using assms by (intro wcount_insert) auto
  ultimately show ?thesis using wcount_remove [where T = T, OF assms(1-3)] by (simp add: Let_def)
qed

section \<open>The invariant\<close>

definition discovery_ok :: "TrackerState \<Rightarrow> bool" where
  "discovery_ok st \<longleftrightarrow> (\<forall>op e did. entries st op = Some e \<and> discovery_id e = Some did \<longrightarrow>
    status e = Unchecked \<and> did < next_discovery_id st)"

definition metered :: "TrackerState \<Rightarrow> bool" where
  "metered st \<longleftrightarrow> finite (dom (entries st))
    \<and> meters (metrics st) (wcount (entries st) (\<lambda>_. tip st)) \<and> discovery_ok st"

definition indexed :: "TrackerState \<Rightarrow> bool" where
  "indexed st \<longleftrightarrow> scan_candidates_by_txid st = by_txid (candidates (entries st))"

definition linked :: "TrackerState \<Rightarrow> bool" where
  "linked st \<longleftrightarrow> finite (dom (request_outpoints st))
    \<and> ran (request_outpoints st) \<subseteq> dom (entries st)
    \<and> (\<forall>op e. entries st op = Some e \<longrightarrow>
        requests e = {r. request_outpoints st r = Some op} \<and> requests e \<noteq> {})"

definition tracker_ok :: "TrackerState \<Rightarrow> bool" where
  "tracker_ok st \<longleftrightarrow> metered st \<and> indexed st \<and> linked st"

text \<open>What the operations on entries leave alone.\<close>

definition same_frame :: "TrackerState \<Rightarrow> TrackerState \<Rightarrow> bool" where
  "same_frame st st' \<longleftrightarrow> request_outpoints st' = request_outpoints st \<and> tip st' = tip st
    \<and> bitcoin_generation st' = bitcoin_generation st \<and> next_discovery_id st' = next_discovery_id st"

lemma same_frame_refl [simp]: "same_frame st st"
  by (simp add: same_frame_def)

lemma same_frame_trans: "same_frame a b \<Longrightarrow> same_frame b c \<Longrightarrow> same_frame a c"
  by (simp add: same_frame_def)

section \<open>The operations on entries\<close>

lemma count_coinbase_ok:
  "\<exists>ms. count_coinbase new st = st\<lparr>metrics := ms\<rparr> \<and> (\<forall>f. meters (metrics st) f \<longrightarrow> meters ms f)"
proof (cases "\<exists>c out. new = InBlock c True out")
  case True
  then show ?thesis
    by (intro exI [of _ "map_option (\<lambda>m. m\<lparr>coinbase_deposit_observations_total :=
             coinbase_deposit_observations_total m + 1\<rparr>) (metrics st)"])
      (auto simp: count_coinbase_def meters_def)
next
  case False
  then have "count_coinbase new st = st"
    by (auto simp: count_coinbase_def split: DepositStatus.splits bool.splits)
  then show ?thesis by (intro exI [of _ "metrics st"]) simp
qed

lemma candidates_upd:
  "candidates (E(op \<mapsto> e)) =
    (if is_scan_candidate (status e) then insert op (candidates E) else candidates E - {op})"
  by (auto simp: candidates_def)

lemma transition_ok:
  assumes m: "metered st" and e: "entries st op = Some e"
  shows "\<exists>st'. transition op s st = Some (st', status e \<noteq> s) \<and> metered st' \<and> same_frame st st'
    \<and> (indexed st \<longrightarrow> indexed st')
    \<and> entries st' = (if status e = s then entries st
        else (entries st)(op \<mapsto> e\<lparr>status := s, discovery_id := None\<rparr>))"
proof (cases "status e = s")
  case True
  then show ?thesis using assms by (simp add: transition_def)
next
  case False
  let ?f = "wcount (entries st) (\<lambda>_. tip st)"
  let ?b = "status_bucket (status e) (tip st)" and ?b' = "status_bucket s (tip st)"
  let ?e = "e\<lparr>status := s, discovery_id := None\<rparr>"
  obtain ms0 where ms0: "count_coinbase s st = st\<lparr>metrics := ms0\<rparr>" "meters ms0 ?f"
    using count_coinbase_ok [of s st] m by (auto simp: metered_def)
  obtain ms1 where ms1: "adjust_metric (status e) (-1) (st\<lparr>metrics := ms0\<rparr>) = Some (st\<lparr>metrics := ms1\<rparr>)"
      "meters ms1 (?f(?b := ?f ?b - 1))"
    using adjust_metric_bucket_ok [OF status_bucket_less, of "status e" "tip st" "-1" "st\<lparr>metrics := ms0\<rparr>"]
      ms0(2) by (auto simp: adjust_metric_def)
  obtain ms2 where ms2: "adjust_metric s 1 (st\<lparr>metrics := ms1\<rparr>) = Some (st\<lparr>metrics := ms2\<rparr>)"
      "meters ms2 (let f = ?f(?b := ?f ?b - 1) in f(?b' := f ?b' + 1))"
    using adjust_metric_bucket_ok [OF status_bucket_less, of s "tip st" 1 "st\<lparr>metrics := ms1\<rparr>"]
      ms1(2) by (auto simp: adjust_metric_def Let_def)
  have fin: "finite (dom (entries st))" using m by (simp add: metered_def)
  have w: "wcount ((entries st)(op \<mapsto> ?e)) (\<lambda>_. tip st) =
      (let f = ?f(?b := ?f ?b - 1) in f(?b' := f ?b' + 1))"
    by (rule wcount_replace [OF fin e]) simp_all
  define scan where "scan = scan_candidates_by_txid (
     if is_scan_candidate (status e) \<and> \<not> is_scan_candidate s
       then remove_scan_candidate op (st\<lparr>metrics := ms2\<rparr>)
     else if \<not> is_scan_candidate (status e) \<and> is_scan_candidate s
       then insert_scan_candidate op (st\<lparr>metrics := ms2\<rparr>)
     else st\<lparr>metrics := ms2\<rparr>)"
  let ?st = "st\<lparr>metrics := ms2, scan_candidates_by_txid := scan, entries := (entries st)(op \<mapsto> ?e)\<rparr>"
  have "transition op s st = Some (?st, True)"
    using False e
    by (auto simp: transition_def ms0(1) ms1(1) ms2(1) Let_def scan_def insert_scan_candidate_def
        remove_scan_candidate_def split: option.splits)
  moreover have "metered ?st"
    using m fin w ms2(2) by (auto simp: metered_def discovery_ok_def)
  moreover have "indexed ?st" if "indexed st"
  proof -
    have i: "scan_candidates_by_txid (st\<lparr>metrics := ms2\<rparr>) = by_txid (candidates (entries st))"
      using that by (simp add: indexed_def)
    have "op \<in> candidates (entries st) \<longleftrightarrow> is_scan_candidate (status e)"
      using e by (simp add: candidates_def)
    then show ?thesis
      by (auto simp: indexed_def candidates_upd scan_def by_txid_insert [OF i] by_txid_remove [OF i] i
          insert_absorb)
  qed
  ultimately show ?thesis using False by (auto simp: same_frame_def)
qed

lemma reset_entry_ok:
  assumes "metered st" "entries st op = Some e"
  shows "\<exists>st'. reset_entry op st = Some st' \<and> metered st' \<and> same_frame st st'
    \<and> (indexed st \<longrightarrow> indexed st')
    \<and> entries st' = (entries st)(op \<mapsto> e\<lparr>status := Unchecked, discovery_id := None\<rparr>)"
proof (cases "status e = Unchecked")
  case True
  let ?e = "e\<lparr>discovery_id := None\<rparr>"
  let ?E = "(entries st)(op \<mapsto> ?e)"
  have e: "e\<lparr>status := Unchecked, discovery_id := None\<rparr> = ?e" using True by (cases e) simp
  have "wcount ?E (\<lambda>_. tip st) = wcount (entries st) (\<lambda>_. tip st)"
    by (rule wcount_same_statuses) (simp add: assms(2))
  moreover have "candidates ?E = candidates (entries st)"
    using assms(2) by (auto simp: candidates_def)
  ultimately show ?thesis unfolding e using assms True
    by (auto simp: reset_entry_def metered_def indexed_def discovery_ok_def same_frame_def)
next
  case False
  then show ?thesis using transition_ok [OF assms, of Unchecked] assms(2)
    by (auto simp: reset_entry_def)
qed

lemma remove_entry_ok:
  assumes "metered st" "indexed st" "entries st op = Some e"
  shows "\<exists>st'. remove_entry op st = Some st' \<and> metered st' \<and> indexed st' \<and> same_frame st st'
    \<and> entries st' = (entries st)(op := None)"
proof -
  let ?E = "(entries st)(op := None)" and ?f = "wcount (entries st) (\<lambda>_. tip st)"
  let ?b = "status_bucket (status e) (tip st)"
  obtain ms where ms: "adjust_metric (status e) (-1) (st\<lparr>entries := ?E\<rparr>)
      = Some (st\<lparr>entries := ?E, metrics := ms\<rparr>)" "meters ms (?f(?b := ?f ?b - 1))"
    using adjust_metric_bucket_ok [OF status_bucket_less, of "status e" "tip st" "-1" "st\<lparr>entries := ?E\<rparr>"]
      assms(1) by (auto simp: adjust_metric_def metered_def)
  have fin: "finite (dom (entries st))" using assms(1) by (simp add: metered_def)
  have w: "wcount ?E (\<lambda>_. tip st) = ?f(?b := ?f ?b - 1)"
    by (rule wcount_remove [OF fin assms(3)]) simp
  have i: "scan_candidates_by_txid (st\<lparr>entries := ?E, metrics := ms\<rparr>) = by_txid (candidates (entries st))"
    using assms(2) by (simp add: indexed_def)
  have c: "candidates ?E = candidates (entries st) - {op}" by (auto simp: candidates_def)
  let ?st = "st\<lparr>entries := ?E, metrics := ms, scan_candidates_by_txid := by_txid (candidates ?E)\<rparr>"
  have "remove_entry op st = Some ?st"
    by (simp add: remove_entry_def assms(3) ms(1) by_txid_remove [OF i] c)
  moreover have "metered ?st" using assms(1) fin w ms(2)
    by (auto simp: metered_def discovery_ok_def finite_subset [OF _ fin])
  ultimately show ?thesis by (auto simp: indexed_def same_frame_def)
qed

section \<open>Loops over entries\<close>

definition enumerates :: "'a order \<Rightarrow> bool" where
  "enumerates order \<longleftrightarrow> (\<forall>S. finite S \<longrightarrow> distinct (order S) \<and> set (order S) = S)"

lemma enumeratesD: "enumerates order \<Longrightarrow> finite S \<Longrightarrow> distinct (order S) \<and> set (order S) = S"
  by (simp add: enumerates_def)

lemma for_each_pointwise:
  fixes v :: "'s \<Rightarrow> TrackerState"
  assumes step: "\<And>x s. x \<in> set xs \<Longrightarrow> P s \<Longrightarrow> Q x (entries (v s) x) \<Longrightarrow>
      \<exists>s'. f x s = Some s' \<and> P s' \<and> same_frame (v s) (v s')
        \<and> entries (v s') = (entries (v s))(x := h x (entries (v s) x))"
    and "distinct xs" "P s" "\<And>x. x \<in> set xs \<Longrightarrow> Q x (entries (v s) x)"
  shows "\<exists>s'. for_each f xs s = Some s' \<and> P s' \<and> same_frame (v s) (v s')
    \<and> entries (v s') = (\<lambda>op. if op \<in> set xs then h op (entries (v s) op) else entries (v s) op)"
  using assms
proof (induction xs arbitrary: s)
  case (Cons x xs)
  obtain s1 where s1: "f x s = Some s1" "P s1" "same_frame (v s) (v s1)"
    "entries (v s1) = (entries (v s))(x := h x (entries (v s) x))"
    using Cons.prems(1) [of x s] Cons.prems(3,4) by (meson list.set_intros(1))
  have "\<exists>s'. for_each f xs s1 = Some s' \<and> P s' \<and> same_frame (v s1) (v s')
    \<and> entries (v s') = (\<lambda>op. if op \<in> set xs then h op (entries (v s1) op) else entries (v s1) op)"
  proof (rule Cons.IH)
    show "\<exists>s'. f y t = Some s' \<and> P s' \<and> same_frame (v t) (v s')
        \<and> entries (v s') = (entries (v t))(y := h y (entries (v t) y))"
      if "y \<in> set xs" "P t" "Q y (entries (v t) y)" for y t
      by (rule Cons.prems(1)) (use that in auto)
    show "Q y (entries (v s1) y)" if "y \<in> set xs" for y
      using Cons.prems(2) Cons.prems(4) [of y] that s1(4) by auto
  qed (use Cons.prems(2) s1(2) in auto)
  then obtain s' where s': "for_each f xs s1 = Some s'" "P s'" "same_frame (v s1) (v s')"
    "entries (v s') = (\<lambda>op. if op \<in> set xs then h op (entries (v s1) op) else entries (v s1) op)"
    by blast
  have "entries (v s') = (\<lambda>op. if op \<in> set (x # xs) then h op (entries (v s) op) else entries (v s) op)"
    using Cons.prems(2) by (auto simp: s'(4) s1(4))
  then show ?case using s1(1,3) s'(1-3) by (auto intro: same_frame_trans)
qed simp

section \<open>Requests\<close>

lemma insert_request_ok:
  assumes "metered st" "indexed st"
  shows "\<exists>st'. insert_request r op st = Some st' \<and> metered st' \<and> indexed st'
    \<and> tip st' = tip st \<and> bitcoin_generation st' = bitcoin_generation st
    \<and> next_discovery_id st' = next_discovery_id st
    \<and> request_outpoints st' = (request_outpoints st)(r \<mapsto> op)
    \<and> entries st' = (entries st)(op \<mapsto> (case entries st op of
          None \<Rightarrow> \<lparr>requests = {r}, status = Unchecked, discovery_id = None\<rparr>
        | Some e \<Rightarrow> e\<lparr>requests := insert r (requests e)\<rparr>))"
proof (cases "entries st op")
  case None
  let ?e0 = "\<lparr>requests = {}, status = Unchecked, discovery_id = None\<rparr>"
  let ?e1 = "\<lparr>requests = {r}, status = Unchecked, discovery_id = None\<rparr>"
  let ?f = "wcount (entries st) (\<lambda>_. tip st)"
  let ?S = "insert op (candidates (entries st))"
  have i: "scan_candidates_by_txid (st\<lparr>entries := (entries st)(op \<mapsto> ?e0)\<rparr>) = by_txid (candidates (entries st))"
    using assms(2) by (simp add: indexed_def)
  let ?st0 = "st\<lparr>entries := (entries st)(op \<mapsto> ?e0), scan_candidates_by_txid := by_txid ?S\<rparr>"
  obtain ms where ms: "adjust_metric Unchecked 1 ?st0 = Some (?st0\<lparr>metrics := ms\<rparr>)"
      "meters ms (?f(0 := ?f 0 + 1))"
    using adjust_metric_bucket_ok [OF status_bucket_less, of Unchecked "tip st" 1 ?st0] assms(1)
    by (auto simp: adjust_metric_def metered_def)
  have fin: "finite (dom (entries st))" using assms(1) by (simp add: metered_def)
  have w: "wcount ((entries st)(op \<mapsto> ?e1)) (\<lambda>_. tip st) = ?f(0 := ?f 0 + 1)"
    by (rule wcount_insert [OF fin None]) simp
  let ?st = "st\<lparr>entries := (entries st)(op \<mapsto> ?e1), scan_candidates_by_txid := by_txid ?S,
    metrics := ms, request_outpoints := (request_outpoints st)(r \<mapsto> op)\<rparr>"
  have "insert_request r op st = Some ?st"
    using ms(1) by (simp add: insert_request_def None by_txid_insert [OF i])
  moreover have "metered ?st" using assms(1) fin w ms(2) by (auto simp: metered_def discovery_ok_def)
  ultimately show ?thesis using None by (auto simp: indexed_def candidates_upd)
next
  case (Some e)
  let ?E = "(entries st)(op \<mapsto> e\<lparr>requests := insert r (requests e)\<rparr>)"
  have "wcount ?E (\<lambda>_. tip st) = wcount (entries st) (\<lambda>_. tip st)"
    by (rule wcount_same_statuses) (simp add: Some)
  moreover have "candidates ?E = candidates (entries st)" using Some by (auto simp: candidates_def)
  ultimately show ?thesis using assms Some
    by (auto simp: insert_request_def metered_def indexed_def discovery_ok_def)
qed

lemma ran_map_upd_None: "ran (m(r := None)) \<subseteq> ran m"
  by (auto simp: ran_def split: if_splits)

lemma state_remove_request_ok:
  assumes "tracker_ok st"
  shows "\<exists>st'. state_remove_request r st = Some (st', request_outpoints st r \<noteq> None) \<and> tracker_ok st'
    \<and> tip st' = tip st \<and> bitcoin_generation st' = bitcoin_generation st
    \<and> next_discovery_id st' = next_discovery_id st
    \<and> request_outpoints st' = (request_outpoints st)(r := None)
    \<and> (\<forall>op e'. entries st' op = Some e' \<longrightarrow>
        (\<exists>e. entries st op = Some e \<and> status e' = status e \<and> discovery_id e' = discovery_id e))"
proof (cases "request_outpoints st r")
  case None
  have "(request_outpoints st)(r := None) = request_outpoints st" using None by auto
  then show ?thesis using None assms
    by (auto simp: state_remove_request_def)
next
  case (Some op)
  have l: "linked st" "metered st" "indexed st" using assms by (simp_all add: tracker_ok_def)
  obtain e where e: "entries st op = Some e"
    using l(1) ranI [of "request_outpoints st" r op] Some unfolding linked_def by blast
  define R where "R = (request_outpoints st)(r := None)"
  let ?e = "e\<lparr>requests := requests e - {r}\<rparr>"
  let ?st1 = "st\<lparr>request_outpoints := R, entries := (entries st)(op \<mapsto> ?e)\<rparr>"
  have "wcount ((entries st)(op \<mapsto> ?e)) (\<lambda>_. tip st) = wcount (entries st) (\<lambda>_. tip st)"
    by (rule wcount_same_statuses) (simp add: e)
  then have m1: "metered ?st1" using l(2) e by (auto simp: metered_def discovery_ok_def)
  have "candidates ((entries st)(op \<mapsto> ?e)) = candidates (entries st)"
    using e by (auto simp: candidates_def)
  then have i1: "indexed ?st1" using l(3) by (simp add: indexed_def)
  have req: "requests ?e = {q. R q = Some op}"
    using l(1) e by (auto simp: linked_def R_def)
  have fin: "finite (dom R)" using l(1) by (simp add: linked_def R_def)
  have other: "requests e' = {s. R s = Some q} \<and> requests e' \<noteq> {}"
    if "q \<noteq> op" "entries st q = Some e'" for q e'
  proof -
    have "requests e' = {s. request_outpoints st s = Some q} \<and> requests e' \<noteq> {}"
      using l(1) that(2) unfolding linked_def by blast
    moreover have "{s. R s = Some q} = {s. request_outpoints st s = Some q}"
      using that(1) Some by (auto simp: R_def)
    ultimately show ?thesis by metis
  qed
  show ?thesis
  proof (cases "requests ?e = {}")
    case True
    obtain st' where st': "remove_entry op ?st1 = Some st'" "metered st'" "indexed st'"
        "same_frame ?st1 st'" "entries st' = (entries ?st1)(op := None)"
      using remove_entry_ok [OF m1 i1, of op ?e] by auto
    have "linked st'" unfolding linked_def
    proof (intro conjI allI impI)
      show "finite (dom (request_outpoints st'))" using st'(4) fin by (simp add: same_frame_def)
      show "ran (request_outpoints st') \<subseteq> dom (entries st')"
      proof
        fix x assume "x \<in> ran (request_outpoints st')"
        then obtain q where q: "R q = Some x" using st'(4) by (auto simp: same_frame_def ran_def)
        then have "request_outpoints st q = Some x" by (auto simp: R_def split: if_splits)
        then have "x \<in> dom (entries st)" 
          using l(1) ranI [of "request_outpoints st" q x] unfolding linked_def by blast
        moreover have "x \<noteq> op" using q req True by auto
        ultimately show "x \<in> dom (entries st')" by (simp add: st'(5))
      qed
      fix q e' assume "entries st' q = Some e'"
      then have "q \<noteq> op" "entries st q = Some e'" using st'(5) by (auto split: if_splits)
      then show "requests e' = {r. request_outpoints st' r = Some q}" "requests e' \<noteq> {}"
        using other [of q e'] st'(4) by (auto simp: same_frame_def)
    qed
    then have ok: "tracker_ok st'" using st'(2,3) by (simp add: tracker_ok_def)
    have "state_remove_request r st = Some (st', True)"
      using Some e True st'(1) by (simp add: state_remove_request_def Let_def R_def)
    moreover have "\<exists>e. entries st q = Some e \<and> status e' = status e \<and> discovery_id e' = discovery_id e"
      if "entries st' q = Some e'" for q e'
      using that st'(5) by (cases "q = op") simp_all
    ultimately show ?thesis using ok Some st'(4) by (intro exI [of _ st']) (simp add: same_frame_def R_def)
  next
    case False
    have "linked ?st1" unfolding linked_def
    proof (intro conjI allI impI)
      show "finite (dom (request_outpoints ?st1))" using fin by simp
      show "ran (request_outpoints ?st1) \<subseteq> dom (entries ?st1)"
        using l(1) e ran_map_upd_None [of "request_outpoints st" r] by (auto simp: linked_def R_def)
      fix q e' assume "entries ?st1 q = Some e'"
      then show "requests e' = {r. request_outpoints ?st1 r = Some q}" "requests e' \<noteq> {}"
        using other [of q e'] req False by (cases "q = op"; auto)+
    qed
    then have ok: "tracker_ok ?st1" using m1 i1 by (simp add: tracker_ok_def)
    have "state_remove_request r st = Some (?st1, True)"
      using Some e False by (simp add: state_remove_request_def Let_def R_def)
    moreover have "\<exists>e. entries st q = Some e \<and> status e' = status e \<and> discovery_id e' = discovery_id e"
      if "entries ?st1 q = Some e'" for q e'
      using that e by (cases "q = op") auto
    ultimately show ?thesis using ok Some by (intro exI [of _ ?st1]) (simp add: R_def)
  qed
qed

end
