(* ===== verification/Deposit_Tracker_Ops.thy ===== *)
theory Deposit_Tracker_Ops
  imports Deposit_Tracker_Inv
begin

text \<open>
  The public operations of the deposit tracker keep the invariant, do not panic, and
  change the entries as specified.
\<close>

section \<open>Discovery ids\<close>

text \<open>After an operation every discovery id in use was in use before at the same outpoint or
  is newly issued.\<close>

definition ids_from :: "TrackerState \<Rightarrow> TrackerState \<Rightarrow> bool" where
  "ids_from st st' \<longleftrightarrow> next_discovery_id st \<le> next_discovery_id st'
    \<and> (\<forall>op e' did. entries st' op = Some e' \<and> discovery_id e' = Some did \<longrightarrow>
        (\<exists>e. entries st op = Some e \<and> discovery_id e = Some did) \<or> next_discovery_id st \<le> did)"

lemma ids_from_refl [simp]: "ids_from st st"
  by (auto simp: ids_from_def)

lemma ids_from_sameI:
  assumes "next_discovery_id st' = next_discovery_id st"
    and "\<And>op e' did. entries st' op = Some e' \<Longrightarrow> discovery_id e' = Some did \<Longrightarrow>
      \<exists>e. entries st op = Some e \<and> discovery_id e = Some did"
  shows "ids_from st st'"
  unfolding ids_from_def
proof (intro conjI allI impI)
  show "next_discovery_id st \<le> next_discovery_id st'" by (simp add: assms(1))
  fix op e' did assume "entries st' op = Some e' \<and> discovery_id e' = Some did"
  then show "(\<exists>e. entries st op = Some e \<and> discovery_id e = Some did) \<or> next_discovery_id st \<le> did"
    using assms(2) by blast
qed

section \<open>Requests\<close>

lemma linkedD: "linked st \<Longrightarrow> entries st op = Some e \<Longrightarrow> requests e = {r. request_outpoints st r = Some op}"
  by (simp add: linked_def)

lemma linked_nonempty: "linked st \<Longrightarrow> entries st op = Some e \<Longrightarrow> \<exists>r. request_outpoints st r = Some op"
  unfolding linked_def by blast

lemma linkedI:
  assumes "finite (dom (request_outpoints st))"
    and "\<And>r op. request_outpoints st r = Some op \<Longrightarrow> entries st op \<noteq> None"
    and "\<And>op e. entries st op = Some e \<Longrightarrow> requests e = {r. request_outpoints st r = Some op}"
    and "\<And>op e. entries st op = Some e \<Longrightarrow> \<exists>r. request_outpoints st r = Some op"
  shows "linked st"
  unfolding linked_def
proof (intro conjI allI impI)
  show "ran (request_outpoints st) \<subseteq> dom (entries st)" using assms(2) by (auto simp: ran_def)
  show "requests e = {r. request_outpoints st r = Some op}" if "entries st op = Some e" for op e
    by (rule assms(3) [OF that])
  show "requests e \<noteq> {}" if "entries st op = Some e" for op e
    using assms(3,4) [OF that] by blast
qed (rule assms(1))

lemma linked_tracked: "linked st \<Longrightarrow> request_outpoints st r = Some op \<Longrightarrow> \<exists>e. entries st op = Some e"
  unfolding linked_def using ranI [of "request_outpoints st" r op] by blast

lemma linked_insert:
  assumes l: "linked st" and r: "request_outpoints st r = None"
    and R: "request_outpoints st' = (request_outpoints st)(r \<mapsto> op)"
    and E: "entries st' = (entries st)(op \<mapsto> (case entries st op of
          None \<Rightarrow> \<lparr>requests = {r}, status = Unchecked, discovery_id = None\<rparr>
        | Some e \<Rightarrow> e\<lparr>requests := insert r (requests e)\<rparr>))"
  shows "linked st'"
proof (rule linkedI)
  show "finite (dom (request_outpoints st'))" using l by (simp add: R linked_def)
  show "entries st' q \<noteq> None" if "request_outpoints st' s = Some q" for s q
    using that linked_tracked [OF l, of s q] by (cases "s = r"; cases "q = op") (simp_all add: R E)
  fix q e assume q: "entries st' q = Some e"
  show "\<exists>s. request_outpoints st' s = Some q"
  proof (cases "q = op")
    case False
    then obtain s where "request_outpoints st s = Some q"
      using linked_nonempty [OF l, of q e] q by (auto simp: E)
    then show ?thesis using r by (intro exI [of _ s]) (auto simp: R)
  qed (auto simp: R)
  show "requests e = {s. request_outpoints st' s = Some q}"
  proof (cases "q = op")
    case True
    show ?thesis
    proof (cases "entries st op")
      case None
      then have "request_outpoints st s \<noteq> Some op" for s using linked_tracked [OF l, of s op] by auto
      then have "{s. request_outpoints st' s = Some op} = {r}" by (auto simp: R)
      moreover have "e = \<lparr>requests = {r}, status = Unchecked, discovery_id = None\<rparr>"
        using q True None by (simp add: E)
      ultimately show ?thesis by (simp add: True)
    next
      case (Some e0)
      have "{s. request_outpoints st' s = Some op} = insert r {s. request_outpoints st s = Some op}"
        using r by (auto simp: R)
      moreover have "e = e0\<lparr>requests := insert r (requests e0)\<rparr>" using q True Some by (simp add: E)
      ultimately show ?thesis by (simp add: True linkedD [OF l Some])
    qed
  next
    case False
    have "{s. request_outpoints st' s = Some q} = {s. request_outpoints st s = Some q}"
      using r False by (auto simp: R)
    then show ?thesis using linkedD [OF l, of q e] q False by (simp add: E)
  qed
qed

lemma upsert_request_ok:
  assumes ok: "tracker_ok (inner d)"
  shows "\<exists>d'. upsert_request r op d = Some d' \<and> tracker_ok (inner d') \<and> ids_from (inner d) (inner d')
    \<and> request_outpoints (inner d') = (request_outpoints (inner d))(r \<mapsto> op)"
proof (cases "request_outpoints (inner d) r = Some op")
  case True
  then have "(request_outpoints (inner d))(r \<mapsto> op) = request_outpoints (inner d)" by auto
  then show ?thesis using True ok by (simp add: upsert_request_def)
next
  case False
  obtain st1 b where st1: "state_remove_request r (inner d) = Some (st1, b)" "tracker_ok st1"
      "next_discovery_id st1 = next_discovery_id (inner d)"
      "request_outpoints st1 = (request_outpoints (inner d))(r := None)"
      "\<forall>op e'. entries st1 op = Some e' \<longrightarrow> (\<exists>e. entries (inner d) op = Some e
        \<and> status e' = status e \<and> discovery_id e' = discovery_id e)"
    using state_remove_request_ok [OF ok, of r] by blast
  have m: "metered st1" "indexed st1" "linked st1" using st1(2) by (simp_all add: tracker_ok_def)
  obtain st2 where st2: "insert_request r op st1 = Some st2" "metered st2" "indexed st2"
      "next_discovery_id st2 = next_discovery_id st1"
      "request_outpoints st2 = (request_outpoints st1)(r \<mapsto> op)"
      "entries st2 = (entries st1)(op \<mapsto> (case entries st1 op of
          None \<Rightarrow> \<lparr>requests = {r}, status = Unchecked, discovery_id = None\<rparr>
        | Some e \<Rightarrow> e\<lparr>requests := insert r (requests e)\<rparr>))"
    using insert_request_ok [OF m(1,2), of r op] by blast
  have "linked st2" by (rule linked_insert [OF m(3) _ st2(5,6)]) (simp add: st1(4))
  then have t: "tracker_ok st2" using st2 by (simp add: tracker_ok_def)
  have "ids_from (inner d) st2"
  proof (rule ids_from_sameI)
    fix q e' did assume q: "entries st2 q = Some e'" "discovery_id e' = Some did"
    then obtain e1 where e1: "entries st1 q = Some e1" "discovery_id e1 = Some did"
      by (auto simp: st2(6) split: if_splits option.splits)
    from st1(5) e1(1) obtain e where "entries (inner d) q = Some e" "discovery_id e1 = discovery_id e"
      by blast
    then show "\<exists>e. entries (inner d) q = Some e \<and> discovery_id e = Some did" using e1(2) by simp
  qed (simp add: st2 st1)
  then show ?thesis using False st1 st2 t
    by (simp add: upsert_request_def notify_work_def)
qed

lemma remove_request_ok:
  assumes ok: "tracker_ok (inner d)"
  shows "\<exists>d'. remove_request r d = Some d' \<and> tracker_ok (inner d') \<and> ids_from (inner d) (inner d')
    \<and> request_outpoints (inner d') = (request_outpoints (inner d))(r := None)"
proof -
  obtain st1 b where st1: "state_remove_request r (inner d) = Some (st1, b)" "tracker_ok st1"
      "next_discovery_id st1 = next_discovery_id (inner d)"
      "request_outpoints st1 = (request_outpoints (inner d))(r := None)"
      "\<forall>op e'. entries st1 op = Some e' \<longrightarrow> (\<exists>e. entries (inner d) op = Some e
        \<and> status e' = status e \<and> discovery_id e' = discovery_id e)"
    using state_remove_request_ok [OF ok, of r] by blast
  have "ids_from (inner d) st1"
  proof (rule ids_from_sameI [OF st1(3)])
    fix q e' did assume q: "entries st1 q = Some e'" "discovery_id e' = Some did"
    from st1(5) q(1) obtain e where "entries (inner d) q = Some e" "discovery_id e' = discovery_id e"
      by blast
    then show "\<exists>e. entries (inner d) q = Some e \<and> discovery_id e = Some did" using q(2) by simp
  qed
  then show ?thesis using st1 by (simp add: remove_request_def notify_work_def)
qed

subsection \<open>Replacing all requests\<close>

definition grouped :: "(Address \<rightharpoonup> OutPoint) \<Rightarrow> OutPoint \<rightharpoonup> Address set" where
  "grouped desired op = (if {r. desired r = Some op} = {} then None else Some {r. desired r = Some op})"

lemma fold_grouped:
  "set rs \<subseteq> dom desired \<Longrightarrow>
   fold (\<lambda>request m. case desired request of
         None \<Rightarrow> m
       | Some outpoint \<Rightarrow>
           m(outpoint \<mapsto> insert request (case m outpoint of None \<Rightarrow> {} | Some s \<Rightarrow> s))) rs
     (grouped (desired |` A)) = grouped (desired |` (A \<union> set rs))"
proof (induction rs arbitrary: A)
  case (Cons r rs)
  obtain op where op: "desired r = Some op" using Cons.prems by auto
  have new: "{s. (desired |` insert r A) s = Some q} =
      (if q = op then insert r {s. (desired |` A) s = Some q} else {s. (desired |` A) s = Some q})" for q
    using op by (auto simp: restrict_map_def)
  have "(grouped (desired |` A))(op \<mapsto> insert r (case grouped (desired |` A) op of None \<Rightarrow> {} | Some s \<Rightarrow> s))
      = grouped (desired |` insert r A)"
    unfolding grouped_def new by (auto simp: fun_eq_iff)
  then show ?case using Cons by (simp add: op)
qed simp

lemma desired_by_outpoint_grouped:
  assumes "enumerates order" "finite (dom desired)"
  shows "desired_by_outpoint order desired = grouped desired"
proof -
  have o: "set (order (dom desired)) = dom desired" using enumeratesD [OF assms] by simp
  have "grouped (desired |` {}) = Map.empty" by (simp add: grouped_def fun_eq_iff)
  moreover have "desired |` dom desired = desired" by (auto simp: restrict_map_def dom_def fun_eq_iff)
  ultimately show ?thesis
    using fold_grouped [of "order (dom desired)" desired "{}"] o by (simp add: desired_by_outpoint_def)
qed

lemma install_requests_ok:
  assumes "metered st" "by_op op = Some R"
  shows "\<exists>st'. install_requests by_op op st = Some st' \<and> metered st' \<and> same_frame st st'
    \<and> entries st' = (entries st)(op := Some (case entries st op of
          None \<Rightarrow> \<lparr>requests = R, status = Unchecked, discovery_id = None\<rparr>
        | Some e \<Rightarrow> e\<lparr>requests := R\<rparr>))"
proof (cases "entries st op")
  case None
  let ?e = "\<lparr>requests = R, status = Unchecked, discovery_id = None\<rparr>"
  let ?f = "wcount (entries st) (\<lambda>_. tip st)"
  have fin: "finite (dom (entries st))" using assms(1) by (simp add: metered_def)
  obtain ms where ms: "adjust_metric Unchecked 1 st = Some (st\<lparr>metrics := ms\<rparr>)"
      "meters ms (?f(0 := ?f 0 + 1))"
    using adjust_metric_bucket_ok [OF status_bucket_less, of Unchecked "tip st" 1 st] assms(1)
    by (auto simp: adjust_metric_def metered_def)
  have w: "wcount ((entries st)(op \<mapsto> ?e)) (\<lambda>_. tip st) = ?f(0 := ?f 0 + 1)"
    by (rule wcount_insert [OF fin None]) simp
  show ?thesis using assms None ms fin w
    by (auto simp: install_requests_def metered_def discovery_ok_def same_frame_def)
next
  case (Some e)
  have "wcount ((entries st)(op \<mapsto> e\<lparr>requests := R\<rparr>)) (\<lambda>_. tip st) = wcount (entries st) (\<lambda>_. tip st)"
    by (rule wcount_same_statuses) (simp add: Some)
  then show ?thesis using assms Some
    by (auto simp: install_requests_def metered_def discovery_ok_def same_frame_def)
qed

lemma fold_insert_scan_candidate:
  "scan_candidates_by_txid st = by_txid S \<Longrightarrow>
    fold insert_scan_candidate ops st = st\<lparr>scan_candidates_by_txid := by_txid (S \<union> set ops)\<rparr>"
proof (induction ops arbitrary: st S)
  case (Cons op ops)
  then show ?case using Cons.IH [of "insert_scan_candidate op st" "insert op S"]
    by (simp add: by_txid_insert [OF Cons.prems])
qed simp

lemma rebuild_ok:
  assumes "enumerates order" "finite (dom (entries st))"
  shows "rebuild_scan_candidate_index order st =
    st\<lparr>scan_candidates_by_txid := by_txid (candidates (entries st))\<rparr>"
proof -
  let ?ops = "filter (\<lambda>op. case entries st op of
           None \<Rightarrow> False | Some e \<Rightarrow> is_scan_candidate (status e)) (order (dom (entries st)))"
  have "set ?ops = candidates (entries st)"
    using enumeratesD [OF assms] by (auto simp: candidates_def split: option.splits)
  moreover have "by_txid {} = Map.empty" by (simp add: by_txid_def fun_eq_iff)
  ultimately show ?thesis
    using fold_insert_scan_candidate [of "st\<lparr>scan_candidates_by_txid := Map.empty\<rparr>" "{}" ?ops]
    by (simp add: rebuild_scan_candidate_index_def Let_def)
qed

lemma grouped_Some: "grouped desired op = Some R \<longleftrightarrow> R = {r. desired r = Some op} \<and> (\<exists>r. desired r = Some op)"
  by (auto simp: grouped_def)

lemma grouped_None: "grouped desired op = None \<longleftrightarrow> (\<forall>r. desired r \<noteq> Some op)"
  by (auto simp: grouped_def)

lemma dom_grouped: "dom (grouped desired) = ran desired"
  by (auto simp: grouped_def dom_def ran_def)

text \<open>The entries after the requests are replaced: the desired outpoints, each with its
  requests; an outpoint that stays tracked keeps its status and discovery.\<close>

definition replaced_entries ::
  "(Address \<rightharpoonup> OutPoint) \<Rightarrow> (OutPoint \<rightharpoonup> Entry) \<Rightarrow> OutPoint \<rightharpoonup> Entry" where
  "replaced_entries desired E op =
    (case grouped desired op of
       None \<Rightarrow> None
     | Some R \<Rightarrow> Some (case E op of
           None \<Rightarrow> \<lparr>requests = R, status = Unchecked, discovery_id = None\<rparr>
         | Some e \<Rightarrow> e\<lparr>requests := R\<rparr>))"

lemma linked_replaced:
  assumes "finite (dom desired)" "request_outpoints st = desired"
    "entries st = replaced_entries desired E"
  shows "linked st"
proof (rule linkedI)
  show "finite (dom (request_outpoints st))" using assms by simp
  show "entries st op \<noteq> None" if "request_outpoints st r = Some op" for r op
    using that grouped_None [of desired op] by (auto simp: assms replaced_entries_def split: option.splits)
  fix op e assume e: "entries st op = Some e"
  then obtain R where R: "grouped desired op = Some R" "requests e = R"
    by (auto simp: assms replaced_entries_def split: option.splits)
  then show "requests e = {r. request_outpoints st r = Some op}"
      "\<exists>r. request_outpoints st r = Some op"
    by (simp_all add: grouped_Some assms)
qed

lemma replace_requests_ok:
  assumes ok: "tracker_ok (inner d)"
    and ord: "enumerates oa" "enumerates o1" "enumerates o2" "enumerates o3"
  shows "\<exists>d'. replace_requests oa o1 o2 o3 reqs d = Some d' \<and> tracker_ok (inner d')
    \<and> ids_from (inner d) (inner d') \<and> request_outpoints (inner d') = map_of (rev reqs)"
proof (cases "request_outpoints (inner d) = map_of (rev reqs)")
  case True
  then show ?thesis using ok by (simp add: replace_requests_def)
next
  case False
  let ?st = "inner d" and ?des = "map_of (rev reqs)"
  have fin_des: "finite (dom ?des)" by (rule finite_dom_map_of)
  have by_op: "desired_by_outpoint oa ?des = grouped ?des"
    by (rule desired_by_outpoint_grouped [OF ord(1) fin_des])
  have m: "metered ?st" "indexed ?st" using ok by (simp_all add: tracker_ok_def)
  have fin: "finite (dom (entries ?st))" using m by (simp add: metered_def)
  let ?rem = "filter (\<lambda>op. grouped ?des op = None) (o1 (dom (entries ?st)))"
  have rem: "distinct ?rem" "set ?rem = {op \<in> dom (entries ?st). grouped ?des op = None}"
    using enumeratesD [OF ord(2) fin] by auto
  have "\<exists>s'. for_each remove_entry ?rem ?st = Some s' \<and> (metered s' \<and> indexed s') \<and> same_frame ?st s'
    \<and> entries s' = (\<lambda>op. if op \<in> set ?rem then (\<lambda>_ _. None) op (entries ?st op) else entries ?st op)"
  proof (rule for_each_pointwise [where v = "\<lambda>s. s" and Q = "\<lambda>_ x. x \<noteq> None"])
    fix x s assume "metered s \<and> indexed s" "entries s x \<noteq> None"
    then show "\<exists>s'. remove_entry x s = Some s' \<and> (metered s' \<and> indexed s') \<and> same_frame s s'
        \<and> entries s' = (entries s)(x := None)"
      using remove_entry_ok [of s x] by auto
  qed (use m rem in auto)
  then obtain st1 where st1: "for_each remove_entry ?rem ?st = Some st1" "metered st1" "same_frame ?st st1"
    "entries st1 = (\<lambda>op. if op \<in> set ?rem then None else entries ?st op)" by auto
  have fin_g: "finite (dom (grouped ?des))" unfolding dom_grouped by (rule finite_ran [OF fin_des])
  let ?inst = "o2 (dom (grouped ?des))"
  have inst: "distinct ?inst" "set ?inst = dom (grouped ?des)" using enumeratesD [OF ord(3) fin_g] by auto
  let ?h = "\<lambda>op eo. Some (case eo of
          None \<Rightarrow> \<lparr>requests = the (grouped ?des op), status = Unchecked, discovery_id = None\<rparr>
        | Some e \<Rightarrow> e\<lparr>requests := the (grouped ?des op)\<rparr>)"
  have "\<exists>s'. for_each (install_requests (grouped ?des)) ?inst st1 = Some s' \<and> metered s' \<and> same_frame st1 s'
    \<and> entries s' = (\<lambda>op. if op \<in> set ?inst then ?h op (entries st1 op) else entries st1 op)"
  proof (rule for_each_pointwise [where v = "\<lambda>s. s" and Q = "\<lambda>_ _. True"])
    fix x s assume "x \<in> set ?inst" "metered s"
    then obtain R where R: "grouped ?des x = Some R" using inst(2) by auto
    then have the_R: "the (grouped ?des x) = R" by simp
    show "\<exists>s'. install_requests (grouped ?des) x s = Some s' \<and> metered s' \<and> same_frame s s'
        \<and> entries s' = (entries s)(x := ?h x (entries s x))"
      using install_requests_ok [of s "grouped ?des" x R, OF \<open>metered s\<close> R] unfolding the_R .
  qed (use st1 inst in auto)
  then obtain st2 where st2: "for_each (install_requests (grouped ?des)) ?inst st1 = Some st2" "metered st2"
    "same_frame st1 st2"
    "entries st2 = (\<lambda>op. if op \<in> set ?inst then ?h op (entries st1 op) else entries st1 op)" by blast
  have E: "entries st2 = replaced_entries ?des (entries ?st)"
  proof
    fix op
    show "entries st2 op = replaced_entries ?des (entries ?st) op"
    proof (cases "grouped ?des op")
      case None
      then have "op \<notin> set ?inst" using inst(2) by auto
      then show ?thesis using None rem(2) by (auto simp: st2(4) st1(4) replaced_entries_def)
    next
      case (Some R)
      then have "op \<in> set ?inst" "op \<notin> set ?rem" using inst(2) by auto
      then show ?thesis using Some
        by (cases "entries ?st op") (simp_all add: st2(4) st1(4) replaced_entries_def)
    qed
  qed
  define st3 where "st3 = st2\<lparr>request_outpoints := ?des,
    scan_candidates_by_txid := by_txid (candidates (entries st2))\<rparr>"
  have fin2: "finite (dom (entries st2))" using st2(2) by (simp add: metered_def)
  have "rebuild_scan_candidate_index o3 (st2\<lparr>request_outpoints := ?des\<rparr>) = st3"
    using rebuild_ok [OF ord(4), of "st2\<lparr>request_outpoints := ?des\<rparr>"] fin2 by (simp add: st3_def)
  then have r: "replace_requests oa o1 o2 o3 reqs d = Some (notify_work (d\<lparr>inner := st3\<rparr>))"
    using False by (simp add: replace_requests_def by_op st1(1) st2(1) Let_def del: for_each.simps)
  have "metered st3" using st2(2) by (auto simp: st3_def metered_def discovery_ok_def)
  moreover have "linked st3" by (rule linked_replaced [OF fin_des]) (simp_all add: st3_def E)
  moreover have "indexed st3" by (simp add: st3_def indexed_def)
  ultimately have "tracker_ok st3" by (simp add: tracker_ok_def)
  moreover have "ids_from ?st st3"
  proof (rule ids_from_sameI)
    show "next_discovery_id st3 = next_discovery_id ?st"
      using st1(3) st2(3) by (simp add: st3_def same_frame_def)
    fix op e' did assume "entries st3 op = Some e'" "discovery_id e' = Some did"
    then show "\<exists>e. entries ?st op = Some e \<and> discovery_id e = Some did"
      by (auto simp: st3_def E replaced_entries_def split: option.splits)
  qed
  ultimately show ?thesis by (simp add: r notify_work_def) (simp add: st3_def)
qed

end
