(* ===== verification/Deposit_Tracker_Chain.thy ===== *)
theory Deposit_Tracker_Chain
  imports Deposit_Tracker_Ops
begin

text \<open>
  The operations of the deposit tracker that follow the Bitcoin chain (blocks, the tip,
  reorganisations, resets) and the discovery of outpoints keep the invariant and change
  the entries as specified.
\<close>

section \<open>Frames\<close>

lemma linked_cong:
  assumes "linked st" "request_outpoints st' = request_outpoints st"
    "\<And>op. map_option requests (entries st' op) = map_option requests (entries st op)"
  shows "linked st'"
proof (rule linkedI)
  have same: "(\<exists>e'. entries st' op = Some e' \<and> requests e' = requests e)"
    if "entries st op = Some e" for op e
    using assms(3) [of op] that by (cases "entries st' op") auto
  have conv: "(\<exists>e. entries st op = Some e \<and> requests e = requests e')"
    if "entries st' op = Some e'" for op e'
    using assms(3) [of op] that by (cases "entries st op") auto
  show "finite (dom (request_outpoints st'))" using assms(1,2) by (simp add: linked_def)
  show "entries st' op \<noteq> None" if "request_outpoints st' r = Some op" for r op
    using linked_tracked [OF assms(1), of r op] that assms(2) same by fastforce
  fix op e' assume e': "entries st' op = Some e'"
  then obtain e where e: "entries st op = Some e" "requests e = requests e'" using conv by blast
  show "requests e' = {r. request_outpoints st' r = Some op}"
    using linkedD [OF assms(1) e(1)] e(2) assms(2) by simp
  show "\<exists>r. request_outpoints st' r = Some op"
    using linked_nonempty [OF assms(1) e(1)] assms(2) by simp
qed

lemma metered_cong:
  assumes "metered st" "metrics st' = metrics st" "tip st' = tip st"
    "next_discovery_id st \<le> next_discovery_id st'"
    "\<And>op. map_option status (entries st' op) = map_option status (entries st op)"
    "\<And>op e' did. entries st' op = Some e' \<Longrightarrow> discovery_id e' = Some did \<Longrightarrow>
      status e' = Unchecked \<and> did < next_discovery_id st'"
  shows "metered st'"
proof -
  have "wcount (entries st') (\<lambda>_. tip st) = wcount (entries st) (\<lambda>_. tip st)"
    by (rule wcount_same_statuses) (rule assms(5))
  moreover have "entries st' op = None \<longleftrightarrow> entries st op = None" for op
    using assms(5) [of op] by (metis map_option_is_None)
  then have "dom (entries st') = dom (entries st)" by (simp add: dom_def)
  ultimately show ?thesis using assms by (auto simp: metered_def discovery_ok_def)
qed

lemma candidates_cong:
  "(\<And>op. map_option status (E op) = map_option status (E' op)) \<Longrightarrow> candidates E = candidates E'"
proof -
  assume a: "\<And>op. map_option status (E op) = map_option status (E' op)"
  have "(\<exists>e. E op = Some e \<and> is_scan_candidate (status e)) \<longleftrightarrow>
      (\<exists>e. E' op = Some e \<and> is_scan_candidate (status e))" for op
    using a [of op] by (cases "E op"; cases "E' op") auto
  then show ?thesis by (simp add: candidates_def)
qed

lemma wcount_tip_cong:
  assumes "\<And>op e. E op = Some e \<Longrightarrow> status_bucket (status e) (T op) = status_bucket (status e) (T' op)"
  shows "wcount E T = wcount E T'"
proof
  fix b
  have "{op. \<exists>e. E op = Some e \<and> status_bucket (status e) (T op) = b}
      = {op. \<exists>e. E op = Some e \<and> status_bucket (status e) (T' op) = b}"
    using assms by auto
  then show "wcount E T b = wcount E T' b" by (simp only: wcount_def)
qed

section \<open>Generations\<close>

lemma bump_ok:
  assumes ok: "tracker_ok st" and room: "bitcoin_generation st \<noteq> - 1"
  shows "\<exists>st'. bump_bitcoin_generation st = Some st' \<and> tracker_ok st'
    \<and> bitcoin_generation st' = bitcoin_generation st + 1
    \<and> unat (bitcoin_generation st') = unat (bitcoin_generation st) + 1
    \<and> tip st' = tip st \<and> next_discovery_id st' = next_discovery_id st
    \<and> request_outpoints st' = request_outpoints st
    \<and> entries st' = (\<lambda>op. map_option (\<lambda>e. e\<lparr>discovery_id := None\<rparr>) (entries st op))"
proof -
  let ?E = "\<lambda>op. map_option (\<lambda>e. e\<lparr>discovery_id := None\<rparr>) (entries st op)"
  let ?st = "st\<lparr>bitcoin_generation := bitcoin_generation st + 1, entries := ?E\<rparr>"
  have s: "map_option status (?E op) = map_option status (entries st op)"
    "map_option requests (?E op) = map_option requests (entries st op)" for op
    by (cases "entries st op"; simp)+
  have "unat (bitcoin_generation st) \<noteq> 2 ^ 64 - 1"
    using room by (simp add: word_unat_eq_iff unat_max_word)
  then have "unat (bitcoin_generation st) + 1 < 2 ^ 64"
    using unat_u64_less [of "bitcoin_generation st"] by linarith
  then have b: "bump_bitcoin_generation st = Some ?st" "unat (bitcoin_generation ?st) = unat (bitcoin_generation st) + 1"
    by (simp_all add: bump_bitcoin_generation_def checked_add_def unat_word_ariths)
  have m: "metered st" "indexed st" "linked st" using ok by (simp_all add: tracker_ok_def)
  have "metered ?st" by (rule metered_cong [OF m(1)]) (auto simp: s)
  moreover have "indexed ?st" using m(2) candidates_cong [of ?E "entries st"] s by (simp add: indexed_def)
  moreover have "linked ?st" by (rule linked_cong [OF m(3)]) (simp_all add: s)
  ultimately show ?thesis using b by (simp add: tracker_ok_def)
qed

lemma reset_bitcoin_state_ok:
  assumes ok: "tracker_ok (inner d)" and room: "bitcoin_generation (inner d) \<noteq> - 1"
    and ord: "enumerates order"
  shows "\<exists>d'. reset_bitcoin_state order d = Some d' \<and> tracker_ok (inner d')
    \<and> unat (bitcoin_generation (inner d')) = unat (bitcoin_generation (inner d)) + 1
    \<and> next_discovery_id (inner d') = next_discovery_id (inner d)
    \<and> request_outpoints (inner d') = request_outpoints (inner d) \<and> tip (inner d') = None
    \<and> entries (inner d') = (\<lambda>op. map_option (\<lambda>e. e\<lparr>status := Unchecked, discovery_id := None\<rparr>)
        (entries (inner d) op))"
proof -
  obtain st1 where st1: "bump_bitcoin_generation (inner d) = Some st1" "tracker_ok st1"
      "unat (bitcoin_generation st1) = unat (bitcoin_generation (inner d)) + 1"
      "next_discovery_id st1 = next_discovery_id (inner d)"
      "request_outpoints st1 = request_outpoints (inner d)"
      "entries st1 = (\<lambda>op. map_option (\<lambda>e. e\<lparr>discovery_id := None\<rparr>) (entries (inner d) op))"
    using bump_ok [OF ok room] by blast
  have m: "metered st1" "indexed st1" "linked st1" using st1(2) by (simp_all add: tracker_ok_def)
  let ?xs = "order (dom (entries st1))"
  have fin: "finite (dom (entries st1))" using m by (simp add: metered_def)
  have xs: "distinct ?xs" "set ?xs = dom (entries st1)" using enumeratesD [OF ord fin] by auto
  let ?h = "\<lambda>op :: OutPoint. map_option (\<lambda>e. e\<lparr>status := Unchecked, discovery_id := None\<rparr>)"
  have "\<exists>s'. for_each reset_entry ?xs st1 = Some s' \<and> (metered s' \<and> indexed s') \<and> same_frame st1 s'
    \<and> entries s' = (\<lambda>op. if op \<in> set ?xs then ?h op (entries st1 op) else entries st1 op)"
  proof (rule for_each_pointwise [where v = "\<lambda>s. s" and Q = "\<lambda>_ x. x \<noteq> None"])
    fix x s assume "metered s \<and> indexed s" "entries s x \<noteq> None"
    then obtain e where "metered s" "indexed s" "entries s x = Some e" by auto
    then show "\<exists>s'. reset_entry x s = Some s' \<and> (metered s' \<and> indexed s') \<and> same_frame s s'
        \<and> entries s' = (entries s)(x := ?h x (entries s x))"
      using reset_entry_ok [of s x e] by auto
  qed (use m xs in auto)
  then obtain st2 where st2: "for_each reset_entry ?xs st1 = Some st2" "metered st2" "indexed st2"
    "same_frame st1 st2"
    "entries st2 = (\<lambda>op. if op \<in> set ?xs then ?h op (entries st1 op) else entries st1 op)" by blast
  have E: "entries st2 = (\<lambda>op. ?h op (entries (inner d) op))"
  proof
    fix op
    show "entries st2 op = ?h op (entries (inner d) op)"
      using xs(2) by (cases "entries (inner d) op") (auto simp: st2(5) st1(6))
  qed
  let ?st = "st2\<lparr>tip := None\<rparr>"
  have "wcount (entries st2) (\<lambda>_. None) = wcount (entries st2) (\<lambda>_. tip st2)"
    by (rule wcount_tip_cong) (auto simp: E)
  then have "metered ?st" using st2(2) by (auto simp: metered_def discovery_ok_def)
  moreover have "indexed ?st" using st2(3) by (simp add: indexed_def)
  moreover have "linked ?st"
  proof (rule linked_cong [OF m(3)])
    show "request_outpoints ?st = request_outpoints st1" using st2(4) by (simp add: same_frame_def)
    fix op show "map_option requests (entries ?st op) = map_option requests (entries st1 op)"
      by (cases "entries (inner d) op") (simp_all add: E st1(6))
  qed
  ultimately have "tracker_ok ?st" by (simp add: tracker_ok_def)
  then show ?thesis using st1 st2 E
    by (simp add: reset_bitcoin_state_def notify_work_def same_frame_def)
qed

text \<open>A reorganisation takes the outpoints of disconnected blocks back to unchecked and ends every
  discovery.\<close>

definition reorged :: "HashCheckpoint list \<Rightarrow> Entry \<Rightarrow> Entry" where
  "reorged disconnected e =
    (if \<exists>c \<in> set disconnected. status_checkpoint (status e) = Some c
     then e\<lparr>status := Unchecked, discovery_id := None\<rparr> else e\<lparr>discovery_id := None\<rparr>)"

lemma requests_reorged [simp]: "requests (reorged dis e) = requests e"
  by (simp add: reorged_def)

lemma apply_reorg_ok:
  assumes ok: "tracker_ok (inner d)" and room: "bitcoin_generation (inner d) \<noteq> - 1"
    and ord: "enumerates order"
  shows "\<exists>d'. apply_reorg order dis d = Some d' \<and> tracker_ok (inner d')
    \<and> unat (bitcoin_generation (inner d')) = unat (bitcoin_generation (inner d)) + 1
    \<and> next_discovery_id (inner d') = next_discovery_id (inner d)
    \<and> request_outpoints (inner d') = request_outpoints (inner d) \<and> tip (inner d') = tip (inner d)
    \<and> entries (inner d') = (\<lambda>op. map_option (reorged dis) (entries (inner d) op))"
proof -
  obtain st1 where st1: "bump_bitcoin_generation (inner d) = Some st1" "tracker_ok st1"
      "unat (bitcoin_generation st1) = unat (bitcoin_generation (inner d)) + 1"
      "tip st1 = tip (inner d)" "next_discovery_id st1 = next_discovery_id (inner d)"
      "request_outpoints st1 = request_outpoints (inner d)"
      "entries st1 = (\<lambda>op. map_option (\<lambda>e. e\<lparr>discovery_id := None\<rparr>) (entries (inner d) op))"
    using bump_ok [OF ok room] by blast
  have m: "metered st1" "indexed st1" "linked st1" using st1(2) by (simp_all add: tracker_ok_def)
  let ?xs = "filter (\<lambda>op. case entries st1 op of
          None \<Rightarrow> False | Some e \<Rightarrow> status_checkpoint (status e) \<noteq> None) (order (dom (entries st1)))"
  let ?Q = "\<lambda>_ x. \<exists>e c. x = Some e \<and> discovery_id e = None \<and> status_checkpoint (status e) = Some c"
  have fin: "finite (dom (entries st1))" using m by (simp add: metered_def)
  have xs: "distinct ?xs" "op \<in> set ?xs \<longleftrightarrow> ?Q op (entries st1 op)" for op
    using enumeratesD [OF ord fin] by (auto simp: st1(7) split: option.splits)
  have "\<exists>s'. for_each (reorg_entry dis) ?xs st1 = Some s' \<and> (metered s' \<and> indexed s') \<and> same_frame st1 s'
    \<and> entries s' = (\<lambda>op. if op \<in> set ?xs then map_option (reorged dis) (entries st1 op) else entries st1 op)"
  proof (rule for_each_pointwise [where v = "\<lambda>s. s" and Q = ?Q])
    fix x s assume "metered s \<and> indexed s" "\<exists>e c. entries s x = Some e \<and> discovery_id e = None
      \<and> status_checkpoint (status e) = Some c"
    then obtain e c where e: "metered s" "indexed s" "entries s x = Some e" "discovery_id e = None"
      "status_checkpoint (status e) = Some c" by auto
    show "\<exists>s'. reorg_entry dis x s = Some s' \<and> (metered s' \<and> indexed s') \<and> same_frame s s'
        \<and> entries s' = (entries s)(x := map_option (reorged dis) (entries s x))"
    proof (cases "c \<in> set dis")
      case True
      then have "reorged dis e = e\<lparr>status := Unchecked, discovery_id := None\<rparr>" using e(5) by (auto simp: reorged_def)
      then show ?thesis using reset_entry_ok [OF e(1,3)] e True by (auto simp: reorg_entry_def)
    next
      case False
      then have "reorged dis e = e" using e(4,5) by (cases e) (auto simp: reorged_def)
      then have "(entries s)(x := map_option (reorged dis) (entries s x)) = entries s" using e(3) by auto
      then show ?thesis using e False by (simp add: reorg_entry_def)
    qed
  qed (use m xs in auto)
  then obtain st2 where st2: "for_each (reorg_entry dis) ?xs st1 = Some st2" "metered st2" "indexed st2"
    "same_frame st1 st2"
    "entries st2 = (\<lambda>op. if op \<in> set ?xs then map_option (reorged dis) (entries st1 op) else entries st1 op)"
    by blast
  have E: "entries st2 = (\<lambda>op. map_option (reorged dis) (entries (inner d) op))"
  proof
    fix op
    show "entries st2 op = map_option (reorged dis) (entries (inner d) op)"
      using xs(2) [of op] by (cases "entries (inner d) op") (auto simp: st2(5) st1(7) reorged_def)
  qed
  have "linked st2"
  proof (rule linked_cong [OF m(3)])
    show "request_outpoints st2 = request_outpoints st1" using st2(4) by (simp add: same_frame_def)
    fix op show "map_option requests (entries st2 op) = map_option requests (entries st1 op)"
      by (cases "entries (inner d) op") (simp_all add: E st1(7))
  qed
  then have "tracker_ok st2" using st2 by (simp add: tracker_ok_def)
  then show ?thesis using st1 st2 E
    by (simp add: apply_reorg_def notify_work_def same_frame_def Let_def)
qed

section \<open>The tip\<close>

text \<open>While the loop runs, the outpoints it has passed are counted at the new tip.\<close>

lemma retip_loop:
  assumes "finite (dom (entries st))" "distinct xs"
    and "\<And>op. op \<in> set xs \<Longrightarrow> \<exists>e. entries st op = Some e \<and> is_in_block (status e)"
    and "\<And>op. op \<in> set xs \<Longrightarrow> T op = tip st"
    and "meters (metrics st) (wcount (entries st) T)"
  shows "\<exists>ms. for_each (retip_entry new) xs st = Some (st\<lparr>metrics := ms\<rparr>)
    \<and> meters ms (wcount (entries st) (\<lambda>op. if op \<in> set xs then Some new else T op))"
  using assms
proof (induction xs arbitrary: st T)
  case Nil
  then show ?case by (intro exI [of _ "metrics st"]) simp
next
  case (Cons x xs)
  obtain e where e: "entries st x = Some e" "is_in_block (status e)" using Cons.prems(3) [of x] by auto
  obtain c b out where c: "status e = InBlock c b out" using e(2)
    by (auto simp: is_in_block_def split: DepositStatus.splits)
  let ?T = "T(x := Some new)" and ?f = "wcount (entries st) T"
  let ?b = "status_bucket (status e) (tip st)" and ?b' = "in_block_bucket (height c) (height new)"
  have nb: "status_bucket (status e) (Some new) = ?b'" by (simp add: c)
  have T: "T x = tip st" using Cons.prems(4) by simp
  have "(entries st)(x \<mapsto> e) = entries st" using e(1) by auto
  then have w: "wcount (entries st) ?T = (let f = ?f(?b := ?f ?b - 1) in f(?b' := f ?b' + 1))"
    using wcount_replace [where T = T and T' = ?T and e' = e, OF Cons.prems(1) e(1)] T nb by simp
  have "\<exists>ms. retip_entry new x st = Some (st\<lparr>metrics := ms\<rparr>) \<and> meters ms (wcount (entries st) ?T)"
  proof (cases "?b = ?b'")
    case True
    then have "wcount (entries st) ?T = ?f" by (simp add: w Let_def)
    then show ?thesis using True Cons.prems(5) e(1) c
      by (intro exI [of _ "metrics st"]) (simp add: retip_entry_def Let_def)
  next
    case False
    obtain ms1 where ms1: "adjust_metric_bucket ?b (-1) st = Some (st\<lparr>metrics := ms1\<rparr>)"
        "meters ms1 (?f(?b := ?f ?b - 1))"
      using adjust_metric_bucket_ok [OF status_bucket_less, of "status e" "tip st" "-1" st] Cons.prems(5) by auto
    have "?b' < length CONFIRMATION_STATUS_LABELS"
      using status_bucket_less [of "status e" "Some new"] nb by simp
    then obtain ms2 where "adjust_metric_bucket ?b' 1 (st\<lparr>metrics := ms1\<rparr>) = Some (st\<lparr>metrics := ms2\<rparr>)"
        "meters ms2 (let f = ?f(?b := ?f ?b - 1) in f(?b' := f ?b' + 1))"
      using adjust_metric_bucket_ok [of ?b' 1 "st\<lparr>metrics := ms1\<rparr>"] ms1(2) by (auto simp: Let_def)
    then show ?thesis using False e(1) c ms1(1) w by (auto simp: retip_entry_def Let_def)
  qed
  then obtain ms where ms: "retip_entry new x st = Some (st\<lparr>metrics := ms\<rparr>)" "meters ms (wcount (entries st) ?T)"
    by blast
  have "\<exists>ms'. for_each (retip_entry new) xs (st\<lparr>metrics := ms\<rparr>) = Some (st\<lparr>metrics := ms\<rparr>\<lparr>metrics := ms'\<rparr>)
    \<and> meters ms' (wcount (entries (st\<lparr>metrics := ms\<rparr>)) (\<lambda>op. if op \<in> set xs then Some new else ?T op))"
    by (rule Cons.IH) (use Cons.prems ms(2) in \<open>auto simp: fun_upd_def\<close>)
  moreover have "(\<lambda>op. if op \<in> set xs then Some new else ?T op)
      = (\<lambda>op. if op \<in> set (x # xs) then Some new else T op)" by auto
  ultimately show ?case using ms(1) by simp
qed

lemma set_tip_ok:
  assumes ok: "tracker_ok (inner d)" and ord: "enumerates order"
  shows "\<exists>d'. set_tip order new d = Some d' \<and> tracker_ok (inner d')
    \<and> bitcoin_generation (inner d') = bitcoin_generation (inner d)
    \<and> next_discovery_id (inner d') = next_discovery_id (inner d)
    \<and> request_outpoints (inner d') = request_outpoints (inner d)
    \<and> tip (inner d') = Some new \<and> entries (inner d') = entries (inner d)"
proof (cases "tip (inner d) = Some new")
  case True
  then show ?thesis using ok by (simp add: set_tip_def)
next
  case False
  let ?st = "inner d"
  have m: "metered ?st" "indexed ?st" "linked ?st" using ok by (simp_all add: tracker_ok_def)
  have fin: "finite (dom (entries ?st))" using m by (simp add: metered_def)
  let ?xs = "filter (\<lambda>op. case entries ?st op of None \<Rightarrow> False | Some e \<Rightarrow> is_in_block (status e))
    (order (dom (entries ?st)))"
  have xs: "distinct ?xs" "op \<in> set ?xs \<longleftrightarrow> (\<exists>e. entries ?st op = Some e \<and> is_in_block (status e))" for op
    using enumeratesD [OF ord fin] by (auto split: option.splits)
  obtain ms where ms: "for_each (retip_entry new) ?xs ?st = Some (?st\<lparr>metrics := ms\<rparr>)"
      "meters ms (wcount (entries ?st) (\<lambda>op. if op \<in> set ?xs then Some new else tip ?st))"
    using retip_loop [OF fin xs(1), of "\<lambda>_. tip ?st" new] xs(2) m(1) by (auto simp: metered_def)
  have "wcount (entries ?st) (\<lambda>op. if op \<in> set ?xs then Some new else tip ?st)
      = wcount (entries ?st) (\<lambda>_. Some new)"
  proof (rule wcount_tip_cong)
    fix op e assume e: "entries ?st op = Some e"
    show "status_bucket (status e) (if op \<in> set ?xs then Some new else tip ?st)
        = status_bucket (status e) (Some new)"
    proof (cases "is_in_block (status e)")
      case True then show ?thesis using xs(2) [of op] e by simp
    next
      case False then show ?thesis by (cases "status e") (simp_all add: is_in_block_def)
    qed
  qed
  then have "metered (?st\<lparr>metrics := ms, tip := Some new\<rparr>)"
    using m(1) ms(2) by (auto simp: metered_def discovery_ok_def)
  then have "tracker_ok (?st\<lparr>metrics := ms, tip := Some new\<rparr>)"
    using m(2,3) linked_cong [OF m(3), of "?st\<lparr>metrics := ms, tip := Some new\<rparr>"]
    by (simp add: tracker_ok_def indexed_def)
  then show ?thesis using False ms(1) by (simp add: set_tip_def Let_def notify_work_def)
qed

section \<open>Blocks\<close>

text \<open>What a block does to an entry: the first transaction with the outpoint's id settles it.\<close>

definition settled :: "HashCheckpoint \<Rightarrow> Transaction \<Rightarrow> OutPoint \<Rightarrow> Entry \<Rightarrow> Entry" where
  "settled checkpoint tx op e = e\<lparr>status := block_status checkpoint tx op, discovery_id := None\<rparr>"

definition after_block ::
  "HashCheckpoint \<Rightarrow> (Transaction \<times> Txid) list \<Rightarrow> OutPoint \<Rightarrow> Entry \<Rightarrow> Entry" where
  "after_block checkpoint txs op e =
    (if is_scan_candidate (status e) then
       case find (\<lambda>(tx, txid). txid = op_txid op) txs of
         None \<Rightarrow> e
       | Some (tx, _) \<Rightarrow> settled checkpoint tx op e
     else e)"

lemma block_status_settled [simp]: "\<not> is_scan_candidate (block_status c tx op)"
  by (simp add: block_status_def)

lemma settled_simps [simp]:
  "requests (settled c tx op e) = requests e" "discovery_id (settled c tx op e) = None"
  "\<not> is_scan_candidate (status (settled c tx op e))"
  by (simp_all add: settled_def)

lemma apply_transaction_ok:
  assumes ord: "enumerates order" and m: "metered (fst sc)" "indexed (fst sc)"
  shows "\<exists>sc'. apply_transaction order c (tx, txid) sc = Some sc' \<and> metered (fst sc') \<and> indexed (fst sc')
    \<and> same_frame (fst sc) (fst sc')
    \<and> entries (fst sc') = (\<lambda>op. map_option (after_block c [(tx, txid)] op) (entries (fst sc) op))"
proof -
  let ?st = "fst sc"
  let ?S = "{op \<in> candidates (entries ?st). op_txid op = txid}"
  have fin: "finite ?S"
    by (rule finite_subset [of _ "dom (entries ?st)"]) (use m(1) in \<open>auto simp: metered_def candidates_def\<close>)
  have E: "(\<lambda>op. map_option (after_block c [(tx, txid)] op) (entries ?st op))
    = (\<lambda>op. if op \<in> ?S then map_option (settled c tx op) (entries ?st op) else entries ?st op)"
  proof
    fix op
    show "map_option (after_block c [(tx, txid)] op) (entries ?st op)
      = (if op \<in> ?S then map_option (settled c tx op) (entries ?st op) else entries ?st op)"
      by (cases "entries ?st op") (auto simp: after_block_def candidates_def)
  qed
  show ?thesis
  proof (cases "?S = {}")
    case True
    then have "scan_candidates_by_txid ?st txid = None" using m(2) by (simp add: indexed_def by_txid_def)
    moreover have "(\<lambda>op. map_option (after_block c [(tx, txid)] op) (entries ?st op)) = entries ?st"
      unfolding E True by simp
    ultimately show ?thesis using m by (simp add: apply_transaction_def)
  next
    case False
    then have scan: "scan_candidates_by_txid ?st txid = Some ?S" using m(2) by (simp add: indexed_def by_txid_def)
    have xs: "distinct (order ?S)" "set (order ?S) = ?S" using enumeratesD [OF ord fin] by auto
    let ?f = "\<lambda>op (st, changed). map_option (\<lambda>(st, b). (st, changed \<or> b))
               (transition op (block_status c tx op) st)"
    let ?Q = "\<lambda>_ x. \<exists>e. x = Some e \<and> is_scan_candidate (status e)"
    have "\<exists>s'. for_each ?f (order ?S) sc = Some s' \<and> (metered (fst s') \<and> indexed (fst s'))
      \<and> same_frame (fst sc) (fst s')
      \<and> entries (fst s') = (\<lambda>op. if op \<in> set (order ?S) then map_option (settled c tx op) (entries (fst sc) op)
          else entries (fst sc) op)"
    proof (rule for_each_pointwise [where v = fst and Q = ?Q])
      fix x and s :: "TrackerState \<times> bool"
      assume "metered (fst s) \<and> indexed (fst s)" "\<exists>e. entries (fst s) x = Some e \<and> is_scan_candidate (status e)"
      then obtain e where e: "metered (fst s)" "indexed (fst s)" "entries (fst s) x = Some e"
        "is_scan_candidate (status e)" by auto
      then have "status e \<noteq> block_status c tx x" by auto
      then show "\<exists>s'. ?f x s = Some s' \<and> (metered (fst s') \<and> indexed (fst s'))
        \<and> same_frame (fst s) (fst s') \<and> entries (fst s') = (entries (fst s))(x := map_option (settled c tx x) (entries (fst s) x))"
        using transition_ok [OF e(1,3), of "block_status c tx x"] e
        by (cases s) (auto simp: settled_def)
    qed (use m xs in \<open>auto simp: candidates_def\<close>)
    then show ?thesis unfolding E using scan xs(2) by (simp add: apply_transaction_def)
  qed
qed

lemma after_block_Cons:
  "after_block c txs op (after_block c [t] op e) = after_block c (t # txs) op e"
  by (cases t) (auto simp: after_block_def split: option.splits)

lemma apply_block_loop:
  assumes ord: "enumerates order" and "metered (fst sc)" "indexed (fst sc)"
  shows "\<exists>sc'. for_each (apply_transaction order c) txs sc = Some sc' \<and> metered (fst sc') \<and> indexed (fst sc')
    \<and> same_frame (fst sc) (fst sc')
    \<and> entries (fst sc') = (\<lambda>op. map_option (after_block c txs op) (entries (fst sc) op))"
  using assms(2,3)
proof (induction txs arbitrary: sc)
  case Nil
  have "map_option (after_block c [] op) x = x" for op x by (cases x) (simp_all add: after_block_def)
  then show ?case using Nil by simp
next
  case (Cons t txs)
  obtain tx txid where t: "t = (tx, txid)" by (cases t)
  obtain sc1 where sc1: "apply_transaction order c t sc = Some sc1" "metered (fst sc1)" "indexed (fst sc1)"
    "same_frame (fst sc) (fst sc1)"
    "entries (fst sc1) = (\<lambda>op. map_option (after_block c [t] op) (entries (fst sc) op))"
    using apply_transaction_ok [OF ord Cons.prems, of c tx txid] t by blast
  obtain sc' where sc': "for_each (apply_transaction order c) txs sc1 = Some sc'" "metered (fst sc')"
    "indexed (fst sc')" "same_frame (fst sc1) (fst sc')"
    "entries (fst sc') = (\<lambda>op. map_option (after_block c txs op) (entries (fst sc1) op))"
    using Cons.IH [OF sc1(2,3)] by blast
  have "entries (fst sc') = (\<lambda>op. map_option (after_block c (t # txs) op) (entries (fst sc) op))"
    unfolding sc'(5) sc1(5) by (simp add: option.map_comp comp_def after_block_Cons)
  then show ?case using sc1 sc' same_frame_trans by auto
qed

lemma requests_after_block [simp]: "requests (after_block c txs op e) = requests e"
  by (simp add: after_block_def split: option.splits prod.splits)

lemma apply_block_current_ok:
  assumes ok: "tracker_ok (inner d)" and ord: "enumerates order"
  shows "\<exists>d'. apply_block_with_txids_if_current order g c txdata txids d = Some d' \<and> tracker_ok (inner d')
    \<and> same_frame (inner d) (inner d')
    \<and> entries (inner d') = (if bitcoin_generation (inner d) = g
        then (\<lambda>op. map_option (after_block c (zip txdata txids) op) (entries (inner d) op))
        else entries (inner d))"
proof (cases "bitcoin_generation (inner d) = g")
  case False
  then show ?thesis using ok by (simp add: apply_block_with_txids_if_current_def)
next
  case True
  have m: "metered (inner d)" "indexed (inner d)" "linked (inner d)" using ok by (simp_all add: tracker_ok_def)
  obtain st ch where sc: "for_each (apply_transaction order c) (zip txdata txids) (inner d, False) = Some (st, ch)"
    "metered st" "indexed st" "same_frame (inner d) st"
    "entries st = (\<lambda>op. map_option (after_block c (zip txdata txids) op) (entries (inner d) op))"
    using apply_block_loop [OF ord, of "(inner d, False)" c "zip txdata txids"] m by auto
  have "linked st"
  proof (rule linked_cong [OF m(3)])
    show "request_outpoints st = request_outpoints (inner d)" using sc(4) by (simp add: same_frame_def)
    fix op show "map_option requests (entries st op) = map_option requests (entries (inner d) op)"
      by (simp add: sc(5) option.map_comp comp_def)
  qed
  then have "tracker_ok st" using sc by (simp add: tracker_ok_def)
  then show ?thesis using True sc
    by (simp add: apply_block_with_txids_if_current_def apply_block_def notify_work_def)
qed

section \<open>Discovery\<close>

lemma discovery_step_ok:
  assumes ok: "tracker_ok (inner d)" and room: "next_discovery_id (inner d) \<noteq> - 1"
  shows "\<exists>d' r. discovery op d = Some (d', r) \<and> tracker_ok (inner d') \<and> ids_from (inner d) (inner d')
    \<and> request_outpoints (inner d') = request_outpoints (inner d)
    \<and> bitcoin_generation (inner d') = bitcoin_generation (inner d)
    \<and> (\<forall>t. r = Discover t \<longrightarrow> token_discovery_id t < next_discovery_id (inner d'))"
proof (cases "\<exists>e. entries (inner d) op = Some e \<and> status e = Unchecked \<and> discovery_id e = None")
  case False
  then show ?thesis using ok by (auto simp: discovery_def Let_def split: option.splits)
next
  case True
  let ?st = "inner d"
  obtain e where e: "entries ?st op = Some e" "status e = Unchecked" "discovery_id e = None" using True by blast
  let ?n = "next_discovery_id ?st"
  have "unat ?n \<noteq> 2 ^ 64 - 1" using room by (simp add: word_unat_eq_iff unat_max_word)
  then have u: "unat ?n + 1 < 2 ^ 64" using unat_u64_less [of ?n] by linarith
  then have lt: "?n < ?n + 1" by (simp add: word_less_nat_alt unat_word_ariths)
  let ?E = "(entries ?st)(op \<mapsto> e\<lparr>discovery_id := Some ?n\<rparr>)"
  let ?st' = "?st\<lparr>next_discovery_id := ?n + 1, entries := ?E\<rparr>"
  have m: "metered ?st" "indexed ?st" "linked ?st" using ok by (simp_all add: tracker_ok_def)
  have s: "map_option status (?E q) = map_option status (entries ?st q)"
    "map_option requests (?E q) = map_option requests (entries ?st q)" for q
    using e by (simp_all)
  have "metered ?st'"
  proof (rule metered_cong [OF m(1)])
    fix q e' did assume "entries ?st' q = Some e'" "discovery_id e' = Some did"
    then show "status e' = Unchecked \<and> did < next_discovery_id ?st'"
      using m(1) e lt by (auto simp: metered_def discovery_ok_def split: if_splits intro: less_trans)
  qed (use s lt in auto)
  moreover have "indexed ?st'" using m(2) candidates_cong [of ?E "entries ?st"] s by (simp add: indexed_def)
  moreover have "linked ?st'" by (rule linked_cong [OF m(3)]) (use e in auto)
  ultimately have "tracker_ok ?st'" by (simp add: tracker_ok_def)
  moreover have "ids_from ?st ?st'" using e lt by (auto simp: ids_from_def)
  moreover have "discovery op d = Some (d\<lparr>inner := ?st'\<rparr>,
      Discover \<lparr>token_outpoint = op, token_discovery_id = ?n\<rparr>)"
    using e u by (simp add: discovery_def Let_def checked_add_def)
  ultimately show ?thesis using lt by auto
qed

lemma resolve_discovery_ok:
  assumes ok: "tracker_ok (inner d)" and result: "result \<noteq> Inr Unchecked"
  shows "\<exists>d' r. resolve_discovery token result d = Some (d', r) \<and> tracker_ok (inner d')
    \<and> ids_from (inner d) (inner d') \<and> request_outpoints (inner d') = request_outpoints (inner d)
    \<and> bitcoin_generation (inner d') = bitcoin_generation (inner d)"
proof (cases "\<exists>e. entries (inner d) (token_outpoint token) = Some e
    \<and> discovery_id e = Some (token_discovery_id token)")
  case False
  then show ?thesis using ok result by (auto simp: resolve_discovery_def Let_def split: option.splits)
next
  case True
  let ?st = "inner d" and ?op = "token_outpoint token"
  obtain e where e: "entries ?st ?op = Some e" "discovery_id e = Some (token_discovery_id token)"
    using True by blast
  have m: "metered ?st" "indexed ?st" "linked ?st" using ok by (simp_all add: tracker_ok_def)
  show ?thesis
  proof (cases result)
    case (Inl err)
    let ?E = "(entries ?st)(?op \<mapsto> e\<lparr>discovery_id := None\<rparr>)"
    let ?st' = "?st\<lparr>entries := ?E\<rparr>"
    have s: "map_option status (?E q) = map_option status (entries ?st q)"
      "map_option requests (?E q) = map_option requests (entries ?st q)" for q
      using e by simp_all
    have "metered ?st'"
    proof (rule metered_cong [OF m(1)])
      fix q e' did assume "entries ?st' q = Some e'" "discovery_id e' = Some did"
      then show "status e' = Unchecked \<and> did < next_discovery_id ?st'"
        using m(1) by (auto simp: metered_def discovery_ok_def split: if_splits)
    qed (use s in auto)
    moreover have "indexed ?st'" using m(2) candidates_cong [of ?E "entries ?st"] s by (simp add: indexed_def)
    moreover have "linked ?st'" by (rule linked_cong [OF m(3)]) (use e in auto)
    ultimately have "tracker_ok ?st'" by (simp add: tracker_ok_def)
    moreover have "ids_from ?st ?st'" by (rule ids_from_sameI) (auto split: if_splits)
    ultimately show ?thesis using e Inl by (simp add: resolve_discovery_def Let_def)
  next
    case (Inr s)
    obtain st' b where st': "transition ?op s ?st = Some (st', b)" "metered st'" "indexed st'" "same_frame ?st st'"
      "entries st' = (if status e = s then entries ?st
        else (entries ?st)(?op \<mapsto> e\<lparr>status := s, discovery_id := None\<rparr>))"
      using transition_ok [OF m(1) e(1), of s] m(2) by blast
    have "linked st'"
      by (rule linked_cong [OF m(3)]) (use st'(4) e(1) in \<open>auto simp: st'(5) same_frame_def\<close>)
    then have "tracker_ok st'" using st' by (simp add: tracker_ok_def)
    moreover have "ids_from ?st st'"
      by (rule ids_from_sameI) (use st'(4) in \<open>auto simp: st'(5) same_frame_def split: if_splits\<close>)
    ultimately show ?thesis using e Inr st' result
      by (simp add: resolve_discovery_def Let_def notify_work_def same_frame_def)
  qed
qed

end
