(* ===== verification/Deposit_Tracker_Props.thy ===== *)
theory Deposit_Tracker_Props
  imports Deposit_Tracker_Chain
begin

text \<open>
  The deposit tracker as a transition system: the node interleaves the operations in any
  order, and the properties hold in every state it can reach.
\<close>

section \<open>Steps\<close>

inductive tracker_step :: "DepositTracker \<Rightarrow> DepositTracker \<Rightarrow> bool" where
  replace: "enumerates oa \<Longrightarrow> enumerates o1 \<Longrightarrow> enumerates o2 \<Longrightarrow> enumerates o3 \<Longrightarrow>
    replace_requests oa o1 o2 o3 reqs d = Some d' \<Longrightarrow> tracker_step d d'"
| upsert: "upsert_request r op d = Some d' \<Longrightarrow> tracker_step d d'"
| remove: "remove_request r d = Some d' \<Longrightarrow> tracker_step d d'"
| discover: "discovery op d = Some (d', answer) \<Longrightarrow> tracker_step d d'"
| resolve: "resolve_discovery token (result :: string + DepositStatus) d = Some (d', resolution) \<Longrightarrow>
    tracker_step d d'"
| block: "enumerates ord \<Longrightarrow> apply_block_with_txids_if_current ord g c txdata txids d = Some d' \<Longrightarrow>
    tracker_step d d'"
| tip: "enumerates ord \<Longrightarrow> set_tip ord new d = Some d' \<Longrightarrow> tracker_step d d'"
| reset: "enumerates ord \<Longrightarrow> reset_bitcoin_state ord d = Some d' \<Longrightarrow> tracker_step d d'"
| reorg: "enumerates ord \<Longrightarrow> apply_reorg ord dis d = Some d' \<Longrightarrow> tracker_step d d'"

lemma bump_room: "bump_bitcoin_generation st = Some st' \<Longrightarrow> bitcoin_generation st \<noteq> - 1"
  by (auto simp: bump_bitcoin_generation_def checked_add_def unat_max_word)

lemma reset_room: "reset_bitcoin_state ord d = Some d' \<Longrightarrow> bitcoin_generation (inner d) \<noteq> - 1"
  by (cases "bump_bitcoin_generation (inner d)") (auto simp: reset_bitcoin_state_def dest: bump_room)

lemma reorg_room: "apply_reorg ord dis d = Some d' \<Longrightarrow> bitcoin_generation (inner d) \<noteq> - 1"
  by (cases "bump_bitcoin_generation (inner d)") (auto simp: apply_reorg_def dest: bump_room)

lemma reset_ids:
  assumes "tracker_ok (inner d)" "enumerates ord" "reset_bitcoin_state ord d = Some d'"
  shows "tracker_ok (inner d') \<and> next_discovery_id (inner d') = next_discovery_id (inner d)
    \<and> (\<forall>op e. entries (inner d') op = Some e \<longrightarrow> discovery_id e = None)"
  using reset_bitcoin_state_ok [OF assms(1) reset_room [OF assms(3)] assms(2)] assms(3) by auto

lemma reorg_ids:
  assumes "tracker_ok (inner d)" "enumerates ord" "apply_reorg ord dis d = Some d'"
  shows "tracker_ok (inner d') \<and> next_discovery_id (inner d') = next_discovery_id (inner d)
    \<and> (\<forall>op e. entries (inner d') op = Some e \<longrightarrow> discovery_id e = None)"
  using apply_reorg_ok [OF assms(1) reorg_room [OF assms(3)] assms(2), of dis] assms(3)
  by (auto simp: reorged_def)

lemma ids_from_none:
  "next_discovery_id st' = next_discovery_id st \<Longrightarrow>
    (\<forall>op e. entries st' op = Some e \<longrightarrow> discovery_id e = None) \<Longrightarrow> ids_from st st'"
  by (auto simp: ids_from_def)

lemma after_block_ids: "discovery_id (after_block c txs op e) = Some did \<Longrightarrow> discovery_id e = Some did"
  by (auto simp: after_block_def split: if_splits option.splits prod.splits)

lemma discovery_room:
  assumes "discovery op d = Some (d', r)"
  shows "next_discovery_id (inner d) \<noteq> - 1 \<or> (d' = d \<and> (\<forall>t. r \<noteq> Discover t))"
  using assms
  by (auto simp: discovery_def Let_def checked_add_def unat_max_word split: option.splits if_splits)

lemma tracker_step_ok:
  assumes "tracker_step d d'" "tracker_ok (inner d)"
  shows "tracker_ok (inner d') \<and> ids_from (inner d) (inner d')"
  using assms
proof cases
  case (replace oa o1 o2 o3 reqs)
  then show ?thesis using replace_requests_ok [OF assms(2), of oa o1 o2 o3 reqs] by auto
next
  case (upsert r op)
  then show ?thesis using upsert_request_ok [OF assms(2), of r op] by auto
next
  case (remove r)
  then show ?thesis using remove_request_ok [OF assms(2), of r] by auto
next
  case (discover op answer)
  then show ?thesis
    using discovery_room [OF discover(1)] discovery_step_ok [OF assms(2), of op] assms(2) by auto
next
  case (resolve token result resolution)
  then have "result \<noteq> Inr Unchecked" by (auto simp: resolve_discovery_def)
  then show ?thesis using resolve_discovery_ok [OF assms(2), of result token] resolve by auto
next
  case (block ord g c txdata txids)
  obtain d1 where "apply_block_with_txids_if_current ord g c txdata txids d = Some d1" "tracker_ok (inner d1)"
    "same_frame (inner d) (inner d1)"
    "entries (inner d1) = (if bitcoin_generation (inner d) = g
        then (\<lambda>op. map_option (after_block c (zip txdata txids) op) (entries (inner d) op))
        else entries (inner d))"
    using apply_block_current_ok [OF assms(2) block(1)] by blast
  note d1 = this
  have "ids_from (inner d) (inner d1)"
  proof (rule ids_from_sameI)
    fix op e' did assume e': "entries (inner d1) op = Some e'" "discovery_id e' = Some did"
    show "\<exists>e. entries (inner d) op = Some e \<and> discovery_id e = Some did"
    proof (cases "bitcoin_generation (inner d) = g")
      case True
      then obtain z where "entries (inner d) op = Some z" "e' = after_block c (zip txdata txids) op z"
        using e'(1) d1(4) by auto
      then show ?thesis using after_block_ids [of c "zip txdata txids" op z did] e'(2) by simp
    qed (use e' d1(4) in simp)
  qed (use d1(3) in \<open>simp add: same_frame_def\<close>)
  then show ?thesis using block(2) d1 by simp
next
  case (tip ord new)
  then show ?thesis using set_tip_ok [OF assms(2) tip(1), of new]
    by (auto intro!: ids_from_sameI)
next
  case (reset ord)
  then show ?thesis using reset_ids [OF assms(2) reset] ids_from_none by blast
next
  case (reorg ord dis)
  then show ?thesis using reorg_ids [OF assms(2) reorg] ids_from_none by blast
qed

lemma new_inner_ok: "tracker_ok (inner (new_inner ms))"
proof -
  have "fold (\<lambda>label gauge. gauge(label := 0)) ls g l = (if l \<in> set ls then 0 else g l)" for ls and g :: "string \<Rightarrow> u64" and l
    by (induction ls arbitrary: g) auto
  then show ?thesis
    by (auto simp: new_inner_def tracker_ok_def metered_def indexed_def linked_def discovery_ok_def
        meters_def wcount_def by_txid_def candidates_def fun_eq_iff)
qed

lemma tracker_reachable_ok: "tracker_step\<^sup>*\<^sup>* d d' \<Longrightarrow> tracker_ok (inner d) \<Longrightarrow> tracker_ok (inner d')"
  by (induction rule: rtranclp_induct) (auto dest: tracker_step_ok)

section \<open>A concrete iteration order\<close>

definition outpoint_key :: "OutPoint \<Rightarrow> nat" where
  "outpoint_key op = unat (op_txid op) * 2 ^ 32 + unat (op_vout op)"

definition key_outpoint :: "nat \<Rightarrow> OutPoint" where
  "key_outpoint k = \<lparr>op_txid = of_nat (k div 2 ^ 32), op_vout = of_nat (k mod 2 ^ 32)\<rparr>"

definition outpoint_order :: "OutPoint order" where
  "outpoint_order S = map key_outpoint (sorted_list_of_set (outpoint_key ` S))"

lemma key_outpoint_inverse [simp]: "key_outpoint (outpoint_key op) = op"
proof -
  have "unat (op_vout op) < 2 ^ 32" using unat_lt_exp [of "op_vout op"] by simp
  then show ?thesis by (cases op) (simp add: key_outpoint_def outpoint_key_def)
qed

lemma outpoint_order_enumerates: "enumerates outpoint_order"
  unfolding enumerates_def
proof (intro allI impI)
  fix S :: "OutPoint set" assume fin: "finite S"
  have "key_outpoint ` outpoint_key ` S = S" by (simp add: image_image)
  moreover have "inj_on key_outpoint (outpoint_key ` S)"
    by (rule inj_on_inverseI [of _ outpoint_key]) auto
  ultimately show "distinct (outpoint_order S) \<and> set (outpoint_order S) = S"
    using fin by (simp add: outpoint_order_def distinct_map)
qed

lemma outpoint_order_singleton [simp]: "outpoint_order {op} = [op]"
  by (simp add: outpoint_order_def)

section \<open>The properties\<close>

text \<open>C12: In every state the tracker can reach, each gauge shows the number of tracked outpoints
  with its status and confirmations, the scan index holds exactly the outpoints that a block
  may still settle, grouped by transaction, and a request points at an outpoint exactly when
  the outpoint's entry lists the request.\<close>

theorem tracker_views_agree:
  assumes "tracker_step\<^sup>*\<^sup>* (new_inner ms) d"
  shows "(\<forall>m b. metrics (inner d) = Some m \<and> b < length CONFIRMATION_STATUS_LABELS \<longrightarrow>
        deposit_outpoint_confirmations m (CONFIRMATION_STATUS_LABELS ! b) =
        of_nat (card {op. \<exists>e. entries (inner d) op = Some e
          \<and> status_bucket (status e) (tip (inner d)) = b}))
    \<and> (\<forall>op. (\<exists>S. scan_candidates_by_txid (inner d) (op_txid op) = Some S \<and> op \<in> S) \<longleftrightarrow>
        (\<exists>e. entries (inner d) op = Some e \<and> is_scan_candidate (status e)))
    \<and> (has_scan_candidates d \<longleftrightarrow>
        (\<exists>op e. entries (inner d) op = Some e \<and> is_scan_candidate (status e)))
    \<and> (\<forall>r op. request_outpoints (inner d) r = Some op \<longleftrightarrow>
        (\<exists>e. entries (inner d) op = Some e \<and> r \<in> requests e))"
proof (intro conjI)
  have ok: "tracker_ok (inner d)" by (rule tracker_reachable_ok [OF assms new_inner_ok])
  then have m: "metered (inner d)" "indexed (inner d)" "linked (inner d)" by (simp_all add: tracker_ok_def)
  show "\<forall>m b. metrics (inner d) = Some m \<and> b < length CONFIRMATION_STATUS_LABELS \<longrightarrow>
        deposit_outpoint_confirmations m (CONFIRMATION_STATUS_LABELS ! b) =
        of_nat (card {op. \<exists>e. entries (inner d) op = Some e
          \<and> status_bucket (status e) (tip (inner d)) = b})"
    using m(1) by (simp add: metered_def meters_def wcount_def)
  show "\<forall>op. (\<exists>S. scan_candidates_by_txid (inner d) (op_txid op) = Some S \<and> op \<in> S) \<longleftrightarrow>
        (\<exists>e. entries (inner d) op = Some e \<and> is_scan_candidate (status e))"
    using m(2) by (auto simp: indexed_def by_txid_def candidates_def)
  show "has_scan_candidates d \<longleftrightarrow>
        (\<exists>op e. entries (inner d) op = Some e \<and> is_scan_candidate (status e))"
    using m(2) by (auto simp: has_scan_candidates_def indexed_def by_txid_def candidates_def fun_eq_iff)
  show "\<forall>r op. request_outpoints (inner d) r = Some op \<longleftrightarrow>
        (\<exists>e. entries (inner d) op = Some e \<and> r \<in> requests e)"
    using linkedD [OF m(3)] linked_tracked [OF m(3)] by fastforce
qed

definition sample_outpoint :: OutPoint where
  "sample_outpoint = \<lparr>op_txid = 7, op_vout = 0\<rparr>"

theorem tracker_views_agree_witness:
  "\<exists>d. upsert_request 1 sample_outpoint (new_inner None) = Some d
    \<and> (\<exists>e. entries (inner d) sample_outpoint = Some e \<and> 1 \<in> requests e)"
proof -
  obtain d where d: "upsert_request 1 sample_outpoint (new_inner None) = Some d"
      "request_outpoints (inner d) = (request_outpoints (inner (new_inner None)))(1 \<mapsto> sample_outpoint)"
    using upsert_request_ok [OF new_inner_ok] by blast
  have "tracker_step\<^sup>*\<^sup>* (new_inner None) d" using d(1) by (blast intro: tracker_step.upsert)
  then have "request_outpoints (inner d) 1 = Some sample_outpoint \<longleftrightarrow>
      (\<exists>e. entries (inner d) sample_outpoint = Some e \<and> 1 \<in> requests e)"
    using tracker_views_agree by blast
  then show ?thesis using d by simp
qed

text \<open>C40: From a reachable state no operation panics, short of exhausting the 64-bit counters of
  generations and discovery ids, with one exception: \<^verbatim>\<open>resolve_discovery\<close> asserts that the result
  it is given is not the status \<^verbatim>\<open>Unchecked\<close> and panics exactly when it is. Every \<^verbatim>\<open>unwrap\<close>, index
  and \<^verbatim>\<open>unreachable!\<close> in the tracker is justified, whatever order the hash maps are iterated in.\<close>

theorem tracker_never_panics:
  assumes "tracker_step\<^sup>*\<^sup>* (new_inner ms) d"
    and "bitcoin_generation (inner d) \<noteq> - 1" "next_discovery_id (inner d) \<noteq> - 1"
    and ord: "enumerates oa" "enumerates o1" "enumerates o2" "enumerates o3"
  shows "replace_requests oa o1 o2 o3 reqs d \<noteq> None \<and> upsert_request r op d \<noteq> None
    \<and> remove_request r d \<noteq> None \<and> discovery op d \<noteq> None
    \<and> (resolve_discovery token result d = None \<longleftrightarrow> result = Inr Unchecked)
    \<and> apply_block_with_txids_if_current o1 g c txdata txids d \<noteq> None
    \<and> set_tip o1 new d \<noteq> None \<and> reset_bitcoin_state o1 d \<noteq> None \<and> apply_reorg o1 dis d \<noteq> None"
proof -
  have ok: "tracker_ok (inner d)" by (rule tracker_reachable_ok [OF assms(1) new_inner_ok])
  have "resolve_discovery token result d = None \<longleftrightarrow> result = Inr Unchecked"
    using resolve_discovery_ok [OF ok, of result token] by (auto simp: resolve_discovery_def)
  then show ?thesis
    using replace_requests_ok [OF ok ord, of reqs] upsert_request_ok [OF ok, of r op]
      remove_request_ok [OF ok, of r] discovery_step_ok [OF ok assms(3), of op]
      apply_block_current_ok [OF ok ord(2), of g c txdata txids] set_tip_ok [OF ok ord(2), of new]
      reset_bitcoin_state_ok [OF ok assms(2) ord(2)] apply_reorg_ok [OF ok assms(2) ord(2), of dis]
    by auto
qed

definition address_order :: "Address order" where
  "address_order S = map of_nat (sorted_list_of_set (unat ` S))"

lemma address_order_enumerates: "enumerates address_order"
  unfolding enumerates_def
proof (intro allI impI)
  fix S :: "Address set" assume fin: "finite S"
  have "of_nat ` unat ` S = S" by (simp add: image_image)
  moreover have "inj_on (of_nat :: nat \<Rightarrow> Address) (unat ` S)"
    by (rule inj_on_inverseI [of _ unat]) auto
  ultimately show "distinct (address_order S) \<and> set (address_order S) = S"
    using fin by (simp add: address_order_def distinct_map)
qed

theorem tracker_never_panics_witness:
  "upsert_request 1 sample_outpoint (new_inner None) \<noteq> None
   \<and> set_tip outpoint_order \<lparr>height = 9, block_hash = 0\<rparr> (new_inner None) \<noteq> None
   \<and> resolve_discovery \<lparr>token_outpoint = sample_outpoint, token_discovery_id = 0\<rparr> (Inl ()) (new_inner None) \<noteq> None"
proof -
  have counters: "bitcoin_generation (inner (new_inner None)) \<noteq> - 1" "next_discovery_id (inner (new_inner None)) \<noteq> - 1"
    by (simp_all add: new_inner_def)
  from tracker_never_panics [OF rtranclp.rtrancl_refl counters address_order_enumerates outpoint_order_enumerates
      outpoint_order_enumerates outpoint_order_enumerates, where result = "Inl ()" and r = 1 and op = sample_outpoint]
  show ?thesis by simp
qed

text \<open>C23: A discovery result that was asked for before a reset or reorganisation is never recorded
  after it: however the tracker's other operations interleave, resolving the old token
  leaves the tracker as it is.\<close>

theorem stale_discovery_ignored:
  assumes start: "tracker_step\<^sup>*\<^sup>* (new_inner ms) d0"
    and issued: "discovery op d0 = Some (d1, Discover token)"
    and before: "tracker_step\<^sup>*\<^sup>* d1 d2"
    and bump: "enumerates ord \<and> (reset_bitcoin_state ord d2 = Some d3 \<or> apply_reorg ord dis d2 = Some d3)"
    and after: "tracker_step\<^sup>*\<^sup>* d3 d4"
    and resolved: "resolve_discovery token result d4 = Some (d5, answer)"
  shows "d5 = d4"
proof -
  let ?id = "token_discovery_id token"
  have ok0: "tracker_ok (inner d0)" by (rule tracker_reachable_ok [OF start new_inner_ok])
  have ok1: "tracker_ok (inner d1)" "?id < next_discovery_id (inner d1)"
    using discovery_room [OF issued] discovery_step_ok [OF ok0, of op] issued by auto
  have "tracker_ok (inner d2) \<and> ?id < next_discovery_id (inner d2)"
    using before ok1
    by (induction rule: rtranclp_induct) (auto dest!: tracker_step_ok simp: ids_from_def)
  then have ok3: "tracker_ok (inner d3) \<and> ?id < next_discovery_id (inner d3)
      \<and> (\<forall>q e. entries (inner d3) q = Some e \<longrightarrow> discovery_id e \<noteq> Some ?id)"
    using bump reset_ids [of d2 ord d3] reorg_ids [of d2 ord dis d3] by auto
  have "tracker_ok (inner d4) \<and> ?id < next_discovery_id (inner d4)
      \<and> (\<forall>q e. entries (inner d4) q = Some e \<longrightarrow> discovery_id e \<noteq> Some ?id)"
    using after ok3
  proof (induction rule: rtranclp_induct)
    case (step y z)
    then have y: "tracker_ok (inner y)" "?id < next_discovery_id (inner y)"
      "\<And>q e. entries (inner y) q = Some e \<Longrightarrow> discovery_id e \<noteq> Some ?id" by auto
    have z: "tracker_ok (inner z)" "ids_from (inner y) (inner z)"
      using tracker_step_ok [OF step(2) y(1)] by auto
    have "discovery_id e \<noteq> Some ?id" if "entries (inner z) q = Some e" for q e
      using z(2) that y(2,3) unfolding ids_from_def by (meson leD)
    then show ?case using z y(2) by (auto simp: ids_from_def)
  qed
  then show ?thesis using resolved
    by (auto simp: resolve_discovery_def Let_def split: option.splits if_splits)
qed

definition sample_entry :: Entry where
  "sample_entry = \<lparr>requests = {1}, status = Unchecked, discovery_id = None\<rparr>"

definition sample_tracker :: DepositTracker where
  "sample_tracker =
    \<lparr>inner = \<lparr>metrics = None, entries = [sample_outpoint \<mapsto> sample_entry],
       scan_candidates_by_txid = [7 \<mapsto> {sample_outpoint}],
       request_outpoints = [1 \<mapsto> sample_outpoint], tip = None, bitcoin_generation = 0,
       next_discovery_id = 0\<rparr>,
     work_tx = 1\<rparr>"

lemma sample_tracker_reachable: "tracker_step\<^sup>*\<^sup>* (new_inner None) sample_tracker"
proof -
  have "upsert_request 1 sample_outpoint (new_inner None) = Some sample_tracker"
    by (simp add: upsert_request_def new_inner_def state_remove_request_def insert_request_def
        adjust_metric_def adjust_metric_bucket_def insert_scan_candidate_def notify_work_def
        sample_tracker_def sample_entry_def sample_outpoint_def Let_def)
  then show ?thesis by (blast intro: tracker_step.upsert)
qed

theorem stale_discovery_ignored_witness:
  "\<exists>d1 token d3 answer. discovery sample_outpoint sample_tracker = Some (d1, Discover token)
    \<and> reset_bitcoin_state outpoint_order d1 = Some d3
    \<and> resolve_discovery token (Inr NotFound :: unit + DepositStatus) d3 = Some (d3, answer)"
proof -
  have ok: "tracker_ok (inner sample_tracker)"
    by (rule tracker_reachable_ok [OF sample_tracker_reachable new_inner_ok])
  let ?t = "\<lparr>token_outpoint = sample_outpoint, token_discovery_id = 0\<rparr>"
  obtain d1 where d1: "discovery sample_outpoint sample_tracker = Some (d1, Discover ?t)"
    by (simp add: discovery_def sample_tracker_def sample_entry_def checked_add_def Let_def)
  have s1: "tracker_step sample_tracker d1" using d1 by (rule tracker_step.discover)
  then have ok1: "tracker_ok (inner d1)" using tracker_step_ok ok by blast
  have "bitcoin_generation (inner d1) = 0"
    using d1 by (auto simp: discovery_def sample_tracker_def sample_entry_def checked_add_def Let_def)
  then obtain d3 where d3: "reset_bitcoin_state outpoint_order d1 = Some d3" "tracker_ok (inner d3)"
    using reset_bitcoin_state_ok [OF ok1 _ outpoint_order_enumerates] by auto
  obtain d5 a where d5: "resolve_discovery ?t (Inr NotFound :: unit + DepositStatus) d3 = Some (d5, a)"
    using resolve_discovery_ok [OF d3(2), of "Inr NotFound" ?t] by auto
  have "d5 = d3"
    by (rule stale_discovery_ignored [OF sample_tracker_reachable d1 rtranclp.rtrancl_refl _
          rtranclp.rtrancl_refl d5, where ord = outpoint_order])
      (use outpoint_order_enumerates d3(1) in simp)
  then show ?thesis using d1 d3 d5 by blast
qed

text \<open>C13: Applying a block of the current generation settles exactly the tracked outpoints that were
  still open and whose transaction is in the block: each takes the status the first
  transaction with its id gives it, every other entry keeps its status, and a block of an
  older generation changes nothing.\<close>

theorem block_settles_exactly:
  assumes "tracker_step\<^sup>*\<^sup>* (new_inner ms) d" "enumerates ord"
    and "apply_block_with_txids_if_current ord g c txdata txids d = Some d'"
  shows "(bitcoin_generation (inner d) \<noteq> g \<longrightarrow> d' = d) \<and> map_option status (entries (inner d') op) =
    (case entries (inner d) op of
       None \<Rightarrow> None
     | Some e \<Rightarrow>
         Some (if bitcoin_generation (inner d) = g \<and> is_scan_candidate (status e)
           then (case find (\<lambda>(tx, txid). txid = op_txid op) (zip txdata txids) of
                   None \<Rightarrow> status e
                 | Some (tx, _) \<Rightarrow> block_status c tx op)
           else status e))"
proof -
  have ok: "tracker_ok (inner d)" by (rule tracker_reachable_ok [OF assms(1) new_inner_ok])
  have "entries (inner d') = (if bitcoin_generation (inner d) = g
        then (\<lambda>op. map_option (after_block c (zip txdata txids) op) (entries (inner d) op))
        else entries (inner d))"
    using apply_block_current_ok [OF ok assms(2), of g c txdata txids] assms(3) by auto
  moreover have "bitcoin_generation (inner d) \<noteq> g \<longrightarrow> d' = d"
    using assms(3) by (auto simp: apply_block_with_txids_if_current_def)
  ultimately show ?thesis
    by (auto simp: after_block_def settled_def split: option.splits prod.splits)
qed

definition sample_tx :: Transaction where
  "sample_tx = \<lparr>tx_output = [\<lparr>txout_value = 5000, script_pubkey = [1, 2]\<rparr>], is_coinbase = False\<rparr>"

definition sample_checkpoint :: "u32 \<Rightarrow> HashCheckpoint" where
  "sample_checkpoint h = \<lparr>height = h, block_hash = 3\<rparr>"

theorem block_settles_exactly_witness:
  "\<exists>d'. apply_block_with_txids_if_current outpoint_order 0 (sample_checkpoint 9) [sample_tx] [7] sample_tracker = Some d'
    \<and> map_option status (entries (inner d') sample_outpoint)
      = Some (InBlock (sample_checkpoint 9) False (Kept \<lparr>txout_value = 5000, script_pubkey = [1, 2]\<rparr>))"
proof -
  have ok: "tracker_ok (inner sample_tracker)"
    by (rule tracker_reachable_ok [OF sample_tracker_reachable new_inner_ok])
  obtain d' where d': "apply_block_with_txids_if_current outpoint_order 0 (sample_checkpoint 9) [sample_tx] [7]
      sample_tracker = Some d'"
    using apply_block_current_ok [OF ok outpoint_order_enumerates] by blast
  from block_settles_exactly [OF sample_tracker_reachable outpoint_order_enumerates d', of sample_outpoint] d'
  show ?thesis
    by (simp add: sample_tracker_def sample_entry_def sample_outpoint_def block_status_def sample_tx_def
        RecordedOutput_new_def DEPOSIT_SCRIPT_LEN_def)
qed

text \<open>C22: A deposit gets through: once a block of the current generation holds the transaction of a
  tracked open outpoint, with the output there, and the tip is set high enough above that
  block for the threshold (at least the coinbase maturity for a coinbase output), the
  request is among the actionable ones.\<close>

theorem deposit_becomes_actionable:
  assumes "tracker_step\<^sup>*\<^sup>* (new_inner ms) d" "enumerates o1" "enumerates o2"
    and req: "request_outpoints (inner d) r = Some op"
    and "entries (inner d) op = Some e" "is_scan_candidate (status e)"
    and tx: "find (\<lambda>(tx, txid). txid = op_txid op) (zip txdata txids) = Some (tx, txid)"
    and vout: "unat (op_vout op) < length (tx_output tx)"
    and deep: "effective_deposit_confirmation_threshold maturity threshold (is_coinbase tx)
      \<le> confirmations (height c) (height new)"
  shows "\<exists>d1 d2. apply_block_with_txids_if_current o1 (bitcoin_generation (inner d)) c txdata txids d = Some d1
    \<and> set_tip o2 new d1 = Some d2 \<and> r \<in> actionable_requests maturity threshold d2"
proof -
  have ok: "tracker_ok (inner d)" by (rule tracker_reachable_ok [OF assms(1) new_inner_ok])
  obtain d1 where d1: "apply_block_with_txids_if_current o1 (bitcoin_generation (inner d)) c txdata txids d = Some d1"
      "tracker_ok (inner d1)" "same_frame (inner d) (inner d1)"
      "entries (inner d1) = (\<lambda>op. map_option (after_block c (zip txdata txids) op) (entries (inner d) op))"
    using apply_block_current_ok [OF ok assms(2), of "bitcoin_generation (inner d)" c txdata txids] by auto
  obtain d2 where d2: "set_tip o2 new d1 = Some d2" "tip (inner d2) = Some new"
      "entries (inner d2) = entries (inner d1)"
    using set_tip_ok [OF d1(2) assms(3), of new] by blast
  let ?e = "after_block c (zip txdata txids) op e"
  have e2: "entries (inner d2) op = Some ?e" using assms(5) by (simp add: d2(3) d1(4))
  have "status ?e = InBlock c (is_coinbase tx) (RecordedOutput_new (tx_output tx ! unat (op_vout op)))"
    using assms(6) tx vout by (simp add: after_block_def settled_def block_status_def)
  then have "entry_actionable maturity threshold (tip (inner d2)) (status ?e)"
    using deep by (simp add: entry_actionable_def d2(2))
  moreover have "linked (inner d)" using ok by (simp add: tracker_ok_def)
  then have "r \<in> requests e" using linkedD [OF _ assms(5)] req by simp
  then have "r \<in> requests ?e" by simp
  moreover have "?e \<in> ran (entries (inner d2))" using e2 by (auto simp: ran_def)
  ultimately have "r \<in> actionable_requests maturity threshold d2"
    by (auto simp: actionable_requests_def Let_def)
  then show ?thesis using d1(1) d2(1) by blast
qed

theorem deposit_becomes_actionable_witness:
  "\<exists>d1 d2. apply_block_with_txids_if_current outpoint_order 0 (sample_checkpoint 9) [sample_tx] [7] sample_tracker = Some d1
    \<and> set_tip outpoint_order (sample_checkpoint 14) d1 = Some d2 \<and> 1 \<in> actionable_requests 100 6 d2"
proof -
  have "bitcoin_generation (inner sample_tracker) = 0" by (simp add: sample_tracker_def)
  moreover have "\<exists>d1 d2. apply_block_with_txids_if_current outpoint_order (bitcoin_generation (inner sample_tracker))
        (sample_checkpoint 9) [sample_tx] [7] sample_tracker = Some d1
      \<and> set_tip outpoint_order (sample_checkpoint 14) d1 = Some d2 \<and> 1 \<in> actionable_requests 100 6 d2"
    by (rule deposit_becomes_actionable [OF sample_tracker_reachable outpoint_order_enumerates
          outpoint_order_enumerates, where op = sample_outpoint and e = sample_entry and tx = sample_tx and txid = 7])
      (simp_all add: sample_tracker_def sample_entry_def sample_outpoint_def sample_tx_def
        sample_checkpoint_def effective_deposit_confirmation_threshold_def confirmations_def
        saturating_add_def saturating_sub_def)
  ultimately show ?thesis by simp
qed

end
