(* ===== verification/Move_Base.thy ===== *)
theory Move_Base
  imports Guardian_Types
begin

text \<open>
  The vocabulary of the Move package under \<^verbatim>\<open>packages/hashi/sources\<close>.

  \<^item> A Move call returns or aborts, and an abort undoes the whole transaction. A call is therefore
    a function into \<open>'a tx\<close>: \<open>Ok\<close> with the result and the new state, or \<open>Err\<close> with the abort,
    in which case the state stays what it was. \<open>Panic\<close> is never produced.
  \<^item> Arithmetic on \<^verbatim>\<open>u64\<close> and \<^verbatim>\<open>u32\<close> aborts on overflow, underflow and division by zero.
  \<^item> \<^verbatim>\<open>Bag\<close>, \<^verbatim>\<open>ObjectBag\<close> and \<^verbatim>\<open>Table\<close> are partial maps whose \<^verbatim>\<open>add\<close> aborts on a key that is
    present and whose \<^verbatim>\<open>borrow\<close> and \<^verbatim>\<open>remove\<close> abort on one that is absent.
  \<^item> Addresses and object ids are byte vectors. The id of the object a call creates
    (\<^verbatim>\<open>object::new\<close>) is a component of its transaction context.
  \<^item> Events are not part of the state.
\<close>

section \<open>Aborts\<close>

text \<open>
  The aborts of the language and its framework, and the error constants of the modules:
  \<^verbatim>\<open>hashi\<close>, \<^verbatim>\<open>versioning\<close>, \<^verbatim>\<open>config\<close>, \<^verbatim>\<open>threshold\<close> and \<^verbatim>\<open>committee\<close>; \<^verbatim>\<open>committee_set\<close>;
  \<^verbatim>\<open>reconfig\<close>; \<^verbatim>\<open>mpc_signing\<close>; \<^verbatim>\<open>utxo_pool\<close>; \<^verbatim>\<open>deposit\<close> and \<^verbatim>\<open>deposit_queue\<close>;
  \<^verbatim>\<open>withdrawal_queue\<close>; \<^verbatim>\<open>withdraw\<close>, whose \<^verbatim>\<open>EWithdrawalNotFullySigned\<close> is \<open>EConfirmNotFullySigned\<close>
  here.
\<close>

datatype framework_abort =
    EArithmetic | EFieldAlreadyExists | EFieldDoesNotExist | EOptionNotSet | EOptionIsSet |
    EIndexOutOfBounds | EAssert | ESupplyOverflow | EKeyDoesNotExist

datatype system_abort =
    ESystemPaused | EReconfiguring | ENoCommittee | EWrongUpgradeCap | EVersionDisabled |
    EInvalidConfigValue | EBadGuardianBtcPublicKeyLength | EGuardianBtcPublicKeyImmutable |
    EThresholdBpsTooHigh | EInvalidBitmap | ESigVerification | ENotEnoughStake |
    EIncorrectCommittee

datatype registry_abort =
    EMemberNotRegistered | EAlreadyResigned | ENotResigned | ELastActiveMember |
    EMemberStillActive | ECannotRemoveIgnoredMember | EMemberNotRemovable | ETlsPublicKeyInUse
    | EInvalidTlsPublicKeyLength | EInvalidTlsProofOfPossession | ENotAuthorized |
    ENotAnActiveSuiValidator | EInvalidEncryptionPublicKeyLength |
    EInvalidBlsProofOfPossession | EPendingEpochStillCurrent | EInvalidMpcPublicKey |
    EMemberAlreadyRegistered

datatype reconfig_abort =
    ENotReconfiguring | EReconfigAlreadyCompleted | EReconfigWindowClosed |
    EWrongReconfigEpoch | EInitialReconfig | EGenesisNotAuthorized | EReconfigHeld

datatype signing_abort =
    EZeroInputs | EIndexOutOfRange | ELengthMismatch | ENotStale | EAllocationMismatch |
    ENotComplete

datatype pool_abort =
    EUtxoAlreadyLocked | EUtxoAlreadyUsed

datatype deposit_abort =
    EDepositRequestNotExpired | EDepositAlreadyProcessed | EBelowMinimumDeposit |
    EDepositTimeDelayNotPassed | EAlreadyApprovedThisEpoch

datatype queue_abort =
    ERequestNotApproved | ERequestAlreadyCommitted | EOutputBelowDust | EOutputAmountMismatch
    | EOutputAddressMismatch | EMinerFeeExceedsMax | EMinerFeeNotEvenlySplit |
    EInputsBelowOutputs | EOutputCountMismatch | EWithdrawalAlreadyFinalized |
    EWithdrawalNotFullySigned | ECannotApproveCommittedRequest | EApprovalCertNotNewer |
    ERequestNotCancellable | EWithdrawalNotConfirmed | EWithdrawalAlreadyConfirmed |
    ERequestTxnMismatch

datatype withdraw_abort =
    EBelowMinimumWithdrawal | EInvalidBitcoinAddress | EUnauthorizedCancellation |
    ECooldownNotElapsed | ECannotCancelProcessingWithdrawal | EConfirmNotFullySigned

datatype move_abort =
    FrameworkAbort framework_abort
  | SystemAbort system_abort
  | RegistryAbort registry_abort
  | ReconfigAbort reconfig_abort
  | SigningAbort signing_abort
  | PoolAbort pool_abort
  | DepositAbort deposit_abort
  | QueueAbort queue_abort
  | WithdrawAbort withdraw_abort

type_synonym 'a tx = "(move_abort, 'a) outcome"

type_synonym byte_vector = "u8 list"

text \<open>
  \<^verbatim>\<open>TxContext\<close>: the sender, the transaction digest, Sui's epoch, and the id \<^verbatim>\<open>object::new\<close> gives
  the object the call makes.
\<close>

record TxContext =
  ctx_sender :: address
  ctx_digest :: byte_vector
  ctx_epoch :: u64
  ctx_new_id :: address

section \<open>Checked arithmetic\<close>

definition add_checked :: "'a::len word \<Rightarrow> 'a word \<Rightarrow> 'a word tx" where
  "add_checked a b = (if unat a + unat b < 2 ^ LENGTH('a) then Ok (a + b) else Err (FrameworkAbort EArithmetic))"

definition sub_checked :: "'a::len word \<Rightarrow> 'a word \<Rightarrow> 'a word tx" where
  "sub_checked a b = (if b \<le> a then Ok (a - b) else Err (FrameworkAbort EArithmetic))"

definition mul_checked :: "'a::len word \<Rightarrow> 'a word \<Rightarrow> 'a word tx" where
  "mul_checked a b = (if unat a * unat b < 2 ^ LENGTH('a) then Ok (a * b) else Err (FrameworkAbort EArithmetic))"

text \<open>The cast of a vector length to a machine integer, and \<^verbatim>\<open>divide_and_round_up\<close>.\<close>

definition cast_checked :: "nat \<Rightarrow> 'a::len word tx" where
  "cast_checked n = (if n < 2 ^ LENGTH('a) then Ok (of_nat n) else Err (FrameworkAbort EArithmetic))"

definition divide_and_round_up :: "'a::len word \<Rightarrow> 'a word \<Rightarrow> 'a word tx" where
  "divide_and_round_up a b = (if b = 0 then Err (FrameworkAbort EArithmetic) else Ok (div_ceil a b))"

lemma add_checked_eq_Ok [simp]:
  "add_checked a b = Ok c \<longleftrightarrow> c = a + b \<and> unat a + unat b < 2 ^ LENGTH('a)"
  for a b c :: "'a::len word"
  by (auto simp: add_checked_def)

lemma unat_add_checked:
  "add_checked a b = Ok c \<Longrightarrow> unat c = unat a + unat b"
  for a b c :: "'a::len word"
  by (simp add: unat_add_lem)

lemma sub_checked_eq_Ok [simp]: "sub_checked a b = Ok c \<longleftrightarrow> b \<le> a \<and> c = a - b"
  by (auto simp: sub_checked_def)

lemma mul_checked_eq_Ok [simp]:
  "mul_checked a b = Ok c \<longleftrightarrow> c = a * b \<and> unat a * unat b < 2 ^ LENGTH('a)"
  for a b c :: "'a::len word"
  by (auto simp: mul_checked_def)

lemma cast_checked_eq_Ok [simp]:
  "(cast_checked n :: 'a::len word tx) = Ok c \<longleftrightarrow> c = of_nat n \<and> n < 2 ^ LENGTH('a)"
  by (auto simp: cast_checked_def)

lemma unat_of_nat_less: "n < 2 ^ LENGTH('a) \<Longrightarrow> unat (of_nat n :: 'a::len word) = n"
  by (simp add: unat_of_nat take_bit_nat_eq_self)

section \<open>Bags\<close>

type_synonym ('k, 'v) bag = "'k \<Rightarrow> 'v option"

definition bag_new :: "('k, 'v) bag" where
  "bag_new = (\<lambda>k. None)"

definition bag_contains :: "'k \<Rightarrow> ('k, 'v) bag \<Rightarrow> bool" where
  "bag_contains k m \<longleftrightarrow> m k \<noteq> None"

definition bag_add :: "'k \<Rightarrow> 'v \<Rightarrow> ('k, 'v) bag \<Rightarrow> ('k, 'v) bag tx" where
  "bag_add k v m = (if bag_contains k m then Err (FrameworkAbort EFieldAlreadyExists) else Ok (m(k \<mapsto> v)))"

definition bag_borrow :: "'k \<Rightarrow> ('k, 'v) bag \<Rightarrow> 'v tx" where
  "bag_borrow k m = ok_or (FrameworkAbort EFieldDoesNotExist) (m k)"

definition bag_remove :: "'k \<Rightarrow> ('k, 'v) bag \<Rightarrow> ('v \<times> ('k, 'v) bag) tx" where
  "bag_remove k m = and_then (bag_borrow k m) (\<lambda>v. Ok (v, m(k := None)))"

text \<open>\<open>borrow_mut\<close> followed by code that changes the borrowed value.\<close>

definition bag_modify :: "'k \<Rightarrow> ('v \<Rightarrow> 'v tx) \<Rightarrow> ('k, 'v) bag \<Rightarrow> ('k, 'v) bag tx" where
  "bag_modify k f m = and_then (bag_borrow k m) (\<lambda>v. and_then (f v) (\<lambda>v'. Ok (m(k \<mapsto> v'))))"

lemma bag_add_eq_Ok [simp]: "bag_add k v m = Ok m' \<longleftrightarrow> m k = None \<and> m' = m(k \<mapsto> v)"
  by (auto simp: bag_add_def bag_contains_def)

lemma bag_borrow_eq_Ok [simp]: "bag_borrow k m = Ok v \<longleftrightarrow> m k = Some v"
  by (simp add: bag_borrow_def)

lemma bag_remove_eq_Ok [simp]:
  "bag_remove k m = Ok (v, m') \<longleftrightarrow> m k = Some v \<and> m' = m(k := None)"
  by (auto simp: bag_remove_def)

lemma bag_modify_eq_Ok [simp]:
  "bag_modify k f m = Ok m' \<longleftrightarrow> (\<exists>v v'. m k = Some v \<and> f v = Ok v' \<and> m' = m(k \<mapsto> v'))"
  by (auto simp: bag_modify_def)

section \<open>Loops over vectors\<close>

text \<open>\<^verbatim>\<open>do!\<close> and \<^verbatim>\<open>do_ref!\<close> with the state the body changes, and \<^verbatim>\<open>map!\<close>.\<close>

primrec do_each :: "('a \<Rightarrow> 's \<Rightarrow> 's tx) \<Rightarrow> 'a list \<Rightarrow> 's \<Rightarrow> 's tx" where
  "do_each f [] s = Ok s"
| "do_each f (x # xs) s = and_then (f x s) (do_each f xs)"

primrec map_each :: "('a \<Rightarrow> 'b tx) \<Rightarrow> 'a list \<Rightarrow> 'b list tx" where
  "map_each f [] = Ok []"
| "map_each f (x # xs) = and_then (f x) (\<lambda>y. and_then (map_each f xs) (\<lambda>ys. Ok (y # ys)))"

lemma do_each_append:
  "do_each f (xs @ ys) s = and_then (do_each f xs s) (do_each f ys)"
proof (induction xs arbitrary: s)
  case (Cons x xs)
  then show ?case by (cases "f x s") simp_all
qed simp

lemma do_each_preserves:
  assumes "do_each f xs s = Ok s'" "P s"
    and "\<And>x s s'. x \<in> set xs \<Longrightarrow> P s \<Longrightarrow> f x s = Ok s' \<Longrightarrow> P s'"
  shows "P s'"
  using assms
proof (induction xs arbitrary: s)
  case (Cons x xs)
  then obtain s1 where s1: "f x s = Ok s1" "do_each f xs s1 = Ok s'" by auto
  have "P s1" using Cons.prems(2,3) s1(1) by (meson list.set_intros(1))
  then show ?case using Cons.IH [OF s1(2)] Cons.prems(3) by (meson list.set_intros(2))
qed simp

lemma map_each_eq_Ok:
  "map_each f xs = Ok ys \<longleftrightarrow> list_all2 (\<lambda>x y. f x = Ok y) xs ys"
proof (induction xs arbitrary: ys)
  case (Cons x xs)
  then show ?case by (cases ys) auto
qed (simp add: eq_commute)

lemma map_each_length: "map_each f xs = Ok ys \<Longrightarrow> length ys = length xs"
  by (auto simp: map_each_eq_Ok dest: list_all2_lengthD)

text \<open>Summing amounts in a \<^verbatim>\<open>u64\<close> accumulator.\<close>

definition sum_u64 :: "u64 list \<Rightarrow> u64 tx" where
  "sum_u64 xs = do_each (\<lambda>x acc. add_checked acc x) xs 0"

lemma do_each_add_checked:
  "do_each (\<lambda>x acc. add_checked acc x) xs a = Ok (b :: u64) \<longleftrightarrow>
     unat b = unat a + sum_list (map unat xs)"
proof (induction xs arbitrary: a)
  case Nil
  then show ?case by (auto simp: word_unat_eq_iff)
next
  case (Cons x xs)
  show ?case
  proof (cases "unat a + unat x < 2 ^ 64")
    case True
    then have "unat (a + x) = unat a + unat x" using unat_add_lem [of a x] by simp
    then show ?thesis using True Cons by (simp add: add_checked_def add.assoc)
  next
    case False
    then show ?thesis using unat_u64_less [of b] by (simp add: add_checked_def)
  qed
qed

lemma sum_u64_eq_Ok [simp]: "sum_u64 xs = Ok b \<longleftrightarrow> unat b = sum_list (map unat xs)"
  by (simp add: sum_u64_def do_each_add_checked)

end
