(* ===== verification/Move_Committee.thy ===== *)
theory Move_Committee
  imports Move_Base Uleb128
begin

text \<open>
  The parts of the Move package that every entry function goes through: the typed configuration
  store (\<^verbatim>\<open>core/config\<close>), package versions (\<^verbatim>\<open>core/versioning.move\<close>), weight thresholds
  (\<^verbatim>\<open>core/threshold.move\<close>), signing intents (\<^verbatim>\<open>core/intent.move\<close>) and committees with the
  verification of their certificates (\<^verbatim>\<open>core/committee/committee.move\<close>).

  The BLS operations of \<^verbatim>\<open>sui::bls12381\<close> and \<^verbatim>\<open>sui::group_ops\<close> are native functions of the chain;
  they are the fields of the record \<open>natives\<close>, a parameter of the definitions. Messages reach
  the verification as their BCS bytes, which the encoders below compute.
\<close>

unbundle bit_operations_syntax

section \<open>BCS\<close>

definition bcs_word :: "nat \<Rightarrow> 'a::len word \<Rightarrow> byte_vector" where
  "bcs_word n w = map (\<lambda>i. ucast (drop_bit (8 * i) w)) [0..<n]"

definition bcs_u16 :: "u16 \<Rightarrow> byte_vector" where "bcs_u16 = bcs_word 2"
definition bcs_u32 :: "u32 \<Rightarrow> byte_vector" where "bcs_u32 = bcs_word 4"
definition bcs_u64 :: "u64 \<Rightarrow> byte_vector" where "bcs_u64 = bcs_word 8"

text \<open>An address is its bytes, without a length.\<close>

definition bcs_address :: "address \<Rightarrow> byte_vector" where "bcs_address a = a"

definition bcs_vector :: "('a \<Rightarrow> byte_vector) \<Rightarrow> 'a list \<Rightarrow> byte_vector" where
  "bcs_vector enc xs = uleb128 (length xs) @ concat (map enc xs)"

definition bcs_bytes :: "byte_vector \<Rightarrow> byte_vector" where
  "bcs_bytes = bcs_vector (\<lambda>b. [b])"

definition bcs_option :: "('a \<Rightarrow> byte_vector) \<Rightarrow> 'a option \<Rightarrow> byte_vector" where
  "bcs_option enc x = (case x of None \<Rightarrow> [0] | Some a \<Rightarrow> 1 # enc a)"

section \<open>Configuration\<close>

datatype Value =
    U64 u64
  | U128 "128 word"
  | U256 "256 word"
  | Address address
  | String string
  | Bool bool
  | Bytes byte_vector

fun as_u64 :: "Value \<Rightarrow> u64 tx" where
  "as_u64 (U64 num) = Ok num"
| "as_u64 _ = Err (SystemAbort EInvalidConfigValue)"

fun as_bool :: "Value \<Rightarrow> bool tx" where
  "as_bool (Bool val) = Ok val"
| "as_bool _ = Err (SystemAbort EInvalidConfigValue)"

fun as_bytes :: "Value \<Rightarrow> byte_vector tx" where
  "as_bytes (Bytes v) = Ok v"
| "as_bytes _ = Err (SystemAbort EInvalidConfigValue)"

definition bcs_string :: "string \<Rightarrow> byte_vector" where
  "bcs_string s = bcs_bytes (map of_char s)"

fun bcs_value :: "Value \<Rightarrow> byte_vector" where
  "bcs_value (U64 x) = 0 # bcs_u64 x"
| "bcs_value (U128 x) = 1 # bcs_word 16 x"
| "bcs_value (U256 x) = 2 # bcs_word 32 x"
| "bcs_value (Address a) = 3 # bcs_address a"
| "bcs_value (String s) = 4 # bcs_string s"
| "bcs_value (Bool b) = [5, if b then 1 else 0]"
| "bcs_value (Bytes v) = 6 # bcs_bytes v"

text \<open>The \<^verbatim>\<open>VecMap\<close> of a \<^verbatim>\<open>Config\<close>, entries in the order of insertion.\<close>

type_synonym Config = "(string \<times> Value) list"

definition config_empty :: Config where "config_empty = []"

definition config_get :: "Config \<Rightarrow> string \<Rightarrow> Value tx" where
  "config_get self key = ok_or (FrameworkAbort EKeyDoesNotExist) (map_of self key)"

definition config_try_get :: "Config \<Rightarrow> string \<Rightarrow> Value option" where
  "config_try_get self key = map_of self key"

definition config_upsert :: "Config \<Rightarrow> string \<Rightarrow> Value \<Rightarrow> Config" where
  "config_upsert self key val = filter (\<lambda>(k, v). k \<noteq> key) self @ [(key, val)]"

definition config_create :: Config where
  "config_create =
     config_upsert (config_upsert (config_upsert (config_upsert config_empty
       ''paused'' (Bool False))
       ''reconfig_hold'' (Bool False))
       ''governance_emergency_pause_threshold_bps'' (U64 500))
       ''governance_emergency_unpause_threshold_bps'' (U64 6667)"

definition paused :: "Config \<Rightarrow> bool tx" where
  "paused self = and_then (config_get self ''paused'') as_bool"

definition set_paused :: "Config \<Rightarrow> bool \<Rightarrow> Config" where
  "set_paused self b = config_upsert self ''paused'' (Bool b)"

definition reconfig_hold :: "Config \<Rightarrow> bool tx" where
  "reconfig_hold self = (case config_try_get self ''reconfig_hold'' of None \<Rightarrow> Ok False | Some v \<Rightarrow> as_bool v)"

definition set_guardian_url :: "Config \<Rightarrow> string \<Rightarrow> Config" where
  "set_guardian_url self url = config_upsert self ''guardian_url'' (String url)"

definition set_guardian_node_url :: "Config \<Rightarrow> string \<Rightarrow> Config" where
  "set_guardian_node_url self url = config_upsert self ''guardian_node_url'' (String url)"

definition guardian_btc_public_key :: "Config \<Rightarrow> byte_vector option tx" where
  "guardian_btc_public_key self =
     (case config_try_get self ''guardian_btc_public_key'' of
        None \<Rightarrow> Ok None
      | Some v \<Rightarrow> and_then (as_bytes v) (\<lambda>b. Ok (Some b)))"

definition set_guardian_btc_public_key :: "Config \<Rightarrow> byte_vector \<Rightarrow> Config tx" where
  "set_guardian_btc_public_key self btc_public_key =
     and_then (ensure (length btc_public_key = 32) (SystemAbort EBadGuardianBtcPublicKeyLength)) (\<lambda>_.
     and_then (guardian_btc_public_key self) (\<lambda>existing.
     and_then (case existing of
                 Some k \<Rightarrow> ensure (k = btc_public_key) (SystemAbort EGuardianBtcPublicKeyImmutable)
               | None \<Rightarrow> Ok ()) (\<lambda>_.
       Ok (config_upsert self ''guardian_btc_public_key'' (Bytes btc_public_key)))))"

definition bcs_config :: "Config \<Rightarrow> byte_vector" where
  "bcs_config = bcs_vector (\<lambda>(k, v). bcs_string k @ bcs_value v)"

lemma map_of_config_upsert:
  "map_of (config_upsert c k v) = (map_of c)(k \<mapsto> v)"
proof
  fix x
  have "map_of (filter (\<lambda>(k', v). k' \<noteq> k) c) x = (if x = k then None else map_of c x)"
    by (induction c) auto
  then show "map_of (config_upsert c k v) x = ((map_of c)(k \<mapsto> v)) x"
    by (simp add: config_upsert_def map_add_def split: option.split)
qed

section \<open>Versions\<close>

record UpgradeCap =
  uc_package :: address
  uc_version :: u64

record Versioning =
  enabled_versions :: "u64 list"
  upgrade_cap :: "UpgradeCap option"

definition PACKAGE_VERSION :: u64 where "PACKAGE_VERSION = 1"

definition versioning_create :: Versioning where
  "versioning_create = \<lparr>enabled_versions = [PACKAGE_VERSION], upgrade_cap = None\<rparr>"

definition assert_version_enabled :: "Versioning \<Rightarrow> unit tx" where
  "assert_version_enabled self = ensure (PACKAGE_VERSION \<in> set (enabled_versions self)) (SystemAbort EVersionDisabled)"

definition set_upgrade_cap :: "Versioning \<Rightarrow> UpgradeCap \<Rightarrow> Versioning tx" where
  "set_upgrade_cap self cap =
     (case upgrade_cap self of
        None \<Rightarrow> Ok (self\<lparr>upgrade_cap := Some cap\<rparr>)
      | Some _ \<Rightarrow> Err (FrameworkAbort EOptionIsSet))"

definition has_upgrade_cap :: "Versioning \<Rightarrow> bool" where
  "has_upgrade_cap self \<longleftrightarrow> upgrade_cap self \<noteq> None"

section \<open>Thresholds\<close>

definition weight_threshold :: "u64 \<Rightarrow> u64 \<Rightarrow> u64 tx" where
  "weight_threshold total_w threshold_bps =
     and_then (ensure (threshold_bps \<le> 10000) (SystemAbort EThresholdBpsTooHigh)) (\<lambda>_.
     and_then (mul_checked total_w threshold_bps) (\<lambda>p. divide_and_round_up p 10000))"

definition certificate_threshold :: "u64 \<Rightarrow> u64 tx" where
  "certificate_threshold total_w = weight_threshold total_w 6667"

section \<open>Intents\<close>

definition proof_of_possession_intent :: u16 where "proof_of_possession_intent = 0x0000"
definition committee_transition_intent :: u16 where "committee_transition_intent = 0x0001"
definition reconfig_completion_intent :: u16 where "reconfig_completion_intent = 0x0002"
definition tls_proof_of_possession_intent :: u16 where "tls_proof_of_possession_intent = 0x0006"
definition deposit_confirmation_intent :: u16 where "deposit_confirmation_intent = 0x0100"
definition withdrawal_request_approval_intent :: u16 where "withdrawal_request_approval_intent = 0x0101"
definition withdrawal_commitment_intent :: u16 where "withdrawal_commitment_intent = 0x0102"
definition mpc_input_signatures_intent :: u16 where "mpc_input_signatures_intent = 0x0103"
definition withdrawal_signed_intent :: u16 where "withdrawal_signed_intent = 0x0104"
definition withdrawal_confirmation_intent :: u16 where "withdrawal_confirmation_intent = 0x0105"

section \<open>Committees\<close>

text \<open>
  \<open>g1_sum_bytes\<close> is \<^verbatim>\<open>group_ops::bytes(uncompressed_g1_to_g1(uncompressed_g1_sum(keys)))\<close>, which
  aborts on more keys than the chain allows; \<open>g1_uncompressed\<close> is
  \<^verbatim>\<open>g1_to_uncompressed_g1(g1_from_bytes(key))\<close>, which aborts on bytes that are no group element;
  \<open>g1_identity\<close> is the uncompressed identity; \<open>min_pk_verify\<close> and \<open>ed25519_verify\<close> check a
  signature under a public key over a message.
\<close>

record natives =
  g1_sum_bytes :: "byte_vector list \<Rightarrow> byte_vector option"
  min_pk_verify :: "byte_vector \<Rightarrow> byte_vector \<Rightarrow> byte_vector \<Rightarrow> bool"
  g1_uncompressed :: "byte_vector \<Rightarrow> byte_vector option"
  g1_identity :: byte_vector
  ed25519_verify :: "byte_vector \<Rightarrow> byte_vector \<Rightarrow> byte_vector \<Rightarrow> bool"

record CommitteeMember =
  cm_validator_address :: address
  cm_public_key :: byte_vector
  cm_encryption_public_key :: byte_vector
  cm_weight :: u64
  cm_extra_fields :: Config

record Committee =
  mc_epoch :: u64
  mc_members :: "CommitteeMember list"
  mc_total_weight :: u64
  mc_epoch_config :: Config

record CommitteeSignature =
  sig_epoch :: u64
  sig_signature :: byte_vector
  sig_signers_bitmap :: byte_vector

definition new_committee_member ::
    "address \<Rightarrow> byte_vector \<Rightarrow> byte_vector \<Rightarrow> u64 \<Rightarrow> CommitteeMember tx" where
  "new_committee_member validator_address public_key encryption_public_key weight =
     and_then (ensure (0 < weight) (SystemAbort EIncorrectCommittee)) (\<lambda>_.
       Ok \<lparr>cm_validator_address = validator_address, cm_public_key = public_key,
           cm_encryption_public_key = encryption_public_key, cm_weight = weight,
           cm_extra_fields = config_empty\<rparr>)"

definition new_committee :: "u64 \<Rightarrow> CommitteeMember list \<Rightarrow> Config \<Rightarrow> Committee tx" where
  "new_committee epoch members epoch_config =
     and_then (ensure (members \<noteq> []) (FrameworkAbort EAssert)) (\<lambda>_.
     and_then (do_each (\<lambda>member total_w.
         and_then (ensure (0 < cm_weight member) (SystemAbort EIncorrectCommittee)) (\<lambda>_.
           add_checked total_w (cm_weight member))) members 0) (\<lambda>total_w.
       Ok \<lparr>mc_epoch = epoch, mc_members = members, mc_total_weight = total_w,
           mc_epoch_config = epoch_config\<rparr>))"

text \<open>One bit of the signers bitmap; the state is the weight and the keys collected so far.\<close>

definition verify_bit ::
    "CommitteeMember list \<Rightarrow> nat \<Rightarrow> u8 \<Rightarrow> nat \<Rightarrow> u64 \<times> byte_vector list \<Rightarrow> (u64 \<times> byte_vector list) tx" where
  "verify_bit members offset byte bit_index acc =
     (let (aggregate_weight, signer_public_keys) = acc;
          index = offset + bit_index;
          is_signer = (byte AND push_bit (7 - bit_index) 1 \<noteq> 0)
      in if length members \<le> index
         then and_then (ensure (\<not> is_signer) (SystemAbort EInvalidBitmap)) (\<lambda>_. Ok acc)
         else if is_signer
         then and_then (add_checked aggregate_weight (cm_weight (members ! index))) (\<lambda>w.
                Ok (w, signer_public_keys @ [cm_public_key (members ! index)]))
         else Ok acc)"

definition verify_byte ::
    "CommitteeMember list \<Rightarrow> u8 \<Rightarrow> nat \<times> u64 \<times> byte_vector list \<Rightarrow> (nat \<times> u64 \<times> byte_vector list) tx" where
  "verify_byte members byte st =
     (let (offset, acc) = st
      in and_then (do_each (verify_bit members offset byte) [0..<8] acc) (\<lambda>acc. Ok (offset + 8, acc)))"

definition signing_preimage :: "u16 \<Rightarrow> address \<Rightarrow> u64 \<Rightarrow> byte_vector \<Rightarrow> byte_vector" where
  "signing_preimage intent hashi_id epoch message_bcs =
     bcs_u16 intent @ bcs_address hashi_id @ bcs_u64 epoch @ message_bcs"

text \<open>\<open>verify_certificate\<close> returns the stake behind the certificate.\<close>

definition verify_certificate ::
    "natives \<Rightarrow> Committee \<Rightarrow> address \<Rightarrow> u16 \<Rightarrow> byte_vector \<Rightarrow> CommitteeSignature \<Rightarrow> u64 \<Rightarrow> u64 tx" where
  "verify_certificate nt self hashi_id intent message_bcs signature threshold =
     and_then (ensure (sig_epoch signature = mc_epoch self) (FrameworkAbort EAssert)) (\<lambda>_.
     let n_members = length (mc_members self);
         max_bitmap_len_bytes = (n_members + 7) div 8
     in
     and_then (ensure (length (sig_signers_bitmap signature) \<le> max_bitmap_len_bytes) (SystemAbort EInvalidBitmap)) (\<lambda>_.
     and_then (do_each (verify_byte (mc_members self)) (sig_signers_bitmap signature) (0, 0, []))
       (\<lambda>(offset, aggregate_weight, signer_public_keys).
     and_then (ensure (threshold \<le> aggregate_weight) (SystemAbort ENotEnoughStake)) (\<lambda>_.
     and_then (ok_or (FrameworkAbort EAssert) (g1_sum_bytes nt signer_public_keys)) (\<lambda>pub_key_bytes.
     and_then (ensure (min_pk_verify nt (sig_signature signature) pub_key_bytes
         (signing_preimage intent hashi_id (sig_epoch signature) message_bcs)) (SystemAbort ESigVerification)) (\<lambda>_.
       Ok aggregate_weight))))))"

text \<open>\<^verbatim>\<open>Hashi::verify_with_committee\<close>: the certificate threshold of the committee's own weight.\<close>

definition verify_with_committee ::
    "natives \<Rightarrow> address \<Rightarrow> Committee \<Rightarrow> u16 \<Rightarrow> byte_vector \<Rightarrow> CommitteeSignature \<Rightarrow> u64 tx" where
  "verify_with_committee nt hashi_id committee intent message_bcs sig =
     and_then (certificate_threshold (mc_total_weight committee)) (\<lambda>threshold.
       verify_certificate nt committee hashi_id intent message_bcs sig threshold)"

definition has_committee_member :: "Committee \<Rightarrow> address \<Rightarrow> bool" where
  "has_committee_member self validator_address \<longleftrightarrow>
     list_ex (\<lambda>member. cm_validator_address member = validator_address) (mc_members self)"

definition bcs_committee_member :: "CommitteeMember \<Rightarrow> byte_vector" where
  "bcs_committee_member m =
     bcs_address (cm_validator_address m) @ bcs_bytes (cm_public_key m) @
     bcs_bytes (cm_encryption_public_key m) @ bcs_u64 (cm_weight m) @ bcs_config (cm_extra_fields m)"

definition bcs_committee :: "Committee \<Rightarrow> byte_vector" where
  "bcs_committee c =
     bcs_u64 (mc_epoch c) @ bcs_vector bcs_committee_member (mc_members c) @
     bcs_u64 (mc_total_weight c) @ bcs_config (mc_epoch_config c)"

end
