(* ===== verification/Move_Committee_Set.thy ===== *)
theory Move_Committee_Set
  imports Move_Committee
begin

text \<open>
  The registry of members and committees (\<^verbatim>\<open>core/committee/committee_set.move\<close>): registration
  and key rotation of members with the reverse index of their TLS keys, resignation and removal,
  and the reconfiguration of the committee from one epoch to the next.

  The bag \<^verbatim>\<open>committees\<close> holds committees under epochs and handoff certificates under keys of
  another type; it is modelled as two maps. What the code reads from Sui's system state, the active
  validators and their voting powers, is an argument.
\<close>

section \<open>State\<close>

record MemberInfo =
  mi_validator_address :: address
  mi_operator_address :: address
  mi_next_epoch_public_key :: byte_vector
  mi_endpoint_url :: string
  mi_tls_public_key :: byte_vector
  mi_next_epoch_encryption_public_key :: byte_vector
  mi_ignored :: bool
  mi_resigned :: bool
  mi_extra_fields :: Config

record PendingEpochChange =
  pe_epoch :: u64
  pe_committee_handoff_cert :: "CommitteeSignature option"

record CommitteeHandoff =
  ch_next_epoch :: u64
  ch_cert :: CommitteeSignature

record CommitteeSet =
  st_members :: "(address, MemberInfo) bag"
  st_tls_public_keys :: "(byte_vector, address) bag"
  st_epoch :: u64
  st_committees :: "(u64, Committee) bag"
  st_handoffs :: "(u64, CommitteeHandoff) bag"
  st_pending_epoch_change :: "PendingEpochChange option"
  st_mpc_public_key :: byte_vector

definition committee_set_create :: CommitteeSet where
  "committee_set_create =
     \<lparr>st_members = bag_new, st_tls_public_keys = bag_new, st_epoch = 0, st_committees = bag_new,
      st_handoffs = bag_new, st_pending_epoch_change = None, st_mpc_public_key = []\<rparr>"

section \<open>Reading\<close>

definition has_member :: "CommitteeSet \<Rightarrow> address \<Rightarrow> bool" where
  "has_member self a \<longleftrightarrow> bag_contains a (st_members self)"

definition has_committee :: "CommitteeSet \<Rightarrow> u64 \<Rightarrow> bool" where
  "has_committee self e \<longleftrightarrow> bag_contains e (st_committees self)"

definition get_committee :: "CommitteeSet \<Rightarrow> u64 \<Rightarrow> Committee tx" where
  "get_committee self e = bag_borrow e (st_committees self)"

definition current_committee :: "CommitteeSet \<Rightarrow> Committee tx" where
  "current_committee self = get_committee self (st_epoch self)"

definition is_reconfiguring :: "CommitteeSet \<Rightarrow> bool" where
  "is_reconfiguring self \<longleftrightarrow> st_pending_epoch_change self \<noteq> None"

definition pending_epoch_change :: "CommitteeSet \<Rightarrow> u64 option" where
  "pending_epoch_change self = map_option pe_epoch (st_pending_epoch_change self)"

definition has_committee_handoff :: "CommitteeSet \<Rightarrow> u64 \<Rightarrow> bool" where
  "has_committee_handoff self from_epoch \<longleftrightarrow> bag_contains from_epoch (st_handoffs self)"

definition committee_handoff_next_epoch :: "CommitteeSet \<Rightarrow> u64 \<Rightarrow> u64 tx" where
  "committee_handoff_next_epoch self from_epoch =
     and_then (bag_borrow from_epoch (st_handoffs self)) (\<lambda>h. Ok (ch_next_epoch h))"

definition is_authorized :: "MemberInfo \<Rightarrow> TxContext \<Rightarrow> bool" where
  "is_authorized self ctx \<longleftrightarrow>
     ctx_sender ctx \<noteq> replicate 32 0 \<and>
     (ctx_sender ctx = mi_validator_address self \<or> ctx_sender ctx = mi_operator_address self)"

text \<open>\<open>member_mut\<close> with the change the caller makes to the member.\<close>

definition member_mut :: "CommitteeSet \<Rightarrow> address \<Rightarrow> (MemberInfo \<Rightarrow> MemberInfo tx) \<Rightarrow> CommitteeSet tx" where
  "member_mut self a f =
     and_then (bag_modify a f (st_members self)) (\<lambda>ms. Ok (self\<lparr>st_members := ms\<rparr>))"

definition authorized :: "TxContext \<Rightarrow> (MemberInfo \<Rightarrow> MemberInfo) \<Rightarrow> MemberInfo \<Rightarrow> MemberInfo tx" where
  "authorized ctx f m = and_then (ensure (is_authorized m ctx) (RegistryAbort ENotAuthorized)) (\<lambda>_. Ok (f m))"

section \<open>Members\<close>

definition register_member :: "natives \<Rightarrow> CommitteeSet \<Rightarrow> address \<Rightarrow> bool \<Rightarrow> CommitteeSet tx" where
  "register_member nt self validator_address is_active_sui_validator =
     and_then (ensure is_active_sui_validator (RegistryAbort ENotAnActiveSuiValidator)) (\<lambda>_.
     and_then (ensure (\<not> has_member self validator_address) (RegistryAbort EMemberAlreadyRegistered)) (\<lambda>_.
     and_then (bag_add validator_address
         \<lparr>mi_validator_address = validator_address, mi_operator_address = validator_address,
          mi_next_epoch_public_key = g1_identity nt, mi_endpoint_url = [],
          mi_tls_public_key = [], mi_next_epoch_encryption_public_key = [],
          mi_ignored = False, mi_resigned = False, mi_extra_fields = config_empty\<rparr>
         (st_members self)) (\<lambda>ms. Ok (self\<lparr>st_members := ms\<rparr>))))"

definition verify_proof_of_possession ::
    "natives \<Rightarrow> address \<Rightarrow> u64 \<Rightarrow> address \<Rightarrow> byte_vector \<Rightarrow> byte_vector \<Rightarrow> bool" where
  "verify_proof_of_possession nt hashi_id epoch validator_address bls_public_key signature =
     min_pk_verify nt signature bls_public_key
       (bcs_u16 proof_of_possession_intent @ bcs_address hashi_id @ bcs_u64 epoch @
        bcs_address validator_address @ bls_public_key)"

definition verify_bls_public_key ::
    "natives \<Rightarrow> address \<Rightarrow> u64 \<Rightarrow> address \<Rightarrow> byte_vector \<Rightarrow> byte_vector \<Rightarrow> byte_vector tx" where
  "verify_bls_public_key nt hashi_id epoch validator_address bls_public_key signature =
     and_then (ensure (verify_proof_of_possession nt hashi_id epoch validator_address bls_public_key signature)
       (RegistryAbort EInvalidBlsProofOfPossession)) (\<lambda>_. ok_or (FrameworkAbort EAssert) (g1_uncompressed nt bls_public_key))"

definition set_next_epoch_public_key ::
    "natives \<Rightarrow> CommitteeSet \<Rightarrow> address \<Rightarrow> address \<Rightarrow> byte_vector \<Rightarrow> byte_vector \<Rightarrow> TxContext \<Rightarrow> CommitteeSet tx" where
  "set_next_epoch_public_key nt self hashi_id validator_address next_epoch_public_key signature ctx =
     and_then (verify_bls_public_key nt hashi_id (ctx_epoch ctx) validator_address
         next_epoch_public_key signature) (\<lambda>key.
       member_mut self validator_address (authorized ctx (\<lambda>m. m\<lparr>mi_next_epoch_public_key := key\<rparr>)))"

definition set_endpoint_url :: "CommitteeSet \<Rightarrow> address \<Rightarrow> string \<Rightarrow> TxContext \<Rightarrow> CommitteeSet tx" where
  "set_endpoint_url self validator_address url ctx =
     member_mut self validator_address (authorized ctx (\<lambda>m. m\<lparr>mi_endpoint_url := url\<rparr>))"

definition set_operator_address :: "CommitteeSet \<Rightarrow> address \<Rightarrow> address \<Rightarrow> TxContext \<Rightarrow> CommitteeSet tx" where
  "set_operator_address self validator_address operator ctx =
     member_mut self validator_address (authorized ctx (\<lambda>m. m\<lparr>mi_operator_address := operator\<rparr>))"

definition set_next_epoch_encryption_public_key ::
    "CommitteeSet \<Rightarrow> address \<Rightarrow> byte_vector \<Rightarrow> TxContext \<Rightarrow> CommitteeSet tx" where
  "set_next_epoch_encryption_public_key self validator_address key ctx =
     and_then (ensure (length key = 32) (RegistryAbort EInvalidEncryptionPublicKeyLength)) (\<lambda>_.
       member_mut self validator_address
         (authorized ctx (\<lambda>m. m\<lparr>mi_next_epoch_encryption_public_key := key\<rparr>)))"

definition verify_tls_proof_of_possession ::
    "natives \<Rightarrow> address \<Rightarrow> address \<Rightarrow> byte_vector \<Rightarrow> byte_vector \<Rightarrow> bool" where
  "verify_tls_proof_of_possession nt hashi_id validator_address tls_public_key signature =
     ed25519_verify nt signature tls_public_key
       (bcs_u16 tls_proof_of_possession_intent @ bcs_address hashi_id @
        bcs_address validator_address @ tls_public_key)"

definition write_tls_public_key :: "CommitteeSet \<Rightarrow> address \<Rightarrow> byte_vector \<Rightarrow> CommitteeSet tx" where
  "write_tls_public_key self validator_address tls_public_key =
     and_then (ensure (length tls_public_key = 32) (RegistryAbort EInvalidTlsPublicKeyLength)) (\<lambda>_.
     and_then (ensure (\<not> bag_contains tls_public_key (st_tls_public_keys self) \<or>
         st_tls_public_keys self tls_public_key = Some validator_address) (RegistryAbort ETlsPublicKeyInUse)) (\<lambda>_.
     and_then (bag_borrow validator_address (st_members self)) (\<lambda>member.
       let previous = mi_tls_public_key member;
           self = self\<lparr>st_members := (st_members self)
             (validator_address \<mapsto> member\<lparr>mi_tls_public_key := tls_public_key\<rparr>)\<rparr>
       in
       and_then (if previous \<noteq> []
                 then and_then (bag_remove previous (st_tls_public_keys self)) (\<lambda>(_, ks). Ok ks)
                 else Ok (st_tls_public_keys self)) (\<lambda>ks.
       and_then (bag_add tls_public_key validator_address ks) (\<lambda>ks.
         Ok (self\<lparr>st_tls_public_keys := ks\<rparr>))))))"

definition set_tls_public_key ::
    "natives \<Rightarrow> CommitteeSet \<Rightarrow> address \<Rightarrow> address \<Rightarrow> byte_vector \<Rightarrow> byte_vector \<Rightarrow> TxContext \<Rightarrow> CommitteeSet tx" where
  "set_tls_public_key nt self hashi_id validator_address tls_public_key signature ctx =
     and_then (ensure (length tls_public_key = 32) (RegistryAbort EInvalidTlsPublicKeyLength)) (\<lambda>_.
     and_then (bag_borrow validator_address (st_members self)) (\<lambda>member.
     and_then (ensure (is_authorized member ctx) (RegistryAbort ENotAuthorized)) (\<lambda>_.
     and_then (ensure (verify_tls_proof_of_possession nt hashi_id validator_address tls_public_key signature)
         (RegistryAbort EInvalidTlsProofOfPossession)) (\<lambda>_.
       write_tls_public_key self validator_address tls_public_key))))"

definition set_member_ignored :: "CommitteeSet \<Rightarrow> address \<Rightarrow> bool \<Rightarrow> CommitteeSet tx" where
  "set_member_ignored self validator_address ignored =
     and_then (ensure (has_member self validator_address) (RegistryAbort EMemberNotRegistered)) (\<lambda>_.
       member_mut self validator_address (\<lambda>m. Ok (m\<lparr>mi_ignored := ignored\<rparr>)))"

definition in_current_or_pending_committee :: "CommitteeSet \<Rightarrow> address \<Rightarrow> bool" where
  "in_current_or_pending_committee self a \<longleftrightarrow>
     (case st_committees self (st_epoch self) of None \<Rightarrow> False | Some c \<Rightarrow> has_committee_member c a) \<or>
     (case st_pending_epoch_change self of
        None \<Rightarrow> False
      | Some p \<Rightarrow> (case st_committees self (pe_epoch p) of None \<Rightarrow> False | Some c \<Rightarrow> has_committee_member c a))"

definition assert_not_last_active_member :: "CommitteeSet \<Rightarrow> address \<Rightarrow> unit tx" where
  "assert_not_last_active_member self a =
     (case st_committees self (st_epoch self) of
        None \<Rightarrow> Ok ()
      | Some committee \<Rightarrow>
          if \<not> has_committee_member committee a then Ok ()
          else ensure (list_ex (\<lambda>cm.
              let addr = cm_validator_address cm
              in addr \<noteq> a \<and>
                 (case st_members self addr of
                    None \<Rightarrow> False
                  | Some m \<Rightarrow> \<not> mi_resigned m \<and> \<not> mi_ignored m)) (mc_members committee)) (RegistryAbort ELastActiveMember))"

definition request_resignation :: "CommitteeSet \<Rightarrow> address \<Rightarrow> TxContext \<Rightarrow> CommitteeSet tx" where
  "request_resignation self a ctx =
     and_then (ensure (has_member self a) (RegistryAbort EMemberNotRegistered)) (\<lambda>_.
     and_then (bag_borrow a (st_members self)) (\<lambda>member.
     and_then (ensure (is_authorized member ctx) (RegistryAbort ENotAuthorized)) (\<lambda>_.
     and_then (ensure (\<not> mi_resigned member) (RegistryAbort EAlreadyResigned)) (\<lambda>_.
     and_then (if in_current_or_pending_committee self a
               then assert_not_last_active_member self a else Ok ()) (\<lambda>_.
       member_mut self a (\<lambda>m. Ok (m\<lparr>mi_resigned := True\<rparr>)))))))"

definition clear_resignation :: "CommitteeSet \<Rightarrow> address \<Rightarrow> TxContext \<Rightarrow> CommitteeSet tx" where
  "clear_resignation self a ctx =
     and_then (ensure (has_member self a) (RegistryAbort EMemberNotRegistered)) (\<lambda>_.
     and_then (bag_borrow a (st_members self)) (\<lambda>member.
     and_then (ensure (is_authorized member ctx) (RegistryAbort ENotAuthorized)) (\<lambda>_.
     and_then (ensure (mi_resigned member) (RegistryAbort ENotResigned)) (\<lambda>_.
       member_mut self a (\<lambda>m. Ok (m\<lparr>mi_resigned := False\<rparr>))))))"

definition remove_member :: "CommitteeSet \<Rightarrow> address \<Rightarrow> CommitteeSet tx" where
  "remove_member self a =
     and_then (bag_remove a (st_members self)) (\<lambda>(member, ms).
     let self = self\<lparr>st_members := ms\<rparr>
     in if mi_tls_public_key member \<noteq> []
        then and_then (bag_remove (mi_tls_public_key member) (st_tls_public_keys self)) (\<lambda>(_, ks).
               Ok (self\<lparr>st_tls_public_keys := ks\<rparr>))
        else Ok self)"

definition remove_inactive_member :: "CommitteeSet \<Rightarrow> address \<Rightarrow> bool \<Rightarrow> CommitteeSet tx" where
  "remove_inactive_member self a is_active_sui_validator =
     and_then (ensure (has_member self a) (RegistryAbort EMemberNotRegistered)) (\<lambda>_.
     and_then (ensure (\<not> in_current_or_pending_committee self a) (RegistryAbort EMemberStillActive)) (\<lambda>_.
     and_then (bag_borrow a (st_members self)) (\<lambda>member.
     and_then (ensure (\<not> mi_ignored member) (RegistryAbort ECannotRemoveIgnoredMember)) (\<lambda>_.
     and_then (ensure (mi_resigned member \<or> \<not> is_active_sui_validator) (RegistryAbort EMemberNotRemovable)) (\<lambda>_.
       remove_member self a)))))"

section \<open>Reconfiguration\<close>

text \<open>
  The loop pops the validators from the back of the map and skips those without a usable
  registration.
\<close>

definition eligible_member :: "natives \<Rightarrow> CommitteeSet \<Rightarrow> address \<Rightarrow> MemberInfo option" where
  "eligible_member nt self a =
     (case st_members self a of
        None \<Rightarrow> None
      | Some member \<Rightarrow>
          if mi_ignored member then None
          else if mi_resigned member then None
          else if mi_next_epoch_public_key member = g1_identity nt then None
          else if mi_next_epoch_encryption_public_key member = [] then None
          else Some member)"

definition new_committee_from_voting_powers ::
    "natives \<Rightarrow> CommitteeSet \<Rightarrow> u64 \<Rightarrow> (address \<times> u64) list \<Rightarrow> Config \<Rightarrow> Committee tx" where
  "new_committee_from_voting_powers nt self epoch validator_set epoch_config =
     and_then (do_each (\<lambda>(a, weight) committee_members.
         case eligible_member nt self a of
           None \<Rightarrow> Ok committee_members
         | Some member \<Rightarrow>
             and_then (new_committee_member a (mi_next_epoch_public_key member)
                 (mi_next_epoch_encryption_public_key member) weight) (\<lambda>cm.
               Ok (committee_members @ [cm]))) (rev validator_set) []) (\<lambda>committee_members.
       new_committee epoch committee_members epoch_config)"

definition start_reconfig_from_voting_powers ::
    "natives \<Rightarrow> CommitteeSet \<Rightarrow> (address \<times> u64) list \<Rightarrow> Config \<Rightarrow> TxContext \<Rightarrow> CommitteeSet tx" where
  "start_reconfig_from_voting_powers nt self validator_set epoch_config ctx =
     and_then (ensure (\<not> is_reconfiguring self) (FrameworkAbort EAssert)) (\<lambda>_.
     and_then (ensure (\<not> has_committee self (ctx_epoch ctx)) (FrameworkAbort EAssert)) (\<lambda>_.
     and_then (ensure (st_epoch self = 0 \<or> st_epoch self \<noteq> ctx_epoch ctx) (FrameworkAbort EAssert)) (\<lambda>_.
     and_then (new_committee_from_voting_powers nt self (ctx_epoch ctx) validator_set epoch_config) (\<lambda>committee.
     let self = self\<lparr>st_pending_epoch_change :=
           Some \<lparr>pe_epoch = mc_epoch committee, pe_committee_handoff_cert = None\<rparr>\<rparr>
     in and_then (bag_add (mc_epoch committee) committee (st_committees self)) (\<lambda>cs.
          Ok (self\<lparr>st_committees := cs\<rparr>))))))"

definition set_pending_committee_handoff_cert :: "CommitteeSet \<Rightarrow> CommitteeSignature \<Rightarrow> CommitteeSet tx" where
  "set_pending_committee_handoff_cert self cert =
     and_then (ok_or (FrameworkAbort EOptionNotSet) (st_pending_epoch_change self)) (\<lambda>pending.
     and_then (ensure (pe_committee_handoff_cert pending = None) (FrameworkAbort EAssert)) (\<lambda>_.
       Ok (self\<lparr>st_pending_epoch_change := Some (pending\<lparr>pe_committee_handoff_cert := Some cert\<rparr>)\<rparr>)))"

definition committee_set_end_reconfig ::
    "CommitteeSet \<Rightarrow> byte_vector \<Rightarrow> (u64 \<times> CommitteeSignature option \<times> CommitteeSet) tx" where
  "committee_set_end_reconfig self mpc_public_key =
     and_then (ensure (is_reconfiguring self) (FrameworkAbort EAssert)) (\<lambda>_.
     and_then (ok_or (FrameworkAbort EOptionNotSet) (st_pending_epoch_change self)) (\<lambda>pending.
     let self = self\<lparr>st_pending_epoch_change := None\<rparr>;
         next_epoch = pe_epoch pending
     in
     and_then (ensure (has_committee self next_epoch) (FrameworkAbort EAssert)) (\<lambda>_.
     and_then (ensure (length mpc_public_key = 33) (RegistryAbort EInvalidMpcPublicKey)) (\<lambda>_.
     and_then (if st_mpc_public_key self = []
               then Ok (self\<lparr>st_mpc_public_key := mpc_public_key\<rparr>)
               else and_then (ensure (pe_committee_handoff_cert pending \<noteq> None) (FrameworkAbort EAssert)) (\<lambda>_. Ok self)) (\<lambda>self.
     and_then (ensure (st_mpc_public_key self = mpc_public_key) (FrameworkAbort EAssert)) (\<lambda>_.
       Ok (next_epoch, pe_committee_handoff_cert pending, self\<lparr>st_epoch := next_epoch\<rparr>)))))))"

definition insert_committee_handoff ::
    "CommitteeSet \<Rightarrow> u64 \<Rightarrow> u64 \<Rightarrow> CommitteeSignature \<Rightarrow> CommitteeSet tx" where
  "insert_committee_handoff self from_epoch next_epoch cert =
     and_then (ensure (\<not> has_committee_handoff self from_epoch) (FrameworkAbort EAssert)) (\<lambda>_.
     and_then (bag_add from_epoch \<lparr>ch_next_epoch = next_epoch, ch_cert = cert\<rparr> (st_handoffs self)) (\<lambda>hs.
       Ok (self\<lparr>st_handoffs := hs\<rparr>)))"

definition committee_set_abort_reconfig :: "CommitteeSet \<Rightarrow> TxContext \<Rightarrow> CommitteeSet tx" where
  "committee_set_abort_reconfig self ctx =
     and_then (ensure (is_reconfiguring self) (FrameworkAbort EAssert)) (\<lambda>_.
     and_then (ok_or (FrameworkAbort EOptionNotSet) (st_pending_epoch_change self)) (\<lambda>pending.
     and_then (ensure (pe_epoch pending \<noteq> ctx_epoch ctx) (RegistryAbort EPendingEpochStillCurrent)) (\<lambda>_.
     let self = self\<lparr>st_pending_epoch_change := None\<rparr>
     in and_then (bag_remove (pe_epoch pending) (st_committees self)) (\<lambda>(_, cs).
          Ok (self\<lparr>st_committees := cs\<rparr>)))))"

section \<open>The TLS key index\<close>

text \<open>
  Every TLS key in the index belongs to the member registered under its address, and every
  member's nonempty key is in the index under that member.
\<close>

definition tls_index_ok :: "CommitteeSet \<Rightarrow> bool" where
  "tls_index_ok self \<longleftrightarrow>
     (\<forall>key a. st_tls_public_keys self key = Some a \<longleftrightarrow>
        key \<noteq> [] \<and> map_option mi_tls_public_key (st_members self a) = Some key)"

named_theorems committee_set_defs \<open>the operations on the committee set\<close>

lemmas member_ops_defs [committee_set_defs] =
  set_next_epoch_public_key_def set_endpoint_url_def set_operator_address_def
  set_next_epoch_encryption_public_key_def set_member_ignored_def request_resignation_def
  clear_resignation_def authorized_def

lemma tls_index_create: "tls_index_ok committee_set_create"
  by (simp add: tls_index_ok_def committee_set_create_def bag_new_def)

lemma tls_index_cong:
  "st_tls_public_keys s' = st_tls_public_keys s \<Longrightarrow>
   (\<And>a. map_option mi_tls_public_key (st_members s' a) = map_option mi_tls_public_key (st_members s a)) \<Longrightarrow>
   tls_index_ok s \<Longrightarrow> tls_index_ok s'"
  unfolding tls_index_ok_def by simp

lemma tls_index_register:
  assumes "register_member nt s a act = Ok s'" "tls_index_ok s"
  shows "tls_index_ok s'"
  using assms by (auto simp: register_member_def tls_index_ok_def split: if_splits)

lemma tls_index_member_mut:
  assumes "member_mut s a f = Ok s'" "tls_index_ok s"
    and "\<And>m m'. f m = Ok m' \<Longrightarrow> mi_tls_public_key m' = mi_tls_public_key m"
  shows "tls_index_ok s'"
  using assms(1)
  by (intro tls_index_cong [OF _ _ assms(2)]) (auto simp: member_mut_def dest: assms(3))

lemma write_tls_public_key_Ok:
  assumes "write_tls_public_key s a key = Ok s'"
  obtains m where "st_members s a = Some m" "length key = 32"
    "st_tls_public_keys s key = None \<or> st_tls_public_keys s key = Some a"
    "st_members s' = (st_members s)(a \<mapsto> m\<lparr>mi_tls_public_key := key\<rparr>)"
    "st_tls_public_keys s' = (if mi_tls_public_key m \<noteq> []
       then (st_tls_public_keys s)(mi_tls_public_key m := None) else st_tls_public_keys s)(key \<mapsto> a)"
proof -
  obtain m where m: "st_members s a = Some m"
    using assms by (fastforce simp: write_tls_public_key_def)
  note w = assms [unfolded write_tls_public_key_def Let_def and_then_eq_Ok ensure_eq bag_borrow_eq_Ok bag_contains_def]
  show thesis
  proof (rule that [OF m])
    show "length key = 32" using w by blast
    show "st_tls_public_keys s key = None \<or> st_tls_public_keys s key = Some a" using w by blast
    show "st_members s' = (st_members s)(a \<mapsto> m\<lparr>mi_tls_public_key := key\<rparr>)"
      using w m by auto
    show "st_tls_public_keys s' = (if mi_tls_public_key m \<noteq> []
       then (st_tls_public_keys s)(mi_tls_public_key m := None) else st_tls_public_keys s)(key \<mapsto> a)"
      using w m by (auto split: if_splits)
  qed
qed

lemma tls_index_write:
  assumes "write_tls_public_key s a key = Ok s'" "tls_index_ok s"
  shows "tls_index_ok s'"
proof -
  obtain m where m: "st_members s a = Some m" "length key = 32"
      "st_tls_public_keys s key = None \<or> st_tls_public_keys s key = Some a"
    and ms: "st_members s' = (st_members s)(a \<mapsto> m\<lparr>mi_tls_public_key := key\<rparr>)"
    and ks: "st_tls_public_keys s' = (if mi_tls_public_key m \<noteq> []
       then (st_tls_public_keys s)(mi_tls_public_key m := None) else st_tls_public_keys s)(key \<mapsto> a)"
    using assms(1) by (rule write_tls_public_key_Ok)
  have key0: "key \<noteq> []" using m(2) by auto
  define tk where "tk c = map_option mi_tls_public_key (st_members s c)" for c
  have ix: "st_tls_public_keys s k = Some b \<longleftrightarrow> k \<noteq> [] \<and> tk b = Some k" for k b
    using assms(2) by (simp add: tls_index_ok_def tk_def)
  have tka: "tk a = Some (mi_tls_public_key m)" using m(1) by (simp add: tk_def)
  have ms': "map_option mi_tls_public_key (st_members s' b) = (if b = a then Some key else tk b)" for b
    by (simp add: ms tk_def)
  have "st_tls_public_keys s' k = Some b \<longleftrightarrow> k \<noteq> [] \<and> (if b = a then Some key else tk b) = Some k" for k b
  proof (cases "k = key")
    case True
    have "b \<noteq> a \<Longrightarrow> tk b \<noteq> Some key" using ix [of key b] m(3) key0 by auto
    then show ?thesis using True key0 by (auto simp: ks)
  next
    case False
    have "st_tls_public_keys s' k = (if mi_tls_public_key m \<noteq> [] \<and> k = mi_tls_public_key m then None else st_tls_public_keys s k)"
      using False by (auto simp: ks)
    moreover have "b \<noteq> a \<Longrightarrow> k = mi_tls_public_key m \<Longrightarrow> k \<noteq> [] \<Longrightarrow> tk b \<noteq> Some k"
      using ix [of k b] ix [of k a] tka by auto
    ultimately show ?thesis using False ix [of k b] tka by (auto split: if_splits)
  qed
  then show ?thesis by (simp add: tls_index_ok_def ms')
qed

lemma remove_member_Ok:
  assumes "remove_member s a = Ok s'"
  obtains m where "st_members s a = Some m" "st_members s' = (st_members s)(a := None)"
    "st_tls_public_keys s' = (if mi_tls_public_key m \<noteq> []
       then (st_tls_public_keys s)(mi_tls_public_key m := None) else st_tls_public_keys s)"
proof -
  obtain m where m: "st_members s a = Some m"
    using assms by (fastforce simp: remove_member_def)
  note r = assms [unfolded remove_member_def Let_def bag_remove_def bag_borrow_def m]
  show thesis
    by (rule that [OF m]; use r in \<open>auto split: if_splits\<close>)
qed

lemma tls_index_remove:
  assumes "remove_member s a = Ok s'" "tls_index_ok s"
  shows "tls_index_ok s'"
proof -
  obtain m where m: "st_members s a = Some m" "st_members s' = (st_members s)(a := None)"
    and ks: "st_tls_public_keys s' = (if mi_tls_public_key m \<noteq> []
       then (st_tls_public_keys s)(mi_tls_public_key m := None) else st_tls_public_keys s)"
    using assms(1) by (rule remove_member_Ok)
  define tk where "tk c = map_option mi_tls_public_key (st_members s c)" for c
  have ix: "st_tls_public_keys s k = Some b \<longleftrightarrow> k \<noteq> [] \<and> tk b = Some k" for k b
    using assms(2) by (simp add: tls_index_ok_def tk_def)
  have tka: "tk a = Some (mi_tls_public_key m)" using m(1) by (simp add: tk_def)
  have ms': "map_option mi_tls_public_key (st_members s' b) = (if b = a then None else tk b)" for b
    by (simp add: m(2) tk_def)
  have "st_tls_public_keys s' k = Some b \<longleftrightarrow> k \<noteq> [] \<and> (if b = a then None else tk b) = Some k" for k b
  proof -
    have "st_tls_public_keys s' k = (if mi_tls_public_key m \<noteq> [] \<and> k = mi_tls_public_key m then None else st_tls_public_keys s k)"
      by (auto simp: ks)
    moreover have "b \<noteq> a \<Longrightarrow> k = mi_tls_public_key m \<Longrightarrow> k \<noteq> [] \<Longrightarrow> tk b \<noteq> Some k"
      using ix [of k b] ix [of k a] tka by auto
    ultimately show ?thesis using ix [of k b] tka by (auto split: if_splits)
  qed
  then show ?thesis by (simp add: tls_index_ok_def ms')
qed

end
