(* ===== verification/Move_Bag_Sum.thy ===== *)
theory Move_Bag_Sum
  imports Move_Base
begin

text \<open>
  Adding up a quantity over the entries of a bag, and how the sum changes when an entry is added,
  changed or removed; and the contract of a ledger of coins, of which the UTXO pool is the instance
  the bridge uses.
\<close>

definition bag_sum :: "('v \<Rightarrow> nat) \<Rightarrow> ('k, 'v) bag \<Rightarrow> nat" where
  "bag_sum f m = (\<Sum>k \<in> dom m. f (the (m k)))"

named_theorems bag_sums \<open>how sums over bags change\<close>

lemma bag_sum_new [bag_sums]: "bag_sum f bag_new = 0"
  by (simp add: bag_sum_def bag_new_def)

lemma bag_sum_add [bag_sums]:
  assumes "finite (dom m)" "m k = None"
  shows "bag_sum f (m(k \<mapsto> v)) = bag_sum f m + f v"
proof -
  have "(\<Sum>x \<in> dom m. f (the ((m(k \<mapsto> v)) x))) = (\<Sum>x \<in> dom m. f (the (m x)))"
    using assms(2) by (intro sum.cong) auto
  moreover have "k \<notin> dom m" using assms(2) by auto
  ultimately show ?thesis using assms(1) by (simp add: bag_sum_def)
qed

lemma bag_sum_remove [bag_sums]:
  assumes "finite (dom m)" "m k = Some w"
  shows "bag_sum f (m(k := None)) + f w = bag_sum f m"
proof -
  have "m = (m(k := None))(k \<mapsto> w)" using assms(2) by auto
  moreover have "bag_sum f ((m(k := None))(k \<mapsto> w)) = bag_sum f (m(k := None)) + f w"
    using assms(1) by (intro bag_sum_add) auto
  ultimately show ?thesis by simp
qed

lemma bag_sum_change [bag_sums]:
  assumes "finite (dom m)" "m k = Some w"
  shows "bag_sum f (m(k \<mapsto> v)) + f w = bag_sum f m + f v"
proof -
  have "bag_sum f ((m(k := None))(k \<mapsto> v)) = bag_sum f (m(k := None)) + f v"
    using assms(1) by (intro bag_sum_add) auto
  then show ?thesis using bag_sum_remove [OF assms, of f] by simp
qed

lemma bag_sum_ge:
  "finite (dom m) \<Longrightarrow> m k = Some w \<Longrightarrow> f w \<le> bag_sum f m"
  using bag_sum_remove [of m k w f] by linarith

section \<open>Coin ledgers\<close>

text \<open>
  A ledger holds coins: \<open>put\<close> adds a coin's worth to what is held, \<open>take_out\<close> of a coin on record
  removes it and leaves the other coins on record.
\<close>

locale coin_ledger =
  fixes ok :: "'p \<Rightarrow> bool"
    and held :: "'p \<Rightarrow> nat"
    and on_record :: "'p \<Rightarrow> 'u \<Rightarrow> bool"
    and worth :: "'u \<Rightarrow> nat"
    and put :: "'u \<Rightarrow> 'p \<Rightarrow> 'p tx"
    and take_out :: "'u \<Rightarrow> 'p \<Rightarrow> 'p tx"
  assumes put_ok: "put u p = Ok p' \<Longrightarrow> ok p \<Longrightarrow> ok p'"
    and put_held: "put u p = Ok p' \<Longrightarrow> ok p \<Longrightarrow> held p' = held p + worth u"
    and take_ok: "take_out u p = Ok p' \<Longrightarrow> ok p \<Longrightarrow> ok p'"
    and take_held: "take_out u p = Ok p' \<Longrightarrow> ok p \<Longrightarrow> on_record p u \<Longrightarrow> held p' + worth u = held p"
    and take_keeps: "take_out u p = Ok p' \<Longrightarrow> on_record p v \<Longrightarrow> on_record p' v"
begin

lemma put_all:
  "do_each put us p = Ok p' \<Longrightarrow> ok p \<Longrightarrow> ok p' \<and> held p' = held p + sum_list (map worth us)"
proof (induction us arbitrary: p)
  case (Cons u us)
  then obtain q where q: "put u p = Ok q" "do_each put us q = Ok p'" by auto
  then show ?case using Cons.IH [OF q(2)] Cons.prems(2) put_ok put_held by auto
qed simp

lemma take_all:
  "do_each take_out us p = Ok p' \<Longrightarrow> ok p \<Longrightarrow> list_all (on_record p) us \<Longrightarrow>
   ok p' \<and> held p' + sum_list (map worth us) = held p"
proof (induction us arbitrary: p)
  case (Cons u us)
  then obtain q where q: "take_out u p = Ok q" "do_each take_out us q = Ok p'" by auto
  have "list_all (on_record q) us"
    using Cons.prems(3) take_keeps [OF q(1)] by (simp add: list_all_iff)
  then show ?case
    using Cons.IH [OF q(2)] Cons.prems(2,3) take_ok [OF q(1)] take_held [OF q(1)] by simp
qed simp

lemma take_put_all:
  assumes "do_each take_out ins p = Ok q" "do_each put outs q = Ok p'"
    and "ok p" "list_all (on_record p) ins"
  shows "ok p' \<and> held p' + sum_list (map worth ins) = held p + sum_list (map worth outs)"
  using take_all [OF assms(1,3,4)] put_all [OF assms(2)] by simp

end

end
