(* ===== verification/Move_Utxo_Pool.thy ===== *)
theory Move_Utxo_Pool
  imports Move_Bag_Sum
begin

text \<open>
  Bitcoin outpoints and the bridge's record of them (\<^verbatim>\<open>btc/utxo.move\<close>, \<^verbatim>\<open>btc/utxo_pool.move\<close>):
  records enter the pool as deposits or change, are locked by the withdrawal that spends them,
  are marked spent when it confirms, and leave for the permanent set of spent outpoints.
\<close>

section \<open>State\<close>

record UtxoId =
  ui_txid :: address
  ui_vout :: u32

record Utxo =
  u_id :: UtxoId
  u_amount :: u64
  u_derivation_path :: "address option"

record UtxoRecord =
  ur_utxo :: Utxo
  ur_produced_by :: "address option"
  ur_spent_by :: "address option"
  ur_spent_epoch :: "u64 option"

record UtxoPool =
  utxo_records :: "(UtxoId, UtxoRecord) bag"
  spent_utxos :: "(UtxoId, u64) bag"

definition utxo_pool_create :: UtxoPool where
  "utxo_pool_create = \<lparr>utxo_records = bag_new, spent_utxos = bag_new\<rparr>"

section \<open>Operations\<close>

definition is_spent_or_active :: "UtxoPool \<Rightarrow> UtxoId \<Rightarrow> bool" where
  "is_spent_or_active self utxo_id \<longleftrightarrow>
     bag_contains utxo_id (utxo_records self) \<or> bag_contains utxo_id (spent_utxos self)"

definition assert_not_spent_or_active :: "UtxoPool \<Rightarrow> UtxoId \<Rightarrow> unit tx" where
  "assert_not_spent_or_active self utxo_id = ensure (\<not> is_spent_or_active self utxo_id) (PoolAbort EUtxoAlreadyUsed)"

definition insert_active :: "Utxo \<Rightarrow> UtxoPool \<Rightarrow> UtxoPool tx" where
  "insert_active utxo self =
     and_then (assert_not_spent_or_active self (u_id utxo)) (\<lambda>_.
     and_then (bag_add (u_id utxo)
         \<lparr>ur_utxo = utxo, ur_produced_by = None, ur_spent_by = None, ur_spent_epoch = None\<rparr>
         (utxo_records self)) (\<lambda>rs. Ok (self\<lparr>utxo_records := rs\<rparr>)))"

definition insert_pending :: "address \<Rightarrow> Utxo \<Rightarrow> UtxoPool \<Rightarrow> UtxoPool tx" where
  "insert_pending withdrawal_id utxo self =
     and_then (assert_not_spent_or_active self (u_id utxo)) (\<lambda>_.
     and_then (bag_add (u_id utxo)
         \<lparr>ur_utxo = utxo, ur_produced_by = Some withdrawal_id, ur_spent_by = None, ur_spent_epoch = None\<rparr>
         (utxo_records self)) (\<lambda>rs. Ok (self\<lparr>utxo_records := rs\<rparr>)))"

definition get_utxo :: "UtxoPool \<Rightarrow> UtxoId \<Rightarrow> Utxo tx" where
  "get_utxo self utxo_id = and_then (bag_borrow utxo_id (utxo_records self)) (\<lambda>r. Ok (ur_utxo r))"

definition lock :: "address \<Rightarrow> UtxoId \<Rightarrow> UtxoPool \<Rightarrow> UtxoPool tx" where
  "lock withdrawal_id utxo_id self =
     and_then (bag_modify utxo_id (\<lambda>r.
         and_then (ensure (ur_spent_by r = None) (PoolAbort EUtxoAlreadyLocked)) (\<lambda>_.
           Ok (r\<lparr>ur_spent_by := Some withdrawal_id\<rparr>))) (utxo_records self))
       (\<lambda>rs. Ok (self\<lparr>utxo_records := rs\<rparr>))"

definition mark_spent :: "u64 \<Rightarrow> UtxoId \<Rightarrow> UtxoPool \<Rightarrow> UtxoPool tx" where
  "mark_spent epoch utxo_id self =
     and_then (bag_modify utxo_id (\<lambda>r. Ok (r\<lparr>ur_spent_epoch := Some epoch\<rparr>)) (utxo_records self))
       (\<lambda>rs. Ok (self\<lparr>utxo_records := rs\<rparr>))"

definition confirm_pending :: "UtxoId \<Rightarrow> UtxoPool \<Rightarrow> UtxoPool tx" where
  "confirm_pending utxo_id self =
     (if bag_contains utxo_id (utxo_records self)
      then and_then (bag_modify utxo_id (\<lambda>r. Ok (r\<lparr>ur_produced_by := None\<rparr>)) (utxo_records self))
             (\<lambda>rs. Ok (self\<lparr>utxo_records := rs\<rparr>))
      else Ok self)"

definition cleanup_spent :: "UtxoId \<Rightarrow> UtxoPool \<Rightarrow> UtxoPool tx" where
  "cleanup_spent utxo_id self =
     (if bag_contains utxo_id (utxo_records self)
      then and_then (bag_remove utxo_id (utxo_records self)) (\<lambda>(r, rs).
           and_then (ok_or (FrameworkAbort EOptionNotSet) (ur_spent_epoch r)) (\<lambda>epoch.
           and_then (bag_add utxo_id epoch (spent_utxos self)) (\<lambda>ss.
             Ok (self\<lparr>utxo_records := rs, spent_utxos := ss\<rparr>))))
      else Ok self)"

lemmas utxo_pool_ops =
  insert_active_def insert_pending_def get_utxo_def lock_def mark_spent_def confirm_pending_def
  cleanup_spent_def assert_not_spent_or_active_def is_spent_or_active_def bag_contains_def

section \<open>The pool as a ledger\<close>

text \<open>What a record adds to the bitcoin free to be spent.\<close>

definition free_amount :: "UtxoRecord \<Rightarrow> nat" where
  "free_amount r = (if ur_spent_by r = None then unat (u_amount (ur_utxo r)) else 0)"

definition available :: "UtxoPool \<Rightarrow> nat" where
  "available p = bag_sum free_amount (utxo_records p)"

text \<open>
  The pool's own invariant: finitely many records, each under its outpoint and none of them among
  the spent outpoints; a record is marked spent only while it is locked.
\<close>

definition pool_ok :: "UtxoPool \<Rightarrow> bool" where
  "pool_ok p \<longleftrightarrow> finite (dom (utxo_records p)) \<and>
     (\<forall>i r. utxo_records p i = Some r \<longrightarrow>
        u_id (ur_utxo r) = i \<and> spent_utxos p i = None \<and>
        (ur_spent_epoch r \<noteq> None \<longrightarrow> ur_spent_by r \<noteq> None))"

lemma pool_ok_finite [simp]: "pool_ok p \<Longrightarrow> finite (dom (utxo_records p))"
  by (simp add: pool_ok_def)

lemma pool_create: "pool_ok utxo_pool_create" "available utxo_pool_create = 0"
  by (simp_all add: pool_ok_def utxo_pool_create_def available_def bag_sums) (simp add: bag_new_def)

lemma insert_record_ok:
  assumes "pool_ok p" "utxo_records p (u_id u) = None" "spent_utxos p (u_id u) = None"
    "ur_utxo r = u" "ur_spent_epoch r = None"
  shows "pool_ok (p\<lparr>utxo_records := (utxo_records p)(u_id u \<mapsto> r)\<rparr>)"
  using assms by (auto simp: pool_ok_def)

lemma insert_active_Ok:
  "insert_active u p = Ok p' \<longleftrightarrow>
     utxo_records p (u_id u) = None \<and> spent_utxos p (u_id u) = None \<and>
     p' = p\<lparr>utxo_records := (utxo_records p)(u_id u \<mapsto>
       \<lparr>ur_utxo = u, ur_produced_by = None, ur_spent_by = None, ur_spent_epoch = None\<rparr>)\<rparr>"
  by (auto simp: utxo_pool_ops)

lemma insert_pending_Ok:
  "insert_pending w u p = Ok p' \<longleftrightarrow>
     utxo_records p (u_id u) = None \<and> spent_utxos p (u_id u) = None \<and>
     p' = p\<lparr>utxo_records := (utxo_records p)(u_id u \<mapsto>
       \<lparr>ur_utxo = u, ur_produced_by = Some w, ur_spent_by = None, ur_spent_epoch = None\<rparr>)\<rparr>"
  by (auto simp: utxo_pool_ops)

lemma lock_Ok:
  "lock w i p = Ok p' \<longleftrightarrow>
     (\<exists>r. utxo_records p i = Some r \<and> ur_spent_by r = None \<and>
        p' = p\<lparr>utxo_records := (utxo_records p)(i \<mapsto> r\<lparr>ur_spent_by := Some w\<rparr>)\<rparr>)"
  by (auto simp: utxo_pool_ops)

lemma mark_spent_Ok:
  "mark_spent e i p = Ok p' \<longleftrightarrow>
     (\<exists>r. utxo_records p i = Some r \<and>
        p' = p\<lparr>utxo_records := (utxo_records p)(i \<mapsto> r\<lparr>ur_spent_epoch := Some e\<rparr>)\<rparr>)"
  by (auto simp: utxo_pool_ops)

lemma confirm_pending_Ok:
  "confirm_pending i p = Ok p' \<longleftrightarrow>
     (case utxo_records p i of
        None \<Rightarrow> p' = p
      | Some r \<Rightarrow> p' = p\<lparr>utxo_records := (utxo_records p)(i \<mapsto> r\<lparr>ur_produced_by := None\<rparr>)\<rparr>)"
  by (auto simp: utxo_pool_ops split: option.splits)

lemma cleanup_spent_Ok:
  "cleanup_spent i p = Ok p' \<longleftrightarrow>
     (case utxo_records p i of
        None \<Rightarrow> p' = p
      | Some r \<Rightarrow> \<exists>e. ur_spent_epoch r = Some e \<and> spent_utxos p i = None \<and>
          p' = p\<lparr>utxo_records := (utxo_records p)(i := None),
                 spent_utxos := (spent_utxos p)(i \<mapsto> e)\<rparr>)"
  by (auto simp: utxo_pool_ops split: option.splits)

lemma insert_active_ledger:
  assumes "insert_active u p = Ok p'" "pool_ok p"
  shows "pool_ok p'" "available p' = available p + unat (u_amount u)"
  using assms by (auto simp: insert_active_Ok available_def bag_sums free_amount_def
      intro!: insert_record_ok)

lemma insert_pending_ledger:
  assumes "insert_pending w u p = Ok p'" "pool_ok p"
  shows "pool_ok p'" "available p' = available p + unat (u_amount u)"
  using assms by (auto simp: insert_pending_Ok available_def bag_sums free_amount_def
      intro!: insert_record_ok)

text \<open>A change of a record that keeps its coin, and keeps it locked if it was.\<close>

lemma change_record_ok:
  assumes "pool_ok p" "utxo_records p i = Some r" "ur_utxo r' = ur_utxo r"
    "ur_spent_epoch r' \<noteq> None \<Longrightarrow> ur_spent_by r' \<noteq> None"
  shows "pool_ok (p\<lparr>utxo_records := (utxo_records p)(i \<mapsto> r')\<rparr>)"
  using assms by (auto simp: pool_ok_def)

lemma change_record_available:
  assumes "pool_ok p" "utxo_records p i = Some r" "free_amount r' = free_amount r"
  shows "available (p\<lparr>utxo_records := (utxo_records p)(i \<mapsto> r')\<rparr>) = available p"
  using bag_sum_change [of "utxo_records p" i r free_amount r'] assms by (simp add: available_def)

lemma lock_ledger:
  assumes "lock w i p = Ok p'" "pool_ok p"
  shows "pool_ok p'" and "get_utxo p i = Ok u \<Longrightarrow> available p' + unat (u_amount u) = available p"
proof -
  obtain r where r: "utxo_records p i = Some r" "ur_spent_by r = None"
    and p': "p' = p\<lparr>utxo_records := (utxo_records p)(i \<mapsto> r\<lparr>ur_spent_by := Some w\<rparr>)\<rparr>"
    using assms(1) by (auto simp: lock_Ok)
  show "pool_ok p'" unfolding p' using r assms(2) by (intro change_record_ok) auto
  show "available p' + unat (u_amount u) = available p" if "get_utxo p i = Ok u"
    using that r bag_sum_change [OF pool_ok_finite [OF assms(2)] r(1), of free_amount "r\<lparr>ur_spent_by := Some w\<rparr>"]
    by (simp add: p' available_def free_amount_def get_utxo_def)
qed

lemma mark_spent_ledger:
  assumes "mark_spent e i p = Ok p'" "pool_ok p"
    and "\<And>r. utxo_records p i = Some r \<Longrightarrow> ur_spent_by r \<noteq> None"
  shows "pool_ok p'" "available p' = available p"
proof -
  obtain r where r: "utxo_records p i = Some r"
    and p': "p' = p\<lparr>utxo_records := (utxo_records p)(i \<mapsto> r\<lparr>ur_spent_epoch := Some e\<rparr>)\<rparr>"
    using assms(1) by (auto simp: mark_spent_Ok)
  show "pool_ok p'" unfolding p' using r assms(2) assms(3) [OF r] by (intro change_record_ok) auto
  show "available p' = available p"
    unfolding p' using assms(2) r by (intro change_record_available) (auto simp: free_amount_def)
qed

lemma confirm_pending_ledger:
  assumes "confirm_pending i p = Ok p'" "pool_ok p"
  shows "pool_ok p'" "available p' = available p"
proof -
  consider "p' = p" | r where "utxo_records p i = Some r"
      "p' = p\<lparr>utxo_records := (utxo_records p)(i \<mapsto> r\<lparr>ur_produced_by := None\<rparr>)\<rparr>"
    using assms(1) by (auto simp: confirm_pending_Ok split: option.splits)
  then have "pool_ok p' \<and> available p' = available p"
  proof cases
    case 2
    then show ?thesis
      using assms(2) by (auto simp: pool_ok_def free_amount_def intro!: change_record_ok change_record_available)
  qed (simp add: assms(2))
  then show "pool_ok p'" "available p' = available p" by auto
qed

lemma cleanup_spent_ledger:
  assumes "cleanup_spent i p = Ok p'" "pool_ok p"
  shows "pool_ok p'" "available p' = available p"
proof -
  consider "p' = p" | r e where "utxo_records p i = Some r" "ur_spent_epoch r = Some e"
      "p' = p\<lparr>utxo_records := (utxo_records p)(i := None), spent_utxos := (spent_utxos p)(i \<mapsto> e)\<rparr>"
    using assms(1) by (auto simp: cleanup_spent_Ok split: option.splits)
  then have "pool_ok p' \<and> available p' = available p"
  proof cases
    case 2
    have "ur_spent_by r \<noteq> None" using assms(2) 2(1,2) unfolding pool_ok_def by (metis option.distinct(1))
    then have "free_amount r = 0" by (auto simp: free_amount_def)
    then have "available p' = available p"
      using bag_sum_remove [OF pool_ok_finite [OF assms(2)] 2(1), of free_amount] by (simp add: 2(3) available_def)
    then show ?thesis using assms(2) by (auto simp: 2(3) pool_ok_def)
  qed (simp add: assms(2))
  then show "pool_ok p'" "available p' = available p" by auto
qed

text \<open>Locking the inputs of a withdrawal and entering its change, seen as a ledger.\<close>

interpretation commit_ledger: coin_ledger pool_ok available
  "\<lambda>p u. get_utxo p (u_id u) = Ok u" "\<lambda>u. unat (u_amount u)"
  "insert_pending w" "\<lambda>u. lock w (u_id u)" for w
proof
  fix u p p' v
  show "insert_pending w u p = Ok p' \<Longrightarrow> pool_ok p \<Longrightarrow> pool_ok p'"
    by (rule insert_pending_ledger)
  show "insert_pending w u p = Ok p' \<Longrightarrow> pool_ok p \<Longrightarrow> available p' = available p + unat (u_amount u)"
    by (rule insert_pending_ledger)
  show "lock w (u_id u) p = Ok p' \<Longrightarrow> pool_ok p \<Longrightarrow> pool_ok p'"
    by (rule lock_ledger)
  show "lock w (u_id u) p = Ok p' \<Longrightarrow> pool_ok p \<Longrightarrow> get_utxo p (u_id u) = Ok u \<Longrightarrow>
      available p' + unat (u_amount u) = available p"
    by (rule lock_ledger)
  show "lock w (u_id u) p = Ok p' \<Longrightarrow> get_utxo p (u_id v) = Ok v \<Longrightarrow> get_utxo p' (u_id v) = Ok v"
    by (auto simp: lock_Ok get_utxo_def)
qed

section \<open>Replay protection\<close>

text \<open>An outpoint the pool has seen stays known, and a locked one stays locked.\<close>

definition pool_grows :: "UtxoPool \<Rightarrow> UtxoPool \<Rightarrow> bool" where
  "pool_grows p p' \<longleftrightarrow> (\<forall>i. is_spent_or_active p i \<longrightarrow>
     is_spent_or_active p' i \<and>
     (spent_utxos p i \<noteq> None \<longrightarrow> spent_utxos p' i = spent_utxos p i \<and>
        (utxo_records p i = None \<longrightarrow> utxo_records p' i = None)) \<and>
     (\<forall>r'. utxo_records p' i = Some r' \<longrightarrow>
        (\<exists>r. utxo_records p i = Some r \<and> ur_utxo r' = ur_utxo r \<and>
             (ur_spent_by r \<noteq> None \<longrightarrow> ur_spent_by r' = ur_spent_by r) \<and>
             (ur_spent_epoch r \<noteq> None \<longrightarrow> ur_spent_epoch r' \<noteq> None))))"

lemma pool_grows_refl: "pool_grows p p"
  by (auto simp: pool_grows_def is_spent_or_active_def bag_contains_def)

lemma pool_grows_trans:
  assumes "pool_grows p q" "pool_grows q s"
  shows "pool_grows p s"
  unfolding pool_grows_def
proof (intro allI impI conjI)
  fix i assume i: "is_spent_or_active p i"
  note pq = assms(1) [unfolded pool_grows_def, rule_format, OF i]
  then have "is_spent_or_active q i" by blast
  note qs = assms(2) [unfolded pool_grows_def, rule_format, OF this]
  show "is_spent_or_active s i" using qs by blast
  {
    assume sp: "spent_utxos p i \<noteq> None"
    then show "spent_utxos s i = spent_utxos p i" using pq qs by auto
    assume "utxo_records p i = None"
    then show "utxo_records s i = None" using pq qs sp by auto
  }
  fix r' assume r': "utxo_records s i = Some r'"
  obtain q' where q': "utxo_records q i = Some q'" "ur_utxo r' = ur_utxo q'"
      "ur_spent_by q' \<noteq> None \<longrightarrow> ur_spent_by r' = ur_spent_by q'"
      "ur_spent_epoch q' \<noteq> None \<longrightarrow> ur_spent_epoch r' \<noteq> None"
    using qs r' by blast
  obtain r where "utxo_records p i = Some r" "ur_utxo q' = ur_utxo r"
      "ur_spent_by r \<noteq> None \<longrightarrow> ur_spent_by q' = ur_spent_by r"
      "ur_spent_epoch r \<noteq> None \<longrightarrow> ur_spent_epoch q' \<noteq> None"
    using pq q'(1) by blast
  then show "\<exists>r. utxo_records p i = Some r \<and> ur_utxo r' = ur_utxo r \<and>
      (ur_spent_by r \<noteq> None \<longrightarrow> ur_spent_by r' = ur_spent_by r) \<and>
      (ur_spent_epoch r \<noteq> None \<longrightarrow> ur_spent_epoch r' \<noteq> None)"
    using q' by auto
qed

lemma pool_ops_grow:
  "insert_active u p = Ok p' \<Longrightarrow> pool_grows p p'"
  "insert_pending w u p = Ok p' \<Longrightarrow> pool_grows p p'"
  "lock w i p = Ok p' \<Longrightarrow> pool_grows p p'"
  "mark_spent e i p = Ok p' \<Longrightarrow> pool_grows p p'"
  "confirm_pending i p = Ok p' \<Longrightarrow> pool_grows p p'"
  "cleanup_spent i p = Ok p' \<Longrightarrow> pool_grows p p'"
  by (auto simp: insert_active_Ok insert_pending_Ok lock_Ok mark_spent_Ok confirm_pending_Ok
      cleanup_spent_Ok pool_grows_def is_spent_or_active_def bag_contains_def split: option.splits if_splits)

lemma do_each_grows:
  assumes "do_each f xs p = Ok p'" "\<And>x p p'. f x p = Ok p' \<Longrightarrow> pool_grows p p'"
  shows "pool_grows p p'"
  by (rule do_each_preserves [OF assms(1), where P = "pool_grows p"])
    (auto intro: pool_grows_refl pool_grows_trans assms(2))

end
