(* ===== verification/Move_Deposit_Queue.thy ===== *)
theory Move_Deposit_Queue
  imports Move_Committee Move_Utxo_Pool
begin

text \<open>
  The Bitcoin settings (\<^verbatim>\<open>btc/btc_config.move\<close>) and the queue of deposit requests
  (\<^verbatim>\<open>btc/deposit_queue.move\<close>): active requests with the committee's approval, and the archive of
  confirmed ones.
\<close>

section \<open>Bitcoin configuration\<close>

definition DUST_RELAY_MIN_VALUE :: u64 where "DUST_RELAY_MIN_VALUE = 546"

definition btc_init_defaults :: "Config \<Rightarrow> Config" where
  "btc_init_defaults config =
     config_upsert (config_upsert (config_upsert (config_upsert (config_upsert config
       ''bitcoin_deposit_time_delay_ms'' (U64 (10 * 60 * 1000)))
       ''bitcoin_deposit_minimum'' (U64 30000))
       ''bitcoin_withdrawal_minimum'' (U64 30000))
       ''bitcoin_confirmation_threshold'' (U64 6))
       ''withdrawal_cancellation_cooldown_ms'' (U64 (1000 * 60 * 60))"

definition config_u64 :: "Config \<Rightarrow> string \<Rightarrow> u64 tx" where
  "config_u64 self key = and_then (config_get self key) as_u64"

definition bitcoin_withdrawal_minimum :: "Config \<Rightarrow> u64 tx" where
  "bitcoin_withdrawal_minimum self =
     and_then (config_u64 self ''bitcoin_withdrawal_minimum'') (\<lambda>v. Ok (max v (DUST_RELAY_MIN_VALUE + 1)))"

definition bitcoin_deposit_minimum :: "Config \<Rightarrow> u64 tx" where
  "bitcoin_deposit_minimum self =
     and_then (config_u64 self ''bitcoin_deposit_minimum'') (\<lambda>v. Ok (max v DUST_RELAY_MIN_VALUE))"

definition bitcoin_deposit_time_delay_ms :: "Config \<Rightarrow> u64 tx" where
  "bitcoin_deposit_time_delay_ms self = config_u64 self ''bitcoin_deposit_time_delay_ms''"

definition worst_case_network_fee :: "Config \<Rightarrow> u64 tx" where
  "worst_case_network_fee self =
     and_then (bitcoin_withdrawal_minimum self) (\<lambda>v. sub_checked v DUST_RELAY_MIN_VALUE)"

definition withdrawal_cancellation_cooldown_ms :: "Config \<Rightarrow> u64 tx" where
  "withdrawal_cancellation_cooldown_ms self = config_u64 self ''withdrawal_cancellation_cooldown_ms''"

definition set_bitcoin_chain_id :: "Config \<Rightarrow> address \<Rightarrow> Config" where
  "set_bitcoin_chain_id self a = config_upsert self ''bitcoin_chain_id'' (Address a)"

definition set_bitcoin_deposit_time_delay_ms :: "Config \<Rightarrow> u64 \<Rightarrow> Config" where
  "set_bitcoin_deposit_time_delay_ms self v = config_upsert self ''bitcoin_deposit_time_delay_ms'' (U64 v)"

definition set_bitcoin_confirmation_threshold :: "Config \<Rightarrow> u64 \<Rightarrow> Config" where
  "set_bitcoin_confirmation_threshold self v = config_upsert self ''bitcoin_confirmation_threshold'' (U64 v)"

section \<open>Deposit requests\<close>

definition MAX_DEPOSIT_REQUEST_AGE_MS :: u64 where
  "MAX_DEPOSIT_REQUEST_AGE_MS = 1000 * 60 * 60 * 24"

record DepositRequest =
  dr_id :: address
  dr_sender :: address
  dr_created_timestamp_ms :: u64
  dr_sui_tx_digest :: byte_vector
  dr_utxo :: Utxo
  dr_approval_cert :: "CommitteeSignature option"
  dr_approved_timestamp_ms :: "u64 option"
  dr_confirmed_timestamp_ms :: "u64 option"

record DepositRequestQueue =
  dq_requests :: "(address, DepositRequest) bag"
  dq_processed :: "(address, DepositRequest) bag"

definition deposit_queue_create :: DepositRequestQueue where
  "deposit_queue_create = \<lparr>dq_requests = bag_new, dq_processed = bag_new\<rparr>"

definition create_deposit :: "Utxo \<Rightarrow> u64 \<Rightarrow> TxContext \<Rightarrow> DepositRequest" where
  "create_deposit utxo clock ctx =
     \<lparr>dr_id = ctx_new_id ctx, dr_sender = ctx_sender ctx, dr_created_timestamp_ms = clock,
      dr_sui_tx_digest = ctx_digest ctx, dr_utxo = utxo, dr_approval_cert = None,
      dr_approved_timestamp_ms = None, dr_confirmed_timestamp_ms = None\<rparr>"

definition insert_deposit :: "DepositRequestQueue \<Rightarrow> DepositRequest \<Rightarrow> DepositRequestQueue tx" where
  "insert_deposit self request =
     and_then (bag_add (dr_id request) request (dq_requests self)) (\<lambda>rs. Ok (self\<lparr>dq_requests := rs\<rparr>))"

definition remove_request :: "DepositRequestQueue \<Rightarrow> address \<Rightarrow> (DepositRequest \<times> DepositRequestQueue) tx" where
  "remove_request self request_id =
     and_then (bag_remove request_id (dq_requests self)) (\<lambda>(r, rs). Ok (r, self\<lparr>dq_requests := rs\<rparr>))"

definition approve :: "DepositRequest \<Rightarrow> CommitteeSignature \<Rightarrow> u64 \<Rightarrow> DepositRequest" where
  "approve request cert clock =
     request\<lparr>dr_approval_cert := Some cert, dr_approved_timestamp_ms := Some clock\<rparr>"

definition confirm :: "DepositRequest \<Rightarrow> u64 \<Rightarrow> DepositRequest" where
  "confirm request clock = request\<lparr>dr_confirmed_timestamp_ms := Some clock\<rparr>"

definition insert_processed ::
    "DepositRequestQueue \<Rightarrow> DepositRequest \<Rightarrow> (address \<times> address option \<times> DepositRequestQueue) tx" where
  "insert_processed self request =
     and_then (bag_add (dr_id request) request (dq_processed self)) (\<lambda>ps.
       Ok (dr_id request, u_derivation_path (dr_utxo request), self\<lparr>dq_processed := ps\<rparr>))"

definition deposit_is_expired :: "DepositRequest \<Rightarrow> u64 \<Rightarrow> bool tx" where
  "deposit_is_expired request clock =
     and_then (add_checked (dr_created_timestamp_ms request) MAX_DEPOSIT_REQUEST_AGE_MS) (\<lambda>t. Ok (t < clock))"

definition delete_expired :: "DepositRequestQueue \<Rightarrow> address \<Rightarrow> u64 \<Rightarrow> DepositRequestQueue tx" where
  "delete_expired self request_id clock =
     and_then (ensure (\<not> bag_contains request_id (dq_processed self)) (DepositAbort EDepositAlreadyProcessed)) (\<lambda>_.
     and_then (bag_remove request_id (dq_requests self)) (\<lambda>(request, rs).
     and_then (deposit_is_expired request clock) (\<lambda>expired.
     and_then (ensure expired (DepositAbort EDepositRequestNotExpired)) (\<lambda>_.
       Ok (self\<lparr>dq_requests := rs\<rparr>)))))"

definition borrow_deposit_request :: "DepositRequestQueue \<Rightarrow> address \<Rightarrow> DepositRequest tx" where
  "borrow_deposit_request self request_id = bag_borrow request_id (dq_requests self)"

section \<open>What the archive adds up to\<close>

text \<open>The bitcoin that confirmed deposits without a recipient brought in.\<close>

definition unminted_amount :: "DepositRequest \<Rightarrow> nat" where
  "unminted_amount r = (if u_derivation_path (dr_utxo r) = None then unat (u_amount (dr_utxo r)) else 0)"

definition unminted :: "DepositRequestQueue \<Rightarrow> nat" where
  "unminted q = bag_sum unminted_amount (dq_processed q)"

end
