(* ===== verification/Move_Signing.thy ===== *)
theory Move_Signing
  imports Move_Base
begin

text \<open>
  Presignatures and signing batches (\<^verbatim>\<open>core/mpc_signing.move\<close>): the allocator that hands out
  presignature indices, and the per-input slots of a withdrawal that are filled in any order and
  given fresh presignatures when the epoch changes.

  A \<^verbatim>\<open>Presig\<close> is its index. The index of a slot is the nonce its signature consumes, so the lemmas
  of the last section follow where each minted index can end up.
\<close>

section \<open>State\<close>

record PresigAllocator =
  num_consumed :: u64

datatype MpcSig = Pending u64 | Signed byte_vector

record SigningBatch =
  sb_signatures :: "MpcSig list"
  sb_epoch :: u64

section \<open>Allocation\<close>

definition new_allocator :: PresigAllocator where
  "new_allocator = \<lparr>num_consumed = 0\<rparr>"

definition allocate :: "PresigAllocator \<Rightarrow> nat \<Rightarrow> (u64 list \<times> PresigAllocator) tx" where
  "allocate self num =
     (let start = num_consumed self
      in and_then (cast_checked num) (\<lambda>c.
         and_then (add_checked start c) (\<lambda>n.
           Ok (map (\<lambda>j. start + of_nat j) [0..<num], self\<lparr>num_consumed := n\<rparr>))))"

definition reset :: "PresigAllocator \<Rightarrow> PresigAllocator" where
  "reset self = self\<lparr>num_consumed := 0\<rparr>"

section \<open>Batches\<close>

primrec is_pending :: "MpcSig \<Rightarrow> bool" where
  "is_pending (Pending _) = True"
| "is_pending (Signed _) = False"

definition new_batch :: "nat \<Rightarrow> u64 list \<Rightarrow> u64 \<Rightarrow> SigningBatch tx" where
  "new_batch num_inputs presigs epoch =
     and_then (ensure (0 < num_inputs) (SigningAbort EZeroInputs)) (\<lambda>_.
     and_then (ensure (length presigs = num_inputs) (SigningAbort EAllocationMismatch)) (\<lambda>_.
       Ok \<lparr>sb_signatures = map Pending presigs, sb_epoch = epoch\<rparr>))"

text \<open>The counting loop of \<open>signed_count\<close>, and the views derived from it.\<close>

definition signed_count :: "SigningBatch \<Rightarrow> nat" where
  "signed_count self = length (filter (\<lambda>s. \<not> is_pending s) (sb_signatures self))"

definition pending_count :: "SigningBatch \<Rightarrow> nat" where
  "pending_count self = length (sb_signatures self) - signed_count self"

definition is_complete :: "SigningBatch \<Rightarrow> bool" where
  "is_complete self \<longleftrightarrow> signed_count self = length (sb_signatures self)"

text \<open>The loop of \<open>record\<close> over the pairs of an index and a signature.\<close>

definition record_one :: "u64 \<times> byte_vector \<Rightarrow> MpcSig list \<Rightarrow> MpcSig list tx" where
  "record_one p slots =
     (let (i, sig) = p
      in and_then (ensure (unat i < length slots) (SigningAbort EIndexOutOfRange)) (\<lambda>_.
           Ok (if is_pending (slots ! unat i) then slots[unat i := Signed sig] else slots)))"

definition record_sigs :: "SigningBatch \<Rightarrow> u64 list \<Rightarrow> byte_vector list \<Rightarrow> SigningBatch tx" where
  "record_sigs self indices sigs =
     and_then (ensure (length indices = length sigs) (SigningAbort ELengthMismatch)) (\<lambda>_.
     and_then (do_each record_one (zip indices sigs) (sb_signatures self)) (\<lambda>slots.
       Ok (self\<lparr>sb_signatures := slots\<rparr>)))"

text \<open>
  The loop of \<open>reallocate\<close> walks the slots from the last to the first and pops the presignatures
  from the back; \<open>i\<close> counts the slots not yet visited.
\<close>

primrec reallocate_loop :: "nat \<Rightarrow> MpcSig list \<Rightarrow> u64 list \<Rightarrow> (MpcSig list \<times> u64 list) tx" where
  "reallocate_loop 0 slots presigs = Ok (slots, presigs)"
| "reallocate_loop (Suc i) slots presigs =
     (if is_pending (slots ! i)
      then if presigs = [] then Err (FrameworkAbort EIndexOutOfBounds)
           else reallocate_loop i (slots[i := Pending (last presigs)]) (butlast presigs)
      else reallocate_loop i slots presigs)"

definition reallocate :: "SigningBatch \<Rightarrow> u64 list \<Rightarrow> u64 \<Rightarrow> SigningBatch tx" where
  "reallocate self presigs current_epoch =
     and_then (ensure (sb_epoch self \<noteq> current_epoch) (SigningAbort ENotStale)) (\<lambda>_.
     and_then (ensure (length presigs = pending_count self) (SigningAbort EAllocationMismatch)) (\<lambda>_.
     and_then (reallocate_loop (length (sb_signatures self)) (sb_signatures self) presigs) (\<lambda>(slots, presigs).
     and_then (ensure (presigs = []) (FrameworkAbort EIndexOutOfBounds)) (\<lambda>_.
       Ok (self\<lparr>sb_signatures := slots, sb_epoch := current_epoch\<rparr>)))))"

primrec signature_of :: "MpcSig \<Rightarrow> byte_vector tx" where
  "signature_of (Signed sig) = Ok sig"
| "signature_of (Pending _) = Err (SigningAbort ENotComplete)"

definition to_signatures :: "SigningBatch \<Rightarrow> byte_vector list tx" where
  "to_signatures self =
     and_then (ensure (is_complete self) (SigningAbort ENotComplete)) (\<lambda>_. map_each signature_of (sb_signatures self))"

section \<open>What the operations do to the slots\<close>

text \<open>The nonces of a batch: the indices of its pending slots, in input order.\<close>

primrec slot_nonce :: "MpcSig \<Rightarrow> u64 list" where
  "slot_nonce (Pending i) = [i]"
| "slot_nonce (Signed _) = []"

definition nonces :: "MpcSig list \<Rightarrow> u64 list" where
  "nonces slots = concat (map slot_nonce slots)"

lemma nonces_simps [simp]:
  "nonces [] = []" "nonces (s # slots) = slot_nonce s @ nonces slots"
  "nonces (xs @ ys) = nonces xs @ nonces ys" "nonces (map Pending ps) = ps"
  by (auto simp: nonces_def o_def concat_map_singleton)

lemma is_complete_iff: "is_complete self \<longleftrightarrow> (\<forall>s \<in> set (sb_signatures self). \<not> is_pending s)"
proof -
  have "length (filter P xs) = length xs \<longleftrightarrow> (\<forall>x \<in> set xs. P x)" for P and xs :: "MpcSig list"
    by (metis filter_id_conv length_filter_less nat_less_le)
  then show ?thesis by (simp add: is_complete_def signed_count_def)
qed

lemma length_nonces: "length (nonces slots) = length (filter is_pending slots)"
proof (induction slots)
  case (Cons s slots) then show ?case by (cases s) auto
qed simp

lemma pending_count_nonces: "pending_count self = length (nonces (sb_signatures self))"
  using sum_length_filter_compl [of is_pending "sb_signatures self"]
  by (simp add: pending_count_def signed_count_def length_nonces)

lemma is_complete_nonces: "is_complete self \<longleftrightarrow> nonces (sb_signatures self) = []"
  using pending_count_nonces [of self]
  by (auto simp: is_complete_def pending_count_def signed_count_def)
    (metis diff_is_0_eq length_filter_le list.size(3) order_antisym)

lemma allocate_Ok:
  assumes "allocate a n = Ok (ps, a')"
  shows "length ps = n" "distinct ps" "unat (num_consumed a') = unat (num_consumed a) + n"
    and "\<And>p. p \<in> set ps \<Longrightarrow> num_consumed a \<le> p \<and> p < num_consumed a'"
proof -
  note al = assms [unfolded allocate_def Let_def and_then_eq_Ok cast_checked_eq_Ok add_checked_eq_Ok]
  have ps: "ps = map (\<lambda>j. num_consumed a + of_nat j) [0..<n]"
    and n: "n < 2 ^ LENGTH(64)"
    and sum: "unat (num_consumed a) + unat (of_nat n :: u64) < 2 ^ LENGTH(64)"
    and a': "num_consumed a' = num_consumed a + of_nat n"
    using al by auto
  have un: "unat (of_nat n :: u64) = n" by (rule unat_of_nat_less [OF n])
  show "length ps = n" by (simp add: ps)
  show un': "unat (num_consumed a') = unat (num_consumed a) + n"
    using sum [unfolded unat_add_lem] by (simp only: a' un)
  have j: "unat (num_consumed a + of_nat j) = unat (num_consumed a) + j" if "j < n" for j
  proof -
    have uj: "unat (of_nat j :: u64) = j" using that n by (intro unat_of_nat_less) (rule less_trans)
    have "unat (num_consumed a) + unat (of_nat j :: u64) < 2 ^ LENGTH(64)"
      using sum that unfolding uj un by (meson add_less_cancel_left less_trans)
    then have "unat (num_consumed a + of_nat j) = unat (num_consumed a) + unat (of_nat j :: u64)"
      by (rule unat_add_lem [THEN iffD1])
    then show ?thesis by (simp only: uj)
  qed
  show "distinct ps"
    unfolding ps distinct_map
  proof (intro conjI inj_onI)
    fix x y assume xy: "x \<in> set [0..<n]" "y \<in> set [0..<n]"
      and "num_consumed a + of_nat x = num_consumed a + of_nat y"
    then have "unat (num_consumed a + of_nat x) = unat (num_consumed a + of_nat y)" by (simp only:)
    then have "unat (num_consumed a) + x = unat (num_consumed a) + y"
      using xy by (simp only: j set_upt atLeastLessThan_iff)
    then show "x = y" by (rule add_left_imp_eq)
  qed simp
  show "num_consumed a \<le> p \<and> p < num_consumed a'" if "p \<in> set ps" for p
  proof -
    obtain i where i: "i < n" "p = num_consumed a + of_nat i"
      using \<open>p \<in> set ps\<close> unfolding ps set_map set_upt by (elim imageE) (rule that, auto)
    have "unat p = unat (num_consumed a) + i" unfolding i(2) by (rule j [OF i(1)])
    then show ?thesis using \<open>i < n\<close> un' by (simp add: word_le_nat_alt word_less_nat_alt)
  qed
qed

text \<open>Recording only ever turns pending slots into signed ones.\<close>

definition signs_more :: "MpcSig list \<Rightarrow> MpcSig list \<Rightarrow> bool" where
  "signs_more slots slots' \<longleftrightarrow>
     list_all2 (\<lambda>s s'. s' = s \<or> is_pending s \<and> \<not> is_pending s') slots slots'"

lemma signs_more_refl: "signs_more slots slots"
  by (simp add: signs_more_def list_all2_refl)

lemma signs_more_trans: "signs_more xs ys \<Longrightarrow> signs_more ys zs \<Longrightarrow> signs_more xs zs"
  unfolding signs_more_def
  by (rule list_all2_trans [where as = xs and bs = ys and cs = zs
      and ?P1.0 = "\<lambda>s s'. s' = s \<or> is_pending s \<and> \<not> is_pending s'"
      and ?P2.0 = "\<lambda>s s'. s' = s \<or> is_pending s \<and> \<not> is_pending s'"]) auto

lemma record_one_signs: "record_one p slots = Ok slots' \<Longrightarrow> signs_more slots slots'"
  by (auto simp: record_one_def signs_more_def list_all2_conv_all_nth nth_list_update
      split: prod.splits if_splits)

lemma record_sigs_Ok:
  assumes "record_sigs b is sigs = Ok b'"
  shows "signs_more (sb_signatures b) (sb_signatures b')" "sb_epoch b' = sb_epoch b"
proof -
  obtain slots where s: "do_each record_one (zip is sigs) (sb_signatures b) = Ok slots"
      "b' = b\<lparr>sb_signatures := slots\<rparr>"
    using assms by (auto simp: record_sigs_def)
  have "signs_more (sb_signatures b) slots"
    by (rule do_each_preserves [OF s(1), where P = "signs_more (sb_signatures b)"])
      (auto intro: signs_more_refl signs_more_trans record_one_signs)
  then show "signs_more (sb_signatures b) (sb_signatures b')" "sb_epoch b' = sb_epoch b"
    by (simp_all add: s(2))
qed

lemma signs_more_nonces:
  "signs_more slots slots' \<Longrightarrow> mset (nonces slots') \<subseteq># mset (nonces slots)"
  unfolding signs_more_def
proof (induction rule: list_all2_induct)
  case (Cons s slots s' slots')
  then have "mset (slot_nonce s') \<subseteq># mset (slot_nonce s)"
    by (cases s; cases s') auto
  then show ?case using Cons.IH by (simp add: subset_mset.add_mono)
qed simp

lemma signs_more_complete:
  "signs_more slots slots' \<Longrightarrow> nonces slots = [] \<Longrightarrow> slots' = slots"
  unfolding signs_more_def
proof (induction rule: list_all2_induct)
  case (Cons s slots s' slots') then show ?case by (cases s) auto
qed simp

text \<open>Reallocation puts the presignatures, in order, into the pending slots.\<close>

primrec refill :: "MpcSig list \<Rightarrow> u64 list \<Rightarrow> MpcSig list" where
  "refill [] ps = []"
| "refill (s # slots) ps =
     (if is_pending s then Pending (hd ps) # refill slots (tl ps) else s # refill slots ps)"

lemma refill_append:
  "length (nonces xs) \<le> length ps \<Longrightarrow>
   refill (xs @ ys) ps = refill xs ps @ refill ys (drop (length (nonces xs)) ps)"
proof (induction xs arbitrary: ps)
  case (Cons x xs)
  then show ?case by (cases x; cases ps) auto
qed simp

lemma refill_prefix:
  "length (nonces slots) \<le> length ps \<Longrightarrow> refill slots (ps @ qs) = refill slots ps"
proof (induction slots arbitrary: ps)
  case (Cons s slots)
  show ?case
  proof (cases s)
    case (Pending i) then show ?thesis using Cons by (cases ps) auto
  next
    case (Signed sig) then show ?thesis using Cons.IH [of ps] Cons.prems by simp
  qed
qed simp

lemma reallocate_loop_refill:
  "length ps = length (nonces slots) \<Longrightarrow>
   reallocate_loop (length slots) (slots @ rest) ps = Ok (refill slots ps @ rest, [])"
proof (induction slots arbitrary: ps rest rule: rev_induct)
  case (snoc s slots)
  show ?case
  proof (cases s)
    case (Pending i)
    then obtain qs q where ps: "ps = qs @ [q]" "length qs = length (nonces slots)"
      using snoc.prems by (cases ps rule: rev_cases) auto
    then show ?thesis
      using snoc.IH [OF ps(2), of "Pending q # rest"] Pending
      by (simp add: refill_append refill_prefix nth_append list_update_append)
  next
    case (Signed sig)
    then show ?thesis
      using snoc.IH [of ps "s # rest"] snoc.prems by (simp add: refill_append nth_append)
  qed
qed simp

lemma nonces_refill: "length ps = length (nonces slots) \<Longrightarrow> nonces (refill slots ps) = ps"
proof (induction slots arbitrary: ps)
  case (Cons s slots)
  then show ?case by (cases s; cases ps) auto
qed simp

lemma length_refill [simp]: "length (refill slots ps) = length slots"
  by (induction slots arbitrary: ps) auto

lemma reallocate_Ok:
  "reallocate b ps e = Ok b' \<longleftrightarrow>
     sb_epoch b \<noteq> e \<and> length ps = length (nonces (sb_signatures b)) \<and>
     b' = b\<lparr>sb_signatures := refill (sb_signatures b) ps, sb_epoch := e\<rparr>"
  using reallocate_loop_refill [of ps "sb_signatures b" "[]"]
  by (auto simp: reallocate_def pending_count_nonces)

lemma to_signatures_complete:
  assumes "is_complete b"
  obtains sigs where "to_signatures b = Ok sigs" "sb_signatures b = map Signed sigs"
proof -
  have ex: "\<exists>sigs. map_each signature_of slots = Ok sigs \<and> slots = map Signed sigs"
    if "\<forall>s \<in> set slots. \<not> is_pending s" for slots
    using that
  proof (induction slots)
    case (Cons s slots)
    then obtain sigs where "map_each signature_of slots = Ok sigs" "slots = map Signed sigs" by auto
    then show ?case using Cons.prems by (cases s) (auto intro!: exI [of _ "_ # sigs"])
  qed simp
  then obtain sigs where "map_each signature_of (sb_signatures b) = Ok sigs" "sb_signatures b = map Signed sigs"
    using ex [of "sb_signatures b"] assms [unfolded is_complete_iff] by blast
  then show ?thesis using assms by (intro that [of sigs]) (simp_all add: to_signatures_def)
qed

end
