(* ===== verification/Move_Withdrawal_Queue.thy ===== *)
theory Move_Withdrawal_Queue
  imports Move_Deposit_Queue Move_Signing
begin

text \<open>
  Withdrawal requests and withdrawal transactions (\<^verbatim>\<open>btc/withdrawal_queue.move\<close>): creation,
  approval, commitment and cancellation of requests; construction of the Bitcoin transaction with
  its fee split and change; collection of signatures, confirmation, and the deferred archival.

  A request's \<^verbatim>\<open>Balance<BTC>\<close> is the amount it holds; draining it sets it to zero. Lengths of
  vectors are natural numbers, and the fee is divided among the requests as the code divides it.
\<close>

section \<open>State\<close>

record WithdrawalRequest =
  wr_id :: address
  wr_sender :: address
  wr_btc_amount :: u64
  wr_bitcoin_address :: byte_vector
  wr_created_timestamp_ms :: u64
  wr_approval_cert :: "CommitteeSignature option"
  wr_approved_timestamp_ms :: "u64 option"
  wr_withdrawal_txn_id :: "address option"
  wr_sui_tx_digest :: byte_vector
  wr_btc :: u64

record OutputUtxo =
  ou_amount :: u64
  ou_bitcoin_address :: byte_vector

record WithdrawalTransaction =
  wt_id :: address
  wt_txid :: address
  wt_request_ids :: "address list"
  wt_inputs :: "Utxo list"
  wt_withdrawal_outputs :: "OutputUtxo list"
  wt_change_outputs :: "OutputUtxo list"
  wt_created_timestamp_ms :: u64
  wt_signed_timestamp_ms :: "u64 option"
  wt_confirmed_timestamp_ms :: "u64 option"
  wt_randomness :: byte_vector
  wt_signing :: SigningBatch
  wt_guardian_signatures :: "byte_vector list option"

record WithdrawalRequestQueue =
  wq_requests :: "(address, WithdrawalRequest) bag"
  wq_processed :: "(address, WithdrawalRequest) bag"
  wq_withdrawal_txns :: "(address, WithdrawalTransaction) bag"
  wq_confirmed_txns :: "(address, WithdrawalTransaction) bag"

record CommittedRequestInfo =
  ci_btc_amount :: u64
  ci_bitcoin_address :: byte_vector

definition withdrawal_queue_create :: WithdrawalRequestQueue where
  "withdrawal_queue_create =
     \<lparr>wq_requests = bag_new, wq_processed = bag_new, wq_withdrawal_txns = bag_new, wq_confirmed_txns = bag_new\<rparr>"

section \<open>Requests\<close>

definition is_approved :: "WithdrawalRequest \<Rightarrow> bool" where
  "is_approved self \<longleftrightarrow> wr_approval_cert self \<noteq> None"

definition is_committed :: "WithdrawalRequest \<Rightarrow> bool" where
  "is_committed self \<longleftrightarrow> wr_withdrawal_txn_id self \<noteq> None"

definition create_withdrawal :: "u64 \<Rightarrow> byte_vector \<Rightarrow> u64 \<Rightarrow> TxContext \<Rightarrow> WithdrawalRequest tx" where
  "create_withdrawal btc bitcoin_address clock ctx =
     and_then (ensure (length bitcoin_address = 32 \<or> length bitcoin_address = 20) (FrameworkAbort EAssert)) (\<lambda>_.
       Ok \<lparr>wr_id = ctx_new_id ctx, wr_sender = ctx_sender ctx, wr_btc_amount = btc,
           wr_bitcoin_address = bitcoin_address, wr_created_timestamp_ms = clock,
           wr_approval_cert = None, wr_approved_timestamp_ms = None, wr_withdrawal_txn_id = None,
           wr_sui_tx_digest = ctx_digest ctx, wr_btc = btc\<rparr>)"

definition insert_withdrawal :: "WithdrawalRequestQueue \<Rightarrow> WithdrawalRequest \<Rightarrow> WithdrawalRequestQueue tx" where
  "insert_withdrawal self request =
     and_then (bag_add (wr_id request) request (wq_requests self)) (\<lambda>rs. Ok (self\<lparr>wq_requests := rs\<rparr>))"

definition approve_withdrawal ::
    "WithdrawalRequestQueue \<Rightarrow> address \<Rightarrow> CommitteeSignature \<Rightarrow> u64 \<Rightarrow> WithdrawalRequestQueue tx" where
  "approve_withdrawal self request_id cert clock =
     and_then (bag_modify request_id (\<lambda>request.
         and_then (ensure (\<not> is_committed request) (QueueAbort ECannotApproveCommittedRequest)) (\<lambda>_.
         and_then (ensure (case wr_approval_cert request of
                             None \<Rightarrow> True
                           | Some old \<Rightarrow> sig_epoch old < sig_epoch cert) (QueueAbort EApprovalCertNotNewer)) (\<lambda>_.
           Ok (request\<lparr>wr_approval_cert := Some cert, wr_approved_timestamp_ms := Some clock\<rparr>))))
         (wq_requests self)) (\<lambda>rs. Ok (self\<lparr>wq_requests := rs\<rparr>))"

definition extract_request_infos ::
    "WithdrawalRequestQueue \<Rightarrow> address list \<Rightarrow> CommittedRequestInfo list tx" where
  "extract_request_infos self request_ids =
     map_each (\<lambda>i. and_then (bag_borrow i (wq_requests self)) (\<lambda>request.
       Ok \<lparr>ci_btc_amount = wr_btc_amount request, ci_bitcoin_address = wr_bitcoin_address request\<rparr>)) request_ids"

text \<open>One round of \<open>commit_requests\<close>; the state is the bag of requests and the balance collected.\<close>

definition commit_request ::
    "address \<Rightarrow> address \<Rightarrow> (address, WithdrawalRequest) bag \<times> u64 \<Rightarrow> ((address, WithdrawalRequest) bag \<times> u64) tx" where
  "commit_request withdrawal_txn_id i st =
     (let (rs, total_btc) = st
      in and_then (bag_borrow i rs) (\<lambda>request.
         and_then (ensure (is_approved request) (QueueAbort ERequestNotApproved)) (\<lambda>_.
         and_then (ensure (\<not> is_committed request) (QueueAbort ERequestAlreadyCommitted)) (\<lambda>_.
         and_then (add_checked total_btc (wr_btc request)) (\<lambda>total_btc.
           Ok (rs(i \<mapsto> request\<lparr>wr_btc := 0, wr_withdrawal_txn_id := Some withdrawal_txn_id\<rparr>), total_btc))))))"

definition commit_requests ::
    "WithdrawalRequestQueue \<Rightarrow> WithdrawalTransaction \<Rightarrow> (u64 \<times> WithdrawalRequestQueue) tx" where
  "commit_requests self withdrawal_txn =
     and_then (do_each (commit_request (wt_id withdrawal_txn)) (wt_request_ids withdrawal_txn)
         (wq_requests self, 0)) (\<lambda>(rs, total_btc). Ok (total_btc, self\<lparr>wq_requests := rs\<rparr>))"

definition cancel_withdrawal_request ::
    "WithdrawalRequestQueue \<Rightarrow> address \<Rightarrow> (u64 \<times> WithdrawalRequestQueue) tx" where
  "cancel_withdrawal_request self request_id =
     and_then (bag_remove request_id (wq_requests self)) (\<lambda>(request, rs).
     and_then (ensure (\<not> is_committed request) (QueueAbort ERequestNotCancellable)) (\<lambda>_.
       Ok (wr_btc request, self\<lparr>wq_requests := rs\<rparr>)))"

definition is_request_processing :: "WithdrawalRequestQueue \<Rightarrow> address \<Rightarrow> bool" where
  "is_request_processing self request_id =
     (case wq_requests self request_id of
        Some request \<Rightarrow> is_committed request
      | None \<Rightarrow> bag_contains request_id (wq_processed self))"

section \<open>Construction of a transaction\<close>

text \<open>\<open>miner_fee % request_count\<close> and \<open>miner_fee / request_count\<close> abort when there is no request.\<close>

definition split_miner_fee :: "u64 \<Rightarrow> nat \<Rightarrow> u64 tx" where
  "split_miner_fee miner_fee request_count =
     (if request_count = 0 then Err (FrameworkAbort EArithmetic)
      else and_then (ensure (unat miner_fee mod request_count = 0) (QueueAbort EMinerFeeNotEvenlySplit)) (\<lambda>_.
        Ok (of_nat (unat miner_fee div request_count))))"

definition check_output ::
    "u64 \<Rightarrow> CommittedRequestInfo list \<Rightarrow> OutputUtxo list \<Rightarrow> nat \<Rightarrow> unit \<Rightarrow> unit tx" where
  "check_output per_user_miner_fee request_infos outputs i _ =
     and_then (ensure (i < length request_infos) (FrameworkAbort EIndexOutOfBounds)) (\<lambda>_.
     and_then (ensure (i < length outputs) (FrameworkAbort EIndexOutOfBounds)) (\<lambda>_.
     let info = request_infos ! i; output = outputs ! i
     in
     and_then (add_checked per_user_miner_fee DUST_RELAY_MIN_VALUE) (\<lambda>least.
     and_then (ensure (least \<le> ci_btc_amount info) (QueueAbort EOutputBelowDust)) (\<lambda>_.
     and_then (sub_checked (ci_btc_amount info) per_user_miner_fee) (\<lambda>expected.
     and_then (ensure (ou_amount output = expected) (QueueAbort EOutputAmountMismatch)) (\<lambda>_.
       ensure (ou_bitcoin_address output = ci_bitcoin_address info) (QueueAbort EOutputAddressMismatch)))))))"

text \<open>\<open>num_change\<close> times \<open>change_outputs.push_back(outputs.pop_back())\<close>.\<close>

primrec pop_change :: "nat \<Rightarrow> OutputUtxo list \<Rightarrow> OutputUtxo list \<Rightarrow> OutputUtxo list \<times> OutputUtxo list" where
  "pop_change 0 outputs change_outputs = (outputs, change_outputs)"
| "pop_change (Suc n) outputs change_outputs =
     pop_change n (butlast outputs) (change_outputs @ [last outputs])"

definition new_withdrawal_txn ::
    "TxContext \<Rightarrow> address list \<Rightarrow> CommittedRequestInfo list \<Rightarrow> Utxo list \<Rightarrow> OutputUtxo list \<Rightarrow> address
       \<Rightarrow> u64 list \<Rightarrow> u64 \<Rightarrow> Config \<Rightarrow> u64 \<Rightarrow> byte_vector \<Rightarrow> WithdrawalTransaction tx" where
  "new_withdrawal_txn ctx request_ids request_infos inputs outputs txid presigs epoch config clock randomness =
     and_then (worst_case_network_fee config) (\<lambda>max_network_fee.
     and_then (sum_u64 (map u_amount inputs)) (\<lambda>input_amount.
     and_then (sum_u64 (map ou_amount outputs)) (\<lambda>output_amount.
     and_then (ensure (output_amount \<le> input_amount) (QueueAbort EInputsBelowOutputs)) (\<lambda>_.
     let miner_fee = input_amount - output_amount;
         request_count = length request_ids;
         output_count = length outputs
     in
     and_then (ensure (request_count \<le> output_count) (QueueAbort EOutputCountMismatch)) (\<lambda>_.
     and_then (ensure (output_count \<le> 2 ^ 32 - 1) (QueueAbort EOutputCountMismatch)) (\<lambda>_.
     and_then (split_miner_fee miner_fee request_count) (\<lambda>per_user_miner_fee.
     and_then (ensure (per_user_miner_fee \<le> max_network_fee) (QueueAbort EMinerFeeExceedsMax)) (\<lambda>_.
     and_then (do_each (check_output per_user_miner_fee request_infos outputs) [0..<request_count] ()) (\<lambda>_.
     let (withdrawal_outputs, popped) = pop_change (output_count - request_count) outputs []
     in
     and_then (new_batch (length inputs) presigs epoch) (\<lambda>signing.
       Ok \<lparr>wt_id = ctx_new_id ctx, wt_txid = txid, wt_request_ids = request_ids, wt_inputs = inputs,
           wt_withdrawal_outputs = withdrawal_outputs, wt_change_outputs = rev popped,
           wt_created_timestamp_ms = clock, wt_signed_timestamp_ms = None,
           wt_confirmed_timestamp_ms = None, wt_randomness = randomness, wt_signing = signing,
           wt_guardian_signatures = None\<rparr>))))))))))"

text \<open>Output \<open>j\<close> of the change sits at position \<open>withdrawal_outputs.length() + j\<close>, in \<^verbatim>\<open>u32\<close> arithmetic.\<close>

definition change_utxo_id :: "WithdrawalTransaction \<Rightarrow> u32 \<Rightarrow> nat \<Rightarrow> UtxoId tx" where
  "change_utxo_id self base_vout j =
     and_then (cast_checked j) (\<lambda>j.
     and_then (add_checked base_vout j) (\<lambda>vout. Ok \<lparr>ui_txid = wt_txid self, ui_vout = vout\<rparr>))"

definition build_change_utxos :: "WithdrawalTransaction \<Rightarrow> Utxo list tx" where
  "build_change_utxos self =
     and_then (cast_checked (length (wt_withdrawal_outputs self))) (\<lambda>base_vout.
     map_each (\<lambda>j. and_then (change_utxo_id self base_vout j) (\<lambda>i.
       Ok \<lparr>u_id = i, u_amount = ou_amount (wt_change_outputs self ! j), u_derivation_path = None\<rparr>))
       [0..<length (wt_change_outputs self)])"

definition change_utxo_ids :: "WithdrawalTransaction \<Rightarrow> UtxoId list tx" where
  "change_utxo_ids self =
     and_then (cast_checked (length (wt_withdrawal_outputs self))) (\<lambda>base_vout.
       map_each (change_utxo_id self base_vout) [0..<length (wt_change_outputs self)])"

section \<open>Transactions\<close>

definition txn_fully_signed :: "WithdrawalTransaction \<Rightarrow> bool" where
  "txn_fully_signed txn \<longleftrightarrow> is_complete (wt_signing txn) \<and> wt_guardian_signatures txn \<noteq> None"

definition insert_withdrawal_txn ::
    "WithdrawalRequestQueue \<Rightarrow> WithdrawalTransaction \<Rightarrow> WithdrawalRequestQueue tx" where
  "insert_withdrawal_txn self txn =
     and_then (bag_add (wt_id txn) txn (wq_withdrawal_txns self)) (\<lambda>ts. Ok (self\<lparr>wq_withdrawal_txns := ts\<rparr>))"

definition borrow_withdrawal_txn :: "WithdrawalRequestQueue \<Rightarrow> address \<Rightarrow> WithdrawalTransaction tx" where
  "borrow_withdrawal_txn self withdrawal_id = bag_borrow withdrawal_id (wq_withdrawal_txns self)"

text \<open>A change of the transaction under an id, as the functions below make it.\<close>

definition modify_txn ::
    "WithdrawalRequestQueue \<Rightarrow> address \<Rightarrow> (WithdrawalTransaction \<Rightarrow> WithdrawalTransaction tx)
       \<Rightarrow> WithdrawalRequestQueue tx" where
  "modify_txn self withdrawal_id f =
     and_then (bag_modify withdrawal_id f (wq_withdrawal_txns self)) (\<lambda>ts. Ok (self\<lparr>wq_withdrawal_txns := ts\<rparr>))"

definition record_input_signatures ::
    "WithdrawalRequestQueue \<Rightarrow> address \<Rightarrow> u64 list \<Rightarrow> byte_vector list \<Rightarrow> WithdrawalRequestQueue tx" where
  "record_input_signatures self withdrawal_id indices signatures =
     modify_txn self withdrawal_id (\<lambda>txn.
       and_then (ensure (\<not> txn_fully_signed txn) (QueueAbort EWithdrawalAlreadyFinalized)) (\<lambda>_.
       and_then (record_sigs (wt_signing txn) indices signatures) (\<lambda>b. Ok (txn\<lparr>wt_signing := b\<rparr>))))"

text \<open>\<open>emit_withdrawal_signed\<close> reads the signatures again and aborts if one is missing.\<close>

definition finalize_withdrawal_txn ::
    "WithdrawalRequestQueue \<Rightarrow> address \<Rightarrow> byte_vector list \<Rightarrow> u64 \<Rightarrow> WithdrawalRequestQueue tx" where
  "finalize_withdrawal_txn self withdrawal_id guardian_signatures clock =
     modify_txn self withdrawal_id (\<lambda>txn.
       and_then (ensure (\<not> txn_fully_signed txn) (QueueAbort EWithdrawalAlreadyFinalized)) (\<lambda>_.
       and_then (ensure (is_complete (wt_signing txn)) (QueueAbort EWithdrawalNotFullySigned)) (\<lambda>_.
       and_then (to_signatures (wt_signing txn)) (\<lambda>_.
         Ok (txn\<lparr>wt_guardian_signatures := Some guardian_signatures, wt_signed_timestamp_ms := Some clock\<rparr>)))))"

text \<open>\<open>emit_withdrawal_confirmed\<close> computes the change outpoints.\<close>

definition mark_txn_confirmed :: "WithdrawalRequestQueue \<Rightarrow> address \<Rightarrow> u64 \<Rightarrow> WithdrawalRequestQueue tx" where
  "mark_txn_confirmed self withdrawal_id clock =
     modify_txn self withdrawal_id (\<lambda>txn.
       and_then (ensure (wt_confirmed_timestamp_ms txn = None) (QueueAbort EWithdrawalAlreadyConfirmed)) (\<lambda>_.
       and_then (change_utxo_ids txn) (\<lambda>_.
         Ok (txn\<lparr>wt_confirmed_timestamp_ms := Some clock\<rparr>))))"

definition reallocate_presigs_for_withdrawal_txn ::
    "WithdrawalRequestQueue \<Rightarrow> address \<Rightarrow> u64 list \<Rightarrow> u64 \<Rightarrow> byte_vector \<Rightarrow> WithdrawalRequestQueue tx" where
  "reallocate_presigs_for_withdrawal_txn self withdrawal_id presigs current_epoch randomness =
     modify_txn self withdrawal_id (\<lambda>txn.
       let reassigns = (presigs \<noteq> [])
       in and_then (reallocate (wt_signing txn) presigs current_epoch) (\<lambda>b.
            Ok (if reassigns then txn\<lparr>wt_signing := b, wt_randomness := randomness\<rparr> else txn\<lparr>wt_signing := b\<rparr>)))"

definition withdrawal_txn_pending_count :: "WithdrawalRequestQueue \<Rightarrow> address \<Rightarrow> nat tx" where
  "withdrawal_txn_pending_count self withdrawal_id =
     and_then (borrow_withdrawal_txn self withdrawal_id) (\<lambda>txn. Ok (pending_count (wt_signing txn)))"

definition withdrawal_txn_mpc_signatures :: "WithdrawalRequestQueue \<Rightarrow> address \<Rightarrow> byte_vector list tx" where
  "withdrawal_txn_mpc_signatures self withdrawal_id =
     and_then (borrow_withdrawal_txn self withdrawal_id) (\<lambda>txn. to_signatures (wt_signing txn))"

definition withdrawal_txn_is_fully_signed :: "WithdrawalRequestQueue \<Rightarrow> address \<Rightarrow> bool tx" where
  "withdrawal_txn_is_fully_signed self withdrawal_id =
     and_then (borrow_withdrawal_txn self withdrawal_id) (\<lambda>txn. Ok (txn_fully_signed txn))"

section \<open>Archival\<close>

definition archive_request ::
    "address \<Rightarrow> address \<Rightarrow> WithdrawalRequestQueue \<Rightarrow> WithdrawalRequestQueue tx" where
  "archive_request withdrawal_id request_id self =
     (if \<not> bag_contains request_id (wq_requests self) then Ok self
      else and_then (bag_remove request_id (wq_requests self)) (\<lambda>(request, rs).
           and_then (ensure (wr_withdrawal_txn_id request = Some withdrawal_id) (QueueAbort ERequestTxnMismatch)) (\<lambda>_.
           and_then (bag_add request_id request (wq_processed self)) (\<lambda>ps.
             Ok (self\<lparr>wq_requests := rs, wq_processed := ps\<rparr>)))))"

definition move_to_confirmed :: "address \<Rightarrow> WithdrawalRequestQueue \<Rightarrow> WithdrawalRequestQueue tx" where
  "move_to_confirmed withdrawal_id self =
     and_then (bag_remove withdrawal_id (wq_withdrawal_txns self)) (\<lambda>(txn, ts).
     and_then (bag_add withdrawal_id txn (wq_confirmed_txns self)) (\<lambda>cs.
       Ok (self\<lparr>wq_withdrawal_txns := ts, wq_confirmed_txns := cs\<rparr>)))"

definition archive_withdrawal_txn :: "address \<Rightarrow> WithdrawalRequestQueue \<Rightarrow> WithdrawalRequestQueue tx" where
  "archive_withdrawal_txn withdrawal_id self =
     (case wq_withdrawal_txns self withdrawal_id of
        None \<Rightarrow> Ok self
      | Some txn \<Rightarrow>
          and_then (ensure (wt_confirmed_timestamp_ms txn \<noteq> None) (QueueAbort EWithdrawalNotConfirmed)) (\<lambda>_.
          and_then (do_each (archive_request withdrawal_id) (wt_request_ids txn) self) (move_to_confirmed withdrawal_id)))"

definition archive_withdrawal_requests ::
    "address \<Rightarrow> address list \<Rightarrow> WithdrawalRequestQueue \<Rightarrow> WithdrawalRequestQueue tx" where
  "archive_withdrawal_requests withdrawal_id request_ids self =
     (case wq_withdrawal_txns self withdrawal_id of
        None \<Rightarrow> Ok self
      | Some txn \<Rightarrow>
          and_then (ensure (wt_confirmed_timestamp_ms txn \<noteq> None) (QueueAbort EWithdrawalNotConfirmed)) (\<lambda>_.
            do_each (archive_request withdrawal_id) request_ids self))"

definition finish_archive_withdrawal_txn :: "address \<Rightarrow> WithdrawalRequestQueue \<Rightarrow> WithdrawalRequestQueue tx" where
  "finish_archive_withdrawal_txn withdrawal_id self =
     (case wq_withdrawal_txns self withdrawal_id of
        None \<Rightarrow> Ok self
      | Some txn \<Rightarrow>
          and_then (ensure (wt_confirmed_timestamp_ms txn \<noteq> None) (QueueAbort EWithdrawalNotConfirmed)) (\<lambda>_.
            if list_ex (\<lambda>i. \<not> bag_contains i (wq_processed self)) (wt_request_ids txn) then Ok self
            else move_to_confirmed withdrawal_id self))"

end
