(* ===== verification/Move_Bridge.thy ===== *)
theory Move_Bridge
  imports Move_Committee_Set Move_Withdrawal_Queue
begin

text \<open>
  The shared object \<^verbatim>\<open>Hashi\<close> and the entry functions of the bridge: deposits
  (\<^verbatim>\<open>btc/deposit.move\<close>), withdrawals (\<^verbatim>\<open>btc/withdraw.move\<close>), the reconfiguration of the committee
  (\<^verbatim>\<open>core/reconfig.move\<close>) and the launch (\<^verbatim>\<open>hashi.move\<close>), over the treasury
  (\<^verbatim>\<open>core/treasury.move\<close>) and the Bitcoin state (\<^verbatim>\<open>btc/bitcoin_state.move\<close>).

  The governance proposals and the certificates of the total-order broadcast hang off the same
  object but are not read by these functions; they are left out of the state. The clock, the random
  bytes and the amount of the balance a caller passes in are arguments.
\<close>

section \<open>Treasury\<close>

text \<open>
  The treasury cap is represented by the total supply it carries. \<^verbatim>\<open>increase_supply\<close> and
  \<^verbatim>\<open>decrease_supply\<close> of \<^verbatim>\<open>sui::balance\<close> abort on overflow and underflow.
\<close>

record Treasury =
  t_treasury_cap :: "u64 option"
  t_metadata_cap :: bool

definition treasury_create :: Treasury where
  "treasury_create = \<lparr>t_treasury_cap = None, t_metadata_cap = False\<rparr>"

definition register_treasury_cap :: "Treasury \<Rightarrow> u64 \<Rightarrow> Treasury tx" where
  "register_treasury_cap self supply =
     (case t_treasury_cap self of
        None \<Rightarrow> Ok (self\<lparr>t_treasury_cap := Some supply\<rparr>)
      | Some _ \<Rightarrow> Err (FrameworkAbort EFieldAlreadyExists))"

definition register_metadata_cap :: "Treasury \<Rightarrow> Treasury tx" where
  "register_metadata_cap self =
     (if t_metadata_cap self then Err (FrameworkAbort EFieldAlreadyExists) else Ok (self\<lparr>t_metadata_cap := True\<rparr>))"

definition mint_balance :: "Treasury \<Rightarrow> u64 \<Rightarrow> Treasury tx" where
  "mint_balance self amount =
     and_then (ok_or (FrameworkAbort EFieldDoesNotExist) (t_treasury_cap self)) (\<lambda>supply.
     and_then (ensure (amount < 18446744073709551615 - supply) (FrameworkAbort ESupplyOverflow)) (\<lambda>_.
       Ok (self\<lparr>t_treasury_cap := Some (supply + amount)\<rparr>)))"

definition burn :: "Treasury \<Rightarrow> u64 \<Rightarrow> Treasury tx" where
  "burn self balance =
     and_then (ok_or (FrameworkAbort EFieldDoesNotExist) (t_treasury_cap self)) (\<lambda>supply.
     and_then (ensure (balance \<le> supply) (FrameworkAbort ESupplyOverflow)) (\<lambda>_.
       Ok (self\<lparr>t_treasury_cap := Some (supply - balance)\<rparr>)))"

section \<open>Bitcoin state\<close>

text \<open>The bag of a user's request ids is the list of its keys.\<close>

record BitcoinState =
  bs_deposit_queue :: DepositRequestQueue
  bs_withdrawal_queue :: WithdrawalRequestQueue
  bs_utxo_pool :: UtxoPool
  bs_user_requests :: "(address, address list) bag"

definition bitcoin_state_new :: BitcoinState where
  "bitcoin_state_new =
     \<lparr>bs_deposit_queue = deposit_queue_create, bs_withdrawal_queue = withdrawal_queue_create,
      bs_utxo_pool = utxo_pool_create, bs_user_requests = bag_new\<rparr>"

definition index_user_request :: "BitcoinState \<Rightarrow> address \<Rightarrow> address \<Rightarrow> BitcoinState tx" where
  "index_user_request self user request_id =
     (let ids = (case bs_user_requests self user of None \<Rightarrow> [] | Some ids \<Rightarrow> ids)
      in if request_id \<in> set ids then Err (FrameworkAbort EFieldAlreadyExists)
         else Ok (self\<lparr>bs_user_requests := (bs_user_requests self)(user \<mapsto> ids @ [request_id])\<rparr>))"

definition unindex_user_request :: "BitcoinState \<Rightarrow> address \<Rightarrow> address \<Rightarrow> BitcoinState" where
  "unindex_user_request self user request_id =
     (case bs_user_requests self user of
        None \<Rightarrow> self
      | Some ids \<Rightarrow>
          let ids = filter (\<lambda>i. i \<noteq> request_id) ids
          in self\<lparr>bs_user_requests := (bs_user_requests self)(user := (if ids = [] then None else Some ids))\<rparr>)"

section \<open>The shared object\<close>

record Hashi =
  hs_id :: address
  hs_committee_set :: CommitteeSet
  hs_config :: Config
  hs_epoch_config :: Config
  hs_versioning :: Versioning
  hs_treasury :: Treasury
  hs_presig_allocator :: PresigAllocator
  hs_bitcoin :: BitcoinState

definition mpc_init_defaults :: "Config \<Rightarrow> Config" where
  "mpc_init_defaults config =
     config_upsert (config_upsert (config_upsert config
       ''mpc_weight_reduction_allowed_delta'' (U64 800))
       ''mpc_max_faulty_in_basis_points'' (U64 3333))
       ''mpc_nonce_accumulation_window_ms'' (U64 2000)"

definition hashi_init :: "TxContext \<Rightarrow> Hashi" where
  "hashi_init ctx =
     \<lparr>hs_id = ctx_new_id ctx, hs_committee_set = committee_set_create,
      hs_config = btc_init_defaults config_create, hs_epoch_config = mpc_init_defaults config_empty,
      hs_versioning = versioning_create, hs_treasury = treasury_create,
      hs_presig_allocator = new_allocator, hs_bitcoin = bitcoin_state_new\<rparr>"

definition assert_unpaused :: "Hashi \<Rightarrow> unit tx" where
  "assert_unpaused self = and_then (paused (hs_config self)) (\<lambda>p. ensure (\<not> p) (SystemAbort ESystemPaused))"

definition assert_not_reconfiguring :: "Hashi \<Rightarrow> unit tx" where
  "assert_not_reconfiguring self =
     and_then (ensure (\<not> is_reconfiguring (hs_committee_set self)) (SystemAbort EReconfiguring)) (\<lambda>_.
       ensure (has_committee (hs_committee_set self) (st_epoch (hs_committee_set self))) (SystemAbort ENoCommittee))"

definition verify :: "natives \<Rightarrow> Hashi \<Rightarrow> u16 \<Rightarrow> byte_vector \<Rightarrow> CommitteeSignature \<Rightarrow> u64 tx" where
  "verify nt self intent message_bcs sig =
     and_then (current_committee (hs_committee_set self)) (\<lambda>committee.
       verify_with_committee nt (hs_id self) committee intent message_bcs sig)"

definition allocate_presigs :: "Hashi \<Rightarrow> nat \<Rightarrow> (u64 list \<times> Hashi) tx" where
  "allocate_presigs self num =
     and_then (allocate (hs_presig_allocator self) num) (\<lambda>(presigs, a).
       Ok (presigs, self\<lparr>hs_presig_allocator := a\<rparr>))"

definition reset_presig_allocator :: "Hashi \<Rightarrow> Hashi" where
  "reset_presig_allocator self = self\<lparr>hs_presig_allocator := reset (hs_presig_allocator self)\<rparr>"

text \<open>The parts of the Bitcoin state, read and replaced.\<close>

abbreviation hs_queue :: "Hashi \<Rightarrow> WithdrawalRequestQueue" where
  "hs_queue h \<equiv> bs_withdrawal_queue (hs_bitcoin h)"

abbreviation hs_pool :: "Hashi \<Rightarrow> UtxoPool" where
  "hs_pool h \<equiv> bs_utxo_pool (hs_bitcoin h)"

abbreviation hs_deposits :: "Hashi \<Rightarrow> DepositRequestQueue" where
  "hs_deposits h \<equiv> bs_deposit_queue (hs_bitcoin h)"

definition with_queue :: "Hashi \<Rightarrow> WithdrawalRequestQueue \<Rightarrow> Hashi" where
  "with_queue h q = h\<lparr>hs_bitcoin := (hs_bitcoin h)\<lparr>bs_withdrawal_queue := q\<rparr>\<rparr>"

definition with_pool :: "Hashi \<Rightarrow> UtxoPool \<Rightarrow> Hashi" where
  "with_pool h p = h\<lparr>hs_bitcoin := (hs_bitcoin h)\<lparr>bs_utxo_pool := p\<rparr>\<rparr>"

definition with_deposits :: "Hashi \<Rightarrow> DepositRequestQueue \<Rightarrow> Hashi" where
  "with_deposits h d = h\<lparr>hs_bitcoin := (hs_bitcoin h)\<lparr>bs_deposit_queue := d\<rparr>\<rparr>"

text \<open>The guards at the head of the entry functions.\<close>

definition assert_enabled :: "Hashi \<Rightarrow> unit tx" where
  "assert_enabled h = assert_version_enabled (hs_versioning h)"

definition assert_open :: "Hashi \<Rightarrow> unit tx" where
  "assert_open h = and_then (assert_enabled h) (\<lambda>_. assert_unpaused h)"

definition assert_operating :: "Hashi \<Rightarrow> unit tx" where
  "assert_operating h = and_then (assert_open h) (\<lambda>_. assert_not_reconfiguring h)"

section \<open>Signed messages\<close>

definition bcs_utxo_id :: "UtxoId \<Rightarrow> byte_vector" where
  "bcs_utxo_id i = bcs_address (ui_txid i) @ bcs_u32 (ui_vout i)"

definition bcs_utxo :: "Utxo \<Rightarrow> byte_vector" where
  "bcs_utxo u = bcs_utxo_id (u_id u) @ bcs_u64 (u_amount u) @ bcs_option bcs_address (u_derivation_path u)"

definition bcs_output_utxo :: "OutputUtxo \<Rightarrow> byte_vector" where
  "bcs_output_utxo u = bcs_u64 (ou_amount u) @ bcs_bytes (ou_bitcoin_address u)"

definition DepositConfirmationMessage :: "address \<Rightarrow> Utxo \<Rightarrow> byte_vector" where
  "DepositConfirmationMessage request_id utxo = bcs_address request_id @ bcs_utxo utxo"

definition RequestApprovalMessage :: "address \<Rightarrow> byte_vector" where
  "RequestApprovalMessage request_id = bcs_address request_id"

definition WithdrawalCommitmentMessage ::
    "address list \<Rightarrow> UtxoId list \<Rightarrow> OutputUtxo list \<Rightarrow> address \<Rightarrow> byte_vector" where
  "WithdrawalCommitmentMessage request_ids selected_utxos outputs txid =
     bcs_vector bcs_address request_ids @ bcs_vector bcs_utxo_id selected_utxos @
     bcs_vector bcs_output_utxo outputs @ bcs_address txid"

definition MpcInputSignaturesMessage :: "address \<Rightarrow> u64 list \<Rightarrow> byte_vector list \<Rightarrow> byte_vector" where
  "MpcInputSignaturesMessage withdrawal_id indices signatures =
     bcs_address withdrawal_id @ bcs_vector bcs_u64 indices @ bcs_vector bcs_bytes signatures"

definition WithdrawalSignedMessage :: "address \<Rightarrow> byte_vector list \<Rightarrow> byte_vector list \<Rightarrow> byte_vector" where
  "WithdrawalSignedMessage withdrawal_id signatures guardian_signatures =
     bcs_address withdrawal_id @ bcs_vector bcs_bytes signatures @ bcs_vector bcs_bytes guardian_signatures"

definition WithdrawalConfirmationMessage :: "address \<Rightarrow> byte_vector" where
  "WithdrawalConfirmationMessage withdrawal_id = bcs_address withdrawal_id"

definition ReconfigCompletionMessage :: "u64 \<Rightarrow> byte_vector \<Rightarrow> byte_vector" where
  "ReconfigCompletionMessage epoch mpc_public_key = bcs_u64 epoch @ bcs_bytes mpc_public_key"

definition CommitteeTransitionRequest :: "Committee \<Rightarrow> byte_vector" where
  "CommitteeTransitionRequest committee = bcs_committee committee"

section \<open>Launch\<close>

text \<open>
  \<open>this_package_id\<close> is the id the package was published under. \<^verbatim>\<open>btc::create\<close> registers the
  currency with Sui's coin registry and returns its caps, with nothing minted.
\<close>

definition finish_publish ::
    "address \<Rightarrow> Hashi \<Rightarrow> UpgradeCap \<Rightarrow> address \<Rightarrow> string \<Rightarrow> string \<Rightarrow> byte_vector
       \<Rightarrow> u64 option \<Rightarrow> u64 option \<Rightarrow> Hashi tx" where
  "finish_publish this_package_id self cap chain_id url node_url btc_public_key threshold delay =
     and_then (assert_enabled self) (\<lambda>_.
     and_then (ensure (uc_package cap = this_package_id) (SystemAbort EWrongUpgradeCap)) (\<lambda>_.
     and_then (set_upgrade_cap (hs_versioning self) cap) (\<lambda>v.
     let config = set_guardian_node_url (set_guardian_url
           (set_bitcoin_chain_id (hs_config self) chain_id) url) node_url
     in
     and_then (set_guardian_btc_public_key config btc_public_key) (\<lambda>config.
     let config = (case threshold of None \<Rightarrow> config | Some t \<Rightarrow> set_bitcoin_confirmation_threshold config t);
         config = (case delay of None \<Rightarrow> config | Some d \<Rightarrow> set_bitcoin_deposit_time_delay_ms config d)
     in
     and_then (register_treasury_cap (hs_treasury self) 0) (\<lambda>t.
     and_then (register_metadata_cap t) (\<lambda>t.
       Ok (self\<lparr>hs_versioning := v, hs_config := config, hs_treasury := t\<rparr>)))))))"

section \<open>Deposits\<close>

definition deposit :: "Hashi \<Rightarrow> Utxo \<Rightarrow> u64 \<Rightarrow> TxContext \<Rightarrow> Hashi tx" where
  "deposit hashi utxo clock ctx =
     and_then (assert_open hashi) (\<lambda>_.
     and_then (bitcoin_deposit_minimum (hs_config hashi)) (\<lambda>least.
     and_then (ensure (least \<le> u_amount utxo) (DepositAbort EBelowMinimumDeposit)) (\<lambda>_.
     and_then (assert_not_spent_or_active (hs_pool hashi) (u_id utxo)) (\<lambda>_.
     and_then (insert_deposit (hs_deposits hashi) (create_deposit utxo clock ctx)) (\<lambda>d.
       Ok (with_deposits hashi d))))))"

definition approve_deposit ::
    "natives \<Rightarrow> Hashi \<Rightarrow> address \<Rightarrow> CommitteeSignature \<Rightarrow> u64 \<Rightarrow> Hashi tx" where
  "approve_deposit nt hashi request_id cert clock =
     and_then (assert_operating hashi) (\<lambda>_.
     and_then (borrow_deposit_request (hs_deposits hashi) request_id) (\<lambda>request.
     let utxo = dr_utxo request
     in
     and_then (assert_not_spent_or_active (hs_pool hashi) (u_id utxo)) (\<lambda>_.
     and_then (current_committee (hs_committee_set hashi)) (\<lambda>committee.
     and_then (ensure (case dr_approval_cert request of
                         None \<Rightarrow> True
                       | Some existing \<Rightarrow> sig_epoch existing \<noteq> mc_epoch committee) (DepositAbort EAlreadyApprovedThisEpoch)) (\<lambda>_.
     and_then (verify nt hashi deposit_confirmation_intent (DepositConfirmationMessage request_id utxo) cert) (\<lambda>_.
       Ok (with_deposits hashi ((hs_deposits hashi)\<lparr>dq_requests :=
         (dq_requests (hs_deposits hashi))(request_id \<mapsto> approve request cert clock)\<rparr>))))))))"

definition confirm_deposit :: "natives \<Rightarrow> Hashi \<Rightarrow> address \<Rightarrow> u64 \<Rightarrow> Hashi tx" where
  "confirm_deposit nt hashi request_id clock =
     and_then (assert_operating hashi) (\<lambda>_.
     and_then (borrow_deposit_request (hs_deposits hashi) request_id) (\<lambda>request.
     let utxo = dr_utxo request
     in
     and_then (assert_not_spent_or_active (hs_pool hashi) (u_id utxo)) (\<lambda>_.
     and_then (remove_request (hs_deposits hashi) request_id) (\<lambda>(request, d).
     let hashi = with_deposits hashi d
     in
     and_then (ok_or (FrameworkAbort EOptionNotSet) (dr_approval_cert request)) (\<lambda>cert.
     and_then (ok_or (FrameworkAbort EOptionNotSet) (dr_approved_timestamp_ms request)) (\<lambda>approved_timestamp_ms.
     and_then (verify nt hashi deposit_confirmation_intent (DepositConfirmationMessage request_id utxo) cert) (\<lambda>_.
     and_then (bitcoin_deposit_time_delay_ms (hs_config hashi)) (\<lambda>delay.
     and_then (add_checked approved_timestamp_ms delay) (\<lambda>t.
     and_then (ensure (t \<le> clock) (DepositAbort EDepositTimeDelayNotPassed)) (\<lambda>_.
     let request = confirm request clock
     in
     and_then (case u_derivation_path utxo of
                 Some recipient \<Rightarrow> mint_balance (hs_treasury hashi) (u_amount utxo)
               | None \<Rightarrow> Ok (hs_treasury hashi)) (\<lambda>t.
     let hashi = hashi\<lparr>hs_treasury := t\<rparr>
     in
     and_then (insert_active utxo (hs_pool hashi)) (\<lambda>p.
     let hashi = with_pool hashi p
     in
     and_then (insert_processed (hs_deposits hashi) request) (\<lambda>(req_id, recipient_opt, d).
     let hashi = with_deposits hashi d
     in
     (case recipient_opt of
        Some recipient \<Rightarrow>
          and_then (index_user_request (hs_bitcoin hashi) recipient req_id) (\<lambda>b. Ok (hashi\<lparr>hs_bitcoin := b\<rparr>))
      | None \<Rightarrow> Ok hashi))))))))))))))"

definition delete_expired_deposit :: "Hashi \<Rightarrow> address \<Rightarrow> u64 \<Rightarrow> Hashi tx" where
  "delete_expired_deposit hashi request_id clock =
     and_then (assert_enabled hashi) (\<lambda>_.
     and_then (delete_expired (hs_deposits hashi) request_id clock) (\<lambda>d. Ok (with_deposits hashi d)))"

section \<open>Withdrawals\<close>

definition request_withdrawal ::
    "Hashi \<Rightarrow> u64 \<Rightarrow> u64 \<Rightarrow> byte_vector \<Rightarrow> TxContext \<Rightarrow> Hashi tx" where
  "request_withdrawal hashi clock btc bitcoin_address ctx =
     and_then (assert_open hashi) (\<lambda>_.
     and_then (bitcoin_withdrawal_minimum (hs_config hashi)) (\<lambda>least.
     and_then (ensure (least \<le> btc) (WithdrawAbort EBelowMinimumWithdrawal)) (\<lambda>_.
     and_then (ensure (length bitcoin_address = 20 \<or> length bitcoin_address = 32) (WithdrawAbort EInvalidBitcoinAddress)) (\<lambda>_.
     and_then (create_withdrawal btc bitcoin_address clock ctx) (\<lambda>request.
     and_then (insert_withdrawal (hs_queue hashi) request) (\<lambda>q.
     let hashi = with_queue hashi q
     in and_then (index_user_request (hs_bitcoin hashi) (ctx_sender ctx) (wr_id request)) (\<lambda>b.
          Ok (hashi\<lparr>hs_bitcoin := b\<rparr>))))))))"

text \<open>\<open>cancel_withdrawal\<close> returns the balance refunded to the requester.\<close>

definition cancel_withdrawal :: "Hashi \<Rightarrow> address \<Rightarrow> u64 \<Rightarrow> TxContext \<Rightarrow> (u64 \<times> Hashi) tx" where
  "cancel_withdrawal hashi request_id clock ctx =
     and_then (assert_enabled hashi) (\<lambda>_.
     and_then (ensure (\<not> is_request_processing (hs_queue hashi) request_id) (WithdrawAbort ECannotCancelProcessingWithdrawal)) (\<lambda>_.
     and_then (bag_borrow request_id (wq_requests (hs_queue hashi))) (\<lambda>request.
     and_then (ensure (wr_sender request = ctx_sender ctx) (WithdrawAbort EUnauthorizedCancellation)) (\<lambda>_.
     and_then (withdrawal_cancellation_cooldown_ms (hs_config hashi)) (\<lambda>cooldown.
     and_then (add_checked (wr_created_timestamp_ms request) cooldown) (\<lambda>t.
     and_then (ensure (t \<le> clock) (WithdrawAbort ECooldownNotElapsed)) (\<lambda>_.
     and_then (cancel_withdrawal_request (hs_queue hashi) request_id) (\<lambda>(btc, q).
     let hashi = with_queue hashi q
     in Ok (btc, hashi\<lparr>hs_bitcoin := unindex_user_request (hs_bitcoin hashi) (ctx_sender ctx) request_id\<rparr>)))))))))"

definition approve_request ::
    "natives \<Rightarrow> Hashi \<Rightarrow> address \<Rightarrow> CommitteeSignature \<Rightarrow> u64 \<Rightarrow> Hashi tx" where
  "approve_request nt hashi request_id cert clock =
     and_then (assert_operating hashi) (\<lambda>_.
     and_then (verify nt hashi withdrawal_request_approval_intent (RequestApprovalMessage request_id) cert) (\<lambda>_.
     and_then (approve_withdrawal (hs_queue hashi) request_id cert clock) (\<lambda>q. Ok (with_queue hashi q))))"

definition commit_withdrawal_tx ::
    "natives \<Rightarrow> Hashi \<Rightarrow> address list \<Rightarrow> UtxoId list \<Rightarrow> OutputUtxo list \<Rightarrow> address
       \<Rightarrow> CommitteeSignature \<Rightarrow> u64 \<Rightarrow> byte_vector \<Rightarrow> TxContext \<Rightarrow> Hashi tx" where
  "commit_withdrawal_tx nt hashi request_ids selected_utxos outputs txid cert clock randomness ctx =
     and_then (assert_operating hashi) (\<lambda>_.
     let epoch = st_epoch (hs_committee_set hashi)
     in
     and_then (verify nt hashi withdrawal_commitment_intent
         (WithdrawalCommitmentMessage request_ids selected_utxos outputs txid) cert) (\<lambda>_.
     and_then (map_each (get_utxo (hs_pool hashi)) selected_utxos) (\<lambda>inputs.
     and_then (extract_request_infos (hs_queue hashi) request_ids) (\<lambda>request_infos.
     and_then (allocate_presigs hashi (length inputs)) (\<lambda>(presigs, hashi).
     and_then (new_withdrawal_txn ctx request_ids request_infos inputs outputs txid presigs epoch
         (hs_config hashi) clock randomness) (\<lambda>txn.
     and_then (do_each (\<lambda>utxo. lock (wt_id txn) (u_id utxo)) (wt_inputs txn) (hs_pool hashi)) (\<lambda>p.
     let hashi = with_pool hashi p
     in
     and_then (commit_requests (hs_queue hashi) txn) (\<lambda>(btc_to_burn, q).
     let hashi = with_queue hashi q
     in
     and_then (burn (hs_treasury hashi) btc_to_burn) (\<lambda>t.
     let hashi = hashi\<lparr>hs_treasury := t\<rparr>
     in
     and_then (build_change_utxos txn) (\<lambda>change_utxos.
     and_then (do_each (insert_pending (wt_id txn)) change_utxos (hs_pool hashi)) (\<lambda>p.
     let hashi = with_pool hashi p
     in
     and_then (insert_withdrawal_txn (hs_queue hashi) txn) (\<lambda>q. Ok (with_queue hashi q)))))))))))))"

definition commit_input_signatures ::
    "natives \<Rightarrow> Hashi \<Rightarrow> address \<Rightarrow> u64 list \<Rightarrow> byte_vector list \<Rightarrow> CommitteeSignature \<Rightarrow> Hashi tx" where
  "commit_input_signatures nt hashi withdrawal_id indices signatures cert =
     and_then (assert_operating hashi) (\<lambda>_.
     and_then (verify nt hashi mpc_input_signatures_intent
         (MpcInputSignaturesMessage withdrawal_id indices signatures) cert) (\<lambda>_.
     and_then (record_input_signatures (hs_queue hashi) withdrawal_id indices signatures) (\<lambda>q.
       Ok (with_queue hashi q))))"

definition finalize_withdrawal ::
    "natives \<Rightarrow> Hashi \<Rightarrow> address \<Rightarrow> byte_vector list \<Rightarrow> CommitteeSignature \<Rightarrow> u64 \<Rightarrow> Hashi tx" where
  "finalize_withdrawal nt hashi withdrawal_id guardian_signatures cert clock =
     and_then (assert_operating hashi) (\<lambda>_.
     and_then (withdrawal_txn_mpc_signatures (hs_queue hashi) withdrawal_id) (\<lambda>signatures.
     and_then (verify nt hashi withdrawal_signed_intent
         (WithdrawalSignedMessage withdrawal_id signatures guardian_signatures) cert) (\<lambda>_.
     and_then (finalize_withdrawal_txn (hs_queue hashi) withdrawal_id guardian_signatures clock) (\<lambda>q.
       Ok (with_queue hashi q)))))"

definition confirm_withdrawal ::
    "natives \<Rightarrow> Hashi \<Rightarrow> address \<Rightarrow> CommitteeSignature \<Rightarrow> u64 \<Rightarrow> Hashi tx" where
  "confirm_withdrawal nt hashi withdrawal_id cert clock =
     and_then (assert_open hashi) (\<lambda>_.
     and_then (verify nt hashi withdrawal_confirmation_intent (WithdrawalConfirmationMessage withdrawal_id) cert) (\<lambda>_.
     and_then (withdrawal_txn_is_fully_signed (hs_queue hashi) withdrawal_id) (\<lambda>signed.
     and_then (ensure signed (WithdrawAbort EConfirmNotFullySigned)) (\<lambda>_.
     and_then (borrow_withdrawal_txn (hs_queue hashi) withdrawal_id) (\<lambda>txn.
     and_then (change_utxo_ids txn) (\<lambda>change_ids.
     and_then (mark_txn_confirmed (hs_queue hashi) withdrawal_id clock) (\<lambda>q.
     let hashi = with_queue hashi q;
         epoch = st_epoch (hs_committee_set hashi)
     in
     and_then (do_each (\<lambda>utxo. mark_spent epoch (u_id utxo)) (wt_inputs txn) (hs_pool hashi)) (\<lambda>p.
     and_then (do_each confirm_pending change_ids p) (\<lambda>p. Ok (with_pool hashi p))))))))))"

definition archive_confirmed_withdrawals :: "Hashi \<Rightarrow> address list \<Rightarrow> Hashi tx" where
  "archive_confirmed_withdrawals hashi withdrawal_ids =
     and_then (assert_enabled hashi) (\<lambda>_.
     and_then (do_each archive_withdrawal_txn withdrawal_ids (hs_queue hashi)) (\<lambda>q. Ok (with_queue hashi q)))"

definition archive_requests_entry :: "Hashi \<Rightarrow> address \<Rightarrow> address list \<Rightarrow> Hashi tx" where
  "archive_requests_entry hashi withdrawal_id request_ids =
     and_then (assert_enabled hashi) (\<lambda>_.
     and_then (archive_withdrawal_requests withdrawal_id request_ids (hs_queue hashi)) (\<lambda>q.
       Ok (with_queue hashi q)))"

definition finish_archive_withdrawal_txns :: "Hashi \<Rightarrow> address list \<Rightarrow> Hashi tx" where
  "finish_archive_withdrawal_txns hashi withdrawal_ids =
     and_then (assert_enabled hashi) (\<lambda>_.
     and_then (do_each finish_archive_withdrawal_txn withdrawal_ids (hs_queue hashi)) (\<lambda>q.
       Ok (with_queue hashi q)))"

definition reallocate_presigs :: "Hashi \<Rightarrow> address \<Rightarrow> byte_vector \<Rightarrow> Hashi tx" where
  "reallocate_presigs hashi withdrawal_id randomness =
     and_then (assert_operating hashi) (\<lambda>_.
     let current_epoch = st_epoch (hs_committee_set hashi)
     in
     and_then (withdrawal_txn_pending_count (hs_queue hashi) withdrawal_id) (\<lambda>pending.
     and_then (allocate_presigs hashi pending) (\<lambda>(presigs, hashi).
     and_then (reallocate_presigs_for_withdrawal_txn (hs_queue hashi) withdrawal_id presigs current_epoch
         randomness) (\<lambda>q. Ok (with_queue hashi q)))))"

definition cleanup_spent_utxos :: "Hashi \<Rightarrow> UtxoId list \<Rightarrow> Hashi tx" where
  "cleanup_spent_utxos hashi utxo_ids =
     and_then (assert_enabled hashi) (\<lambda>_.
     and_then (do_each cleanup_spent utxo_ids (hs_pool hashi)) (\<lambda>p. Ok (with_pool hashi p)))"

section \<open>Reconfiguration\<close>

definition pending_epoch_in_window :: "Hashi \<Rightarrow> TxContext \<Rightarrow> u64 tx" where
  "pending_epoch_in_window self ctx =
     and_then (ok_or (ReconfigAbort ENotReconfiguring) (pending_epoch_change (hs_committee_set self))) (\<lambda>next_epoch.
     and_then (ensure (next_epoch = ctx_epoch ctx) (ReconfigAbort EReconfigWindowClosed)) (\<lambda>_. Ok next_epoch))"

definition assert_genesis_launch_authorized :: "Hashi \<Rightarrow> unit tx" where
  "assert_genesis_launch_authorized self =
     (if st_mpc_public_key (hs_committee_set self) = []
      then ensure (has_upgrade_cap (hs_versioning self)) (ReconfigAbort EGenesisNotAuthorized) else Ok ())"

definition start_reconfig :: "natives \<Rightarrow> Hashi \<Rightarrow> (address \<times> u64) list \<Rightarrow> TxContext \<Rightarrow> Hashi tx" where
  "start_reconfig nt self voting_powers ctx =
     and_then (assert_enabled self) (\<lambda>_.
     and_then (and_then (reconfig_hold (hs_config self)) (\<lambda>h. ensure (\<not> h) (ReconfigAbort EReconfigHeld))) (\<lambda>_.
     and_then (ensure (\<not> is_reconfiguring (hs_committee_set self)) (FrameworkAbort EAssert)) (\<lambda>_.
     and_then (assert_genesis_launch_authorized self) (\<lambda>_.
     and_then (start_reconfig_from_voting_powers nt (hs_committee_set self) voting_powers
         (hs_epoch_config self) ctx) (\<lambda>cs. Ok (self\<lparr>hs_committee_set := cs\<rparr>))))))"

definition end_reconfig :: "natives \<Rightarrow> Hashi \<Rightarrow> byte_vector \<Rightarrow> CommitteeSignature \<Rightarrow> TxContext \<Rightarrow> Hashi tx" where
  "end_reconfig nt self mpc_public_key mpc_cert ctx =
     and_then (assert_enabled self) (\<lambda>_.
     let next_epoch = sig_epoch mpc_cert;
         cs = hs_committee_set self;
         already_completed = (pending_epoch_change cs \<noteq> Some next_epoch \<and> st_epoch cs = next_epoch \<and>
           has_committee cs next_epoch)
     in
     and_then (ensure (\<not> already_completed) (ReconfigAbort EReconfigAlreadyCompleted)) (\<lambda>_.
     and_then (pending_epoch_in_window self ctx) (\<lambda>pending_epoch.
     and_then (ensure (pending_epoch = next_epoch) (ReconfigAbort EWrongReconfigEpoch)) (\<lambda>_.
     let from_epoch = st_epoch cs
     in
     and_then (get_committee cs next_epoch) (\<lambda>next_committee.
     and_then (verify_with_committee nt (hs_id self) next_committee reconfig_completion_intent
         (ReconfigCompletionMessage next_epoch mpc_public_key) mpc_cert) (\<lambda>_.
     let is_initial_reconfig = (st_mpc_public_key cs = []);
         self = reset_presig_allocator self
     in
     and_then (committee_set_end_reconfig (hs_committee_set self) mpc_public_key) (\<lambda>(epoch, handoff, cs).
     and_then (if is_initial_reconfig
               then and_then (ensure (handoff = None) (FrameworkAbort EOptionIsSet)) (\<lambda>_. Ok cs)
               else and_then (ok_or (FrameworkAbort EOptionNotSet) handoff) (\<lambda>cert.
                      insert_committee_handoff cs from_epoch epoch cert)) (\<lambda>cs.
       Ok (self\<lparr>hs_committee_set := cs\<rparr>)))))))))"

definition submit_committee_handoff ::
    "natives \<Rightarrow> Hashi \<Rightarrow> u64 \<Rightarrow> CommitteeSignature \<Rightarrow> TxContext \<Rightarrow> Hashi tx" where
  "submit_committee_handoff nt self epoch cert ctx =
     and_then (assert_enabled self) (\<lambda>_.
     let cs = hs_committee_set self; from_epoch = sig_epoch cert
     in
     and_then (if has_committee_handoff cs from_epoch
               then and_then (committee_handoff_next_epoch cs from_epoch) (\<lambda>e. Ok (e = epoch))
               else Ok False) (\<lambda>already_completed.
     and_then (ensure (\<not> already_completed) (ReconfigAbort EReconfigAlreadyCompleted)) (\<lambda>_.
     and_then (pending_epoch_in_window self ctx) (\<lambda>pending_epoch.
     and_then (ensure (pending_epoch = epoch) (ReconfigAbort EWrongReconfigEpoch)) (\<lambda>_.
     and_then (ensure (st_mpc_public_key cs \<noteq> []) (ReconfigAbort EInitialReconfig)) (\<lambda>_.
     and_then (get_committee cs epoch) (\<lambda>new_committee.
     and_then (current_committee cs) (\<lambda>current.
     and_then (verify_with_committee nt (hs_id self) current committee_transition_intent
         (CommitteeTransitionRequest new_committee) cert) (\<lambda>_.
     and_then (set_pending_committee_handoff_cert cs cert) (\<lambda>cs.
       Ok (self\<lparr>hs_committee_set := cs\<rparr>)))))))))))"

definition abort_reconfig :: "Hashi \<Rightarrow> u64 \<Rightarrow> TxContext \<Rightarrow> Hashi tx" where
  "abort_reconfig self epoch ctx =
     and_then (assert_enabled self) (\<lambda>_.
     and_then (ensure (is_reconfiguring (hs_committee_set self)) (ReconfigAbort ENotReconfiguring)) (\<lambda>_.
     and_then (ensure (pending_epoch_change (hs_committee_set self) = Some epoch) (ReconfigAbort EWrongReconfigEpoch)) (\<lambda>_.
     and_then (committee_set_abort_reconfig (hs_committee_set self) ctx) (\<lambda>cs.
       Ok (self\<lparr>hs_committee_set := cs\<rparr>)))))"

end
