(* ===== verification/Move_Queue_Lemmas.thy ===== *)
theory Move_Queue_Lemmas
  imports Move_Withdrawal_Queue
begin

text \<open>
  What the operations of the withdrawal queue establish when they return: the arithmetic of a new
  transaction, the draining of its requests, and the invariant of the queue that every operation
  keeps.
\<close>

section \<open>A new transaction\<close>

lemma pop_change_eq:
  "n \<le> length outs \<Longrightarrow>
   pop_change n outs acc = (take (length outs - n) outs, acc @ rev (drop (length outs - n) outs))"
proof (induction n arbitrary: outs acc)
  case (Suc n)
  then obtain ys y where outs: "outs = ys @ [y]" by (cases outs rule: rev_cases) auto
  then show ?case using Suc.IH [of ys] Suc.prems by (simp add: Suc_diff_le)
qed simp

lemma pop_change_split:
  "n \<le> length outs \<Longrightarrow> pop_change (length outs - n) outs [] = (take n outs, rev (drop n outs))"
  by (simp add: pop_change_eq)

lemma split_miner_fee_Ok:
  assumes "split_miner_fee fee n = Ok share"
  shows "0 < n" "unat fee = n * unat share"
proof -
  show "0 < n" using assms by (auto simp: split_miner_fee_def split: if_splits)
  have s: "share = of_nat (unat fee div n)" "unat fee mod n = 0"
    using assms by (auto simp: split_miner_fee_def split: if_splits)
  have "unat fee div n < 2 ^ LENGTH(64)"
    using unat_lt_exp [of fee] by (rule le_less_trans [OF div_le_dividend])
  then have "unat share = unat fee div n" unfolding s(1) by (rule unat_of_nat_less)
  then show "unat fee = n * unat share" using s(2) by auto
qed

lemma check_output_Ok:
  assumes "check_output fee infos outs k () = Ok u"
  shows "k < length infos" "k < length outs"
    "unat (ou_amount (outs ! k)) + unat fee = unat (ci_btc_amount (infos ! k))"
    "546 \<le> unat (ou_amount (outs ! k))"
    "ou_bitcoin_address (outs ! k) = ci_bitcoin_address (infos ! k)"
proof -
  define out where "out = outs ! k"
  define info where "info = infos ! k"
  have c: "k < length infos" "k < length outs"
      "unat fee + unat DUST_RELAY_MIN_VALUE < 2 ^ LENGTH(64)"
      "fee + DUST_RELAY_MIN_VALUE \<le> ci_btc_amount info" "fee \<le> ci_btc_amount info"
      "ou_amount out = ci_btc_amount info - fee"
      "ou_bitcoin_address out = ci_bitcoin_address info"
    using assms unfolding check_output_def out_def info_def by (auto simp: Let_def)
  have d: "unat DUST_RELAY_MIN_VALUE = 546" by (simp add: DUST_RELAY_MIN_VALUE_def)
  have "unat (fee + DUST_RELAY_MIN_VALUE) = unat fee + 546"
    using c(3) [THEN unat_add_lem [THEN iffD1]] by (simp only: d)
  then have le: "unat fee + 546 \<le> unat (ci_btc_amount info)"
    using c(4) by (simp add: word_le_nat_alt)
  have amt: "unat (ou_amount out) = unat (ci_btc_amount info) - unat fee"
    unfolding c(6) by (rule unat_sub_le [OF c(5)])
  show "k < length infos" "k < length outs" by (fact c)+
  show "unat (ou_amount (outs ! k)) + unat fee = unat (ci_btc_amount (infos ! k))"
    "546 \<le> unat (ou_amount (outs ! k))"
    using le amt by (simp_all add: out_def info_def)
  show "ou_bitcoin_address (outs ! k) = ci_bitcoin_address (infos ! k)"
    using c(7) by (simp add: out_def info_def)
qed

lemma do_each_unit:
  "do_each f xs () = Ok () \<Longrightarrow> x \<in> set xs \<Longrightarrow> f x () = Ok ()"
  by (induction xs) auto

abbreviation total_in :: "Utxo list \<Rightarrow> nat" where
  "total_in us \<equiv> sum_list (map (\<lambda>u. unat (u_amount u)) us)"

abbreviation total_out :: "OutputUtxo list \<Rightarrow> nat" where
  "total_out os \<equiv> sum_list (map (\<lambda>u. unat (ou_amount u)) os)"

lemma new_withdrawal_txn_Ok:
  assumes "new_withdrawal_txn ctx ids infos inputs outputs txid presigs epoch config clock rnd = Ok t"
  obtains share max_fee where
    "0 < length ids" "length ids \<le> length outputs" "length outputs < 2 ^ 32"
    "total_in inputs = total_out outputs + length ids * unat share"
    "worst_case_network_fee config = Ok max_fee" "share \<le> max_fee"
    "\<And>k. k < length ids \<Longrightarrow> check_output share infos outputs k () = Ok ()"
    "inputs \<noteq> []" "length presigs = length inputs"
    "t = \<lparr>wt_id = ctx_new_id ctx, wt_txid = txid, wt_request_ids = ids, wt_inputs = inputs,
          wt_withdrawal_outputs = take (length ids) outputs, wt_change_outputs = drop (length ids) outputs,
          wt_created_timestamp_ms = clock, wt_signed_timestamp_ms = None,
          wt_confirmed_timestamp_ms = None, wt_randomness = rnd,
          wt_signing = \<lparr>sb_signatures = map Pending presigs, sb_epoch = epoch\<rparr>,
          wt_guardian_signatures = None\<rparr>"
proof -
  obtain max_fee input_amount output_amount where
    a: "worst_case_network_fee config = Ok max_fee" "sum_u64 (map u_amount inputs) = Ok input_amount"
      "sum_u64 (map ou_amount outputs) = Ok output_amount" "output_amount \<le> input_amount"
    using assms unfolding new_withdrawal_txn_def and_then_eq_Ok ensure_eq by blast
  have rest: "and_then (ensure (length ids \<le> length outputs) (QueueAbort EOutputCountMismatch)) (\<lambda>_.
     and_then (ensure (length outputs \<le> 2 ^ 32 - 1) (QueueAbort EOutputCountMismatch)) (\<lambda>_.
     and_then (split_miner_fee (input_amount - output_amount) (length ids)) (\<lambda>share.
     and_then (ensure (share \<le> max_fee) (QueueAbort EMinerFeeExceedsMax)) (\<lambda>_.
     and_then (do_each (check_output share infos outputs) [0..<length ids] ()) (\<lambda>_.
     let (withdrawal_outputs, popped) = pop_change (length outputs - length ids) outputs []
     in and_then (new_batch (length inputs) presigs epoch) (\<lambda>signing.
       Ok \<lparr>wt_id = ctx_new_id ctx, wt_txid = txid, wt_request_ids = ids, wt_inputs = inputs,
           wt_withdrawal_outputs = withdrawal_outputs, wt_change_outputs = rev popped,
           wt_created_timestamp_ms = clock, wt_signed_timestamp_ms = None,
           wt_confirmed_timestamp_ms = None, wt_randomness = rnd, wt_signing = signing,
           wt_guardian_signatures = None\<rparr>)))))) = Ok t"
    using assms a unfolding new_withdrawal_txn_def Let_def by (simp only: and_then.simps ensure_def if_True simp_thms)
  obtain share where b: "length ids \<le> length outputs" "length outputs \<le> 2 ^ 32 - 1"
      "split_miner_fee (input_amount - output_amount) (length ids) = Ok share" "share \<le> max_fee"
      "do_each (check_output share infos outputs) [0..<length ids] () = Ok ()"
    and c: "(let (withdrawal_outputs, popped) = pop_change (length outputs - length ids) outputs []
     in and_then (new_batch (length inputs) presigs epoch) (\<lambda>signing.
       Ok \<lparr>wt_id = ctx_new_id ctx, wt_txid = txid, wt_request_ids = ids, wt_inputs = inputs,
           wt_withdrawal_outputs = withdrawal_outputs, wt_change_outputs = rev popped,
           wt_created_timestamp_ms = clock, wt_signed_timestamp_ms = None,
           wt_confirmed_timestamp_ms = None, wt_randomness = rnd, wt_signing = signing,
           wt_guardian_signatures = None\<rparr>)) = Ok t"
    using rest unfolding and_then_eq_Ok ensure_eq by auto
  have "unat (input_amount - output_amount) = unat input_amount - unat output_amount"
    using a(4) by (rule unat_sub_le)
  then have sum: "total_in inputs = total_out outputs + length ids * unat share"
    using a(2-4) split_miner_fee_Ok(2) [OF b(3)] by (simp add: word_le_nat_alt comp_def)
  show thesis
  proof (rule that [of share max_fee])
    show "0 < length ids" by (rule split_miner_fee_Ok [OF b(3)])
    show "check_output share infos outputs k () = Ok ()" if "k < length ids" for k
      using do_each_unit [OF b(5)] that by simp
    show "inputs \<noteq> []" "length presigs = length inputs"
      "t = \<lparr>wt_id = ctx_new_id ctx, wt_txid = txid, wt_request_ids = ids, wt_inputs = inputs,
          wt_withdrawal_outputs = take (length ids) outputs, wt_change_outputs = drop (length ids) outputs,
          wt_created_timestamp_ms = clock, wt_signed_timestamp_ms = None,
          wt_confirmed_timestamp_ms = None, wt_randomness = rnd,
          wt_signing = \<lparr>sb_signatures = map Pending presigs, sb_epoch = epoch\<rparr>,
          wt_guardian_signatures = None\<rparr>"
      using c by (auto simp: pop_change_split [OF b(1)] new_batch_def)
  qed (use a b sum in auto)
qed

lemma extract_request_infos_Ok:
  assumes "extract_request_infos q ids = Ok infos"
  shows "length infos = length ids"
    and "\<And>k. k < length ids \<Longrightarrow> \<exists>r. wq_requests q (ids ! k) = Some r \<and>
       infos ! k = \<lparr>ci_btc_amount = wr_btc_amount r, ci_bitcoin_address = wr_bitcoin_address r\<rparr>"
  using assms by (auto simp: extract_request_infos_def map_each_eq_Ok list_all2_conv_all_nth)

lemma build_change_utxos_Ok:
  assumes "build_change_utxos t = Ok us"
  shows "map u_amount us = map ou_amount (wt_change_outputs t)"
proof (rule nth_equalityI)
  show "length (map u_amount us) = length (map ou_amount (wt_change_outputs t))"
    using assms by (auto simp: build_change_utxos_def dest: map_each_length)
  fix j assume j: "j < length (map u_amount us)"
  then obtain i where "\<lparr>u_id = i, u_amount = ou_amount (wt_change_outputs t ! j), u_derivation_path = None\<rparr> = us ! j"
    using assms by (auto simp: build_change_utxos_def map_each_eq_Ok list_all2_conv_all_nth)
  then have "u_amount (us ! j) = ou_amount (wt_change_outputs t ! j)" by (metis Utxo.select_convs(2))
  then show "map u_amount us ! j = map ou_amount (wt_change_outputs t) ! j"
    using j assms by (auto simp: build_change_utxos_def dest!: map_each_length)
qed

section \<open>Committing requests\<close>

definition drain :: "address \<Rightarrow> WithdrawalRequest \<Rightarrow> WithdrawalRequest" where
  "drain w r = r\<lparr>wr_btc := 0, wr_withdrawal_txn_id := Some w\<rparr>"

lemma drain_simps [simp]:
  "wr_id (drain w r) = wr_id r" "wr_btc_amount (drain w r) = wr_btc_amount r"
  "wr_bitcoin_address (drain w r) = wr_bitcoin_address r" "wr_btc (drain w r) = 0"
  "wr_withdrawal_txn_id (drain w r) = Some w" "is_committed (drain w r)"
  "wr_sender (drain w r) = wr_sender r" "wr_approval_cert (drain w r) = wr_approval_cert r"
  by (simp_all add: drain_def is_committed_def)

lemma commit_request_Ok:
  "commit_request w i (rs, tot) = Ok st' \<longleftrightarrow>
     (\<exists>r. rs i = Some r \<and> is_approved r \<and> \<not> is_committed r \<and>
        unat tot + unat (wr_btc r) < 2 ^ LENGTH(64) \<and> st' = (rs(i \<mapsto> drain w r), tot + wr_btc r))"
  by (auto simp: commit_request_def drain_def)

lemma commit_requests_loop:
  assumes "do_each (commit_request w) ids (rs, tot) = Ok (rs', tot')"
  shows "distinct ids"
    and "\<And>i. i \<in> set ids \<Longrightarrow> \<exists>r. rs i = Some r \<and> is_approved r \<and> \<not> is_committed r"
    and "rs' = (\<lambda>i. if i \<in> set ids then map_option (drain w) (rs i) else rs i)"
    and "unat tot' = unat tot + sum_list (map (\<lambda>i. unat (wr_btc (the (rs i)))) ids)"
proof -
  have "distinct ids \<and> (\<forall>i \<in> set ids. \<exists>r. rs i = Some r \<and> is_approved r \<and> \<not> is_committed r) \<and>
    rs' = (\<lambda>i. if i \<in> set ids then map_option (drain w) (rs i) else rs i) \<and>
    unat tot' = unat tot + sum_list (map (\<lambda>i. unat (wr_btc (the (rs i)))) ids)"
    using assms
  proof (induction ids arbitrary: rs tot)
    case (Cons i ids)
    then obtain r where r: "rs i = Some r" "is_approved r" "\<not> is_committed r"
        "unat tot + unat (wr_btc r) < 2 ^ LENGTH(64)"
      and rest: "do_each (commit_request w) ids (rs(i \<mapsto> drain w r), tot + wr_btc r) = Ok (rs', tot')"
      by (auto simp: commit_request_Ok)
    note ih = Cons.IH [OF rest]
    have i: "i \<notin> set ids" using ih by fastforce
    have ut: "unat (tot + wr_btc r) = unat tot + unat (wr_btc r)"
      using r(4) by (rule unat_add_lem [THEN iffD1])
    have "sum_list (map (\<lambda>j. unat (wr_btc (the ((rs(i \<mapsto> drain w r)) j)))) ids) =
        sum_list (map (\<lambda>j. unat (wr_btc (the (rs j)))) ids)"
      using i by (intro arg_cong [of _ _ sum_list] map_cong) auto
    then have "unat tot' = unat tot + sum_list (map (\<lambda>i. unat (wr_btc (the (rs i)))) (i # ids))"
      using ih ut r(1) by simp
    moreover have "rs' = (\<lambda>j. if j \<in> set (i # ids) then map_option (drain w) (rs j) else rs j)"
      using ih i r(1) by (auto simp: fun_eq_iff)
    moreover have "\<forall>j \<in> set (i # ids). \<exists>r. rs j = Some r \<and> is_approved r \<and> \<not> is_committed r"
      using ih i r by (auto split: if_splits)
    ultimately show ?case using ih i by simp
  qed simp
  then show "distinct ids"
    and "\<And>i. i \<in> set ids \<Longrightarrow> \<exists>r. rs i = Some r \<and> is_approved r \<and> \<not> is_committed r"
    and "rs' = (\<lambda>i. if i \<in> set ids then map_option (drain w) (rs i) else rs i)"
    and "unat tot' = unat tot + sum_list (map (\<lambda>i. unat (wr_btc (the (rs i)))) ids)"
    by blast+
qed

lemma commit_requests_Ok:
  assumes "commit_requests q t = Ok (tot, q')"
  shows "distinct (wt_request_ids t)"
    and "\<And>i. i \<in> set (wt_request_ids t) \<Longrightarrow>
       \<exists>r. wq_requests q i = Some r \<and> is_approved r \<and> \<not> is_committed r"
    and "q' = q\<lparr>wq_requests := \<lambda>i. if i \<in> set (wt_request_ids t)
       then map_option (drain (wt_id t)) (wq_requests q i) else wq_requests q i\<rparr>"
    and "unat tot = sum_list (map (\<lambda>i. unat (wr_btc (the (wq_requests q i)))) (wt_request_ids t))"
proof -
  obtain rs where l: "do_each (commit_request (wt_id t)) (wt_request_ids t) (wq_requests q, 0) = Ok (rs, tot)"
    and q': "q' = q\<lparr>wq_requests := rs\<rparr>"
    using assms by (auto simp: commit_requests_def)
  note c = commit_requests_loop [OF l]
  show "distinct (wt_request_ids t)" by (fact c)
  show "\<exists>r. wq_requests q i = Some r \<and> is_approved r \<and> \<not> is_committed r"
    if "i \<in> set (wt_request_ids t)" for i
    using that by (rule c)
  show "q' = q\<lparr>wq_requests := \<lambda>i. if i \<in> set (wt_request_ids t)
       then map_option (drain (wt_id t)) (wq_requests q i) else wq_requests q i\<rparr>"
    unfolding q' c(3) ..
  show "unat tot = sum_list (map (\<lambda>i. unat (wr_btc (the (wq_requests q i)))) (wt_request_ids t))"
    using c(4) by simp
qed

end
