(* ===== verification/Move_Queue_Inv.thy ===== *)
theory Move_Queue_Inv
  imports Move_Queue_Lemmas
begin

text \<open>
  The invariant of the withdrawal queue and its preservation by every operation: the balance a
  request holds, what each transaction pays, and the links between requests and transactions.
\<close>

section \<open>The invariant\<close>

text \<open>A request or a transaction wherever it is kept.\<close>

definition request_of :: "WithdrawalRequestQueue \<Rightarrow> address \<Rightarrow> WithdrawalRequest option" where
  "request_of q i = (case wq_requests q i of Some r \<Rightarrow> Some r | None \<Rightarrow> wq_processed q i)"

definition txn_of :: "WithdrawalRequestQueue \<Rightarrow> address \<Rightarrow> WithdrawalTransaction option" where
  "txn_of q w = (case wq_withdrawal_txns q w of Some t \<Rightarrow> Some t | None \<Rightarrow> wq_confirmed_txns q w)"

text \<open>
  A live request holds its whole amount until it is committed and nothing afterwards; an archived
  request is committed and drained.
\<close>

definition requests_ok :: "WithdrawalRequestQueue \<Rightarrow> bool" where
  "requests_ok q \<longleftrightarrow>
     (\<forall>i r. wq_requests q i = Some r \<longrightarrow>
        wr_id r = i \<and> wq_processed q i = None \<and> (is_committed r \<longrightarrow> is_approved r) \<and>
        wr_btc r = (if is_committed r then 0 else wr_btc_amount r)) \<and>
     (\<forall>i r. wq_processed q i = Some r \<longrightarrow>
        wr_id r = i \<and> is_committed r \<and> is_approved r \<and> wr_btc r = 0)"

text \<open>
  The shape of a transaction: one output per request, one signing slot per input, guardian
  signatures only on a complete batch, confirmation only when fully signed.
\<close>

definition txn_shape :: "WithdrawalTransaction \<Rightarrow> bool" where
  "txn_shape t \<longleftrightarrow>
     wt_request_ids t \<noteq> [] \<and> distinct (wt_request_ids t) \<and> wt_inputs t \<noteq> [] \<and>
     length (wt_withdrawal_outputs t) = length (wt_request_ids t) \<and>
     length (wt_withdrawal_outputs t) + length (wt_change_outputs t) < 2 ^ 32 \<and>
     length (sb_signatures (wt_signing t)) = length (wt_inputs t) \<and>
     (wt_guardian_signatures t \<noteq> None \<longleftrightarrow> wt_signed_timestamp_ms t \<noteq> None) \<and>
     (wt_guardian_signatures t \<noteq> None \<longrightarrow> is_complete (wt_signing t)) \<and>
     (wt_confirmed_timestamp_ms t \<noteq> None \<longrightarrow> wt_guardian_signatures t \<noteq> None)"

text \<open>
  What a transaction pays: the inputs cover the outputs, the change and the same fee share for
  every request; output \<open>k\<close> pays request \<open>k\<close> its amount less the share, above dust, to its address.
\<close>

definition pays_request ::
    "WithdrawalRequestQueue \<Rightarrow> WithdrawalTransaction \<Rightarrow> u64 \<Rightarrow> nat \<Rightarrow> bool" where
  "pays_request q t share k \<longleftrightarrow>
     (\<exists>r. request_of q (wt_request_ids t ! k) = Some r \<and> wr_withdrawal_txn_id r = Some (wt_id t) \<and>
        unat (ou_amount (wt_withdrawal_outputs t ! k)) + unat share = unat (wr_btc_amount r) \<and>
        546 \<le> unat (ou_amount (wt_withdrawal_outputs t ! k)) \<and>
        ou_bitcoin_address (wt_withdrawal_outputs t ! k) = wr_bitcoin_address r)"

definition pays :: "WithdrawalRequestQueue \<Rightarrow> WithdrawalTransaction \<Rightarrow> bool" where
  "pays q t \<longleftrightarrow>
     (\<exists>share. total_in (wt_inputs t) =
          total_out (wt_withdrawal_outputs t) + total_out (wt_change_outputs t) +
          length (wt_request_ids t) * unat share \<and>
        (\<forall>k < length (wt_request_ids t). pays_request q t share k))"

definition txns_ok :: "WithdrawalRequestQueue \<Rightarrow> bool" where
  "txns_ok q \<longleftrightarrow>
     (\<forall>w t. wq_withdrawal_txns q w = Some t \<longrightarrow> wq_confirmed_txns q w = None) \<and>
     (\<forall>w t. wq_confirmed_txns q w = Some t \<longrightarrow> wt_confirmed_timestamp_ms t \<noteq> None \<and>
        (\<forall>i \<in> set (wt_request_ids t). wq_requests q i = None)) \<and>
     (\<forall>w t. txn_of q w = Some t \<longrightarrow> wt_id t = w \<and> txn_shape t \<and> pays q t)"

definition links_ok :: "WithdrawalRequestQueue \<Rightarrow> bool" where
  "links_ok q \<longleftrightarrow>
     (\<forall>i r w. request_of q i = Some r \<longrightarrow> wr_withdrawal_txn_id r = Some w \<longrightarrow>
        (\<exists>t. txn_of q w = Some t \<and> i \<in> set (wt_request_ids t) \<and>
           (wq_processed q i \<noteq> None \<longrightarrow> wt_confirmed_timestamp_ms t \<noteq> None)))"

definition queue_ok :: "WithdrawalRequestQueue \<Rightarrow> bool" where
  "queue_ok q \<longleftrightarrow> requests_ok q \<and> txns_ok q \<and> links_ok q"

lemma queue_okD:
  assumes "queue_ok q"
  shows "wq_requests q i = Some r \<Longrightarrow>
      wr_id r = i \<and> wq_processed q i = None \<and> (is_committed r \<longrightarrow> is_approved r) \<and>
      wr_btc r = (if is_committed r then 0 else wr_btc_amount r)"
    and "wq_processed q i = Some r \<Longrightarrow> wr_id r = i \<and> is_committed r \<and> is_approved r \<and> wr_btc r = 0"
    and "wq_withdrawal_txns q w = Some t \<Longrightarrow> wq_confirmed_txns q w = None"
    and "wq_confirmed_txns q w = Some t \<Longrightarrow> wt_confirmed_timestamp_ms t \<noteq> None"
    and "wq_confirmed_txns q w = Some t \<Longrightarrow> i \<in> set (wt_request_ids t) \<Longrightarrow> wq_requests q i = None"
    and "txn_of q w = Some t \<Longrightarrow> wt_id t = w"
    and "txn_of q w = Some t \<Longrightarrow> txn_shape t"
    and "txn_of q w = Some t \<Longrightarrow> pays q t"
    and "request_of q i = Some r \<Longrightarrow> wr_withdrawal_txn_id r = Some w \<Longrightarrow>
      \<exists>t. txn_of q w = Some t \<and> i \<in> set (wt_request_ids t) \<and>
         (wq_processed q i \<noteq> None \<longrightarrow> wt_confirmed_timestamp_ms t \<noteq> None)"
  using assms unfolding queue_ok_def requests_ok_def txns_ok_def links_ok_def by blast+

lemma txn_of_live [simp]: "wq_withdrawal_txns q w = Some t \<Longrightarrow> txn_of q w = Some t"
  by (simp add: txn_of_def)

lemma queue_create: "queue_ok withdrawal_queue_create"
  by (simp add: queue_ok_def requests_ok_def txns_ok_def links_ok_def withdrawal_queue_create_def
      bag_new_def request_of_def txn_of_def)

text \<open>The operations keep what a committed request owes and where it is linked.\<close>

definition keeps_committed :: "WithdrawalRequestQueue \<Rightarrow> WithdrawalRequestQueue \<Rightarrow> bool" where
  "keeps_committed q q' \<longleftrightarrow>
     (\<forall>i r. request_of q i = Some r \<longrightarrow> is_committed r \<longrightarrow>
        (\<exists>r'. request_of q' i = Some r' \<and> wr_btc_amount r' = wr_btc_amount r \<and>
           wr_bitcoin_address r' = wr_bitcoin_address r \<and>
           wr_withdrawal_txn_id r' = wr_withdrawal_txn_id r))"

lemma pays_mono:
  assumes "pays q t" "keeps_committed q q'"
    and "wt_request_ids t' = wt_request_ids t" "wt_id t' = wt_id t" "wt_inputs t' = wt_inputs t"
    "wt_withdrawal_outputs t' = wt_withdrawal_outputs t" "wt_change_outputs t' = wt_change_outputs t"
  shows "pays q' t'"
proof -
  obtain share where s: "total_in (wt_inputs t) = total_out (wt_withdrawal_outputs t) +
      total_out (wt_change_outputs t) + length (wt_request_ids t) * unat share"
      "\<And>k. k < length (wt_request_ids t) \<Longrightarrow> pays_request q t share k"
    using assms(1) by (auto simp: pays_def)
  have "pays_request q' t' share k" if k: "k < length (wt_request_ids t)" for k
  proof -
    obtain r where r: "request_of q (wt_request_ids t ! k) = Some r" "wr_withdrawal_txn_id r = Some (wt_id t)"
      and p: "unat (ou_amount (wt_withdrawal_outputs t ! k)) + unat share = unat (wr_btc_amount r)"
        "546 \<le> unat (ou_amount (wt_withdrawal_outputs t ! k))"
        "ou_bitcoin_address (wt_withdrawal_outputs t ! k) = wr_bitcoin_address r"
      using s(2) [OF k] by (auto simp: pays_request_def)
    have "is_committed r" using r(2) by (simp add: is_committed_def)
    then obtain r' where "request_of q' (wt_request_ids t ! k) = Some r'" "wr_btc_amount r' = wr_btc_amount r"
        "wr_bitcoin_address r' = wr_bitcoin_address r" "wr_withdrawal_txn_id r' = wr_withdrawal_txn_id r"
      using assms(2) r(1) unfolding keeps_committed_def by blast
    then show ?thesis using r p by (simp add: pays_request_def assms)
  qed
  then show ?thesis unfolding pays_def using s(1) assms(3-7) by auto
qed

text \<open>A change of the live requests alone that keeps the committed ones.\<close>

lemma requests_change_ok:
  assumes ok: "queue_ok q"
    and q': "q' = q\<lparr>wq_requests := rs\<rparr>"
    and same: "\<And>i r. wq_requests q i = Some r \<Longrightarrow> is_committed r \<Longrightarrow> rs i = Some r"
    and new: "\<And>i r. rs i = Some r \<Longrightarrow> wq_requests q i \<noteq> Some r \<Longrightarrow>
       wr_id r = i \<and> wq_processed q i = None \<and> \<not> is_committed r \<and> wr_btc r = wr_btc_amount r"
  shows "queue_ok q'"
proof -
  have keep: "keeps_committed q q'"
    unfolding keeps_committed_def
  proof (intro allI impI)
    fix i r assume r: "request_of q i = Some r" "is_committed r"
    show "\<exists>r'. request_of q' i = Some r' \<and> wr_btc_amount r' = wr_btc_amount r \<and>
       wr_bitcoin_address r' = wr_bitcoin_address r \<and> wr_withdrawal_txn_id r' = wr_withdrawal_txn_id r"
    proof (cases "wq_requests q i")
      case None
      then have p: "wq_processed q i = Some r" using r(1) by (simp add: request_of_def)
      have "rs i = None"
      proof (rule ccontr)
        assume "rs i \<noteq> None"
        then obtain x where "rs i = Some x" by auto
        then show False using new [of i x] None p by auto
      qed
      then show ?thesis using p by (simp add: request_of_def q')
    next
      case (Some x)
      then have "x = r" using r(1) by (simp add: request_of_def)
      then show ?thesis using same [of i r] Some r(2) by (simp add: request_of_def q')
    qed
  qed
  have tx: "txn_of q' = txn_of q" by (auto simp: txn_of_def q' fun_eq_iff split: option.split)
  have "requests_ok q'"
    unfolding requests_ok_def
  proof (intro conjI allI impI)
    fix i r assume r: "wq_requests q' i = Some r"
    have "wr_id r = i \<and> wq_processed q i = None \<and> (is_committed r \<longrightarrow> is_approved r) \<and>
       wr_btc r = (if is_committed r then 0 else wr_btc_amount r)"
    proof (cases "wq_requests q i = Some r")
      case True then show ?thesis by (rule queue_okD [OF ok])
    next
      case False then show ?thesis using new [of i r] r by (simp add: q')
    qed
    then show "wr_id r = i" "wq_processed q' i = None" "is_committed r \<Longrightarrow> is_approved r"
      "wr_btc r = (if is_committed r then 0 else wr_btc_amount r)" by (simp_all add: q')
  next
    fix i r assume "wq_processed q' i = Some r"
    then have "wq_processed q i = Some r" by (simp add: q')
    from queue_okD(2) [OF ok this]
    show "wr_id r = i" "is_committed r" "is_approved r" "wr_btc r = 0" by simp_all
  qed
  moreover have "txns_ok q'"
    unfolding txns_ok_def
  proof (intro conjI allI impI ballI)
    fix w t assume t: "wq_confirmed_txns q' w = Some t"
    then have t': "wq_confirmed_txns q w = Some t" by (simp add: q')
    show "wt_confirmed_timestamp_ms t \<noteq> None" using queue_okD(4) [OF ok t'] .
    fix i assume i: "i \<in> set (wt_request_ids t)"
    have n: "wq_requests q i = None" by (rule queue_okD(5) [OF ok t' i])
    have txn: "txn_of q w = Some t"
      using queue_okD(3) [OF ok] t' by (cases "wq_withdrawal_txns q w") (auto simp: txn_of_def)
    have "pays q t" by (rule queue_okD(8) [OF ok txn])
    then obtain r where "request_of q i = Some r"
      using i by (auto simp: pays_def pays_request_def in_set_conv_nth)
    then have p: "wq_processed q i \<noteq> None" using n by (simp add: request_of_def)
    show "wq_requests q' i = None"
    proof (rule ccontr)
      assume "wq_requests q' i \<noteq> None"
      then obtain x where "rs i = Some x" by (auto simp: q')
      then show False using new [of i x] n p by auto
    qed
  next
    fix w t assume "txn_of q' w = Some t"
    then have t: "txn_of q w = Some t" by (simp add: tx)
    show "wt_id t = w" by (rule queue_okD(6) [OF ok t])
    show "txn_shape t" by (rule queue_okD(7) [OF ok t])
    show "pays q' t" by (rule pays_mono [OF queue_okD(8) [OF ok t] keep]) simp_all
  qed (use queue_okD(3) [OF ok] in \<open>simp add: q'\<close>)
  moreover have "links_ok q'"
    unfolding links_ok_def
  proof (intro allI impI)
    fix i r w assume r: "request_of q' i = Some r" "wr_withdrawal_txn_id r = Some w"
    then have c: "is_committed r" by (simp add: is_committed_def)
    have "request_of q i = Some r"
    proof (cases "rs i")
      case (Some x)
      then have "x = r" using r(1) by (simp add: request_of_def q')
      then have "wq_requests q i = Some r" using new [of i r] Some c by blast
      then show ?thesis by (simp add: request_of_def)
    next
      case None
      then have p: "wq_processed q i = Some r" using r(1) by (simp add: request_of_def q')
      then have "wq_requests q i = None" using queue_okD(1) [OF ok] by (metis option.distinct(1) option.exhaust)
      then show ?thesis using p by (simp add: request_of_def)
    qed
    from queue_okD(9) [OF ok this r(2)] obtain t where t: "txn_of q w = Some t" "i \<in> set (wt_request_ids t)"
        "wq_processed q i \<noteq> None \<longrightarrow> wt_confirmed_timestamp_ms t \<noteq> None"
      by blast
    have "wq_processed q' = wq_processed q" by (simp add: q')
    then show "\<exists>t. txn_of q' w = Some t \<and> i \<in> set (wt_request_ids t) \<and>
       (wq_processed q' i \<noteq> None \<longrightarrow> wt_confirmed_timestamp_ms t \<noteq> None)"
      using t unfolding tx by (intro exI [of _ t]) simp
  qed
  ultimately show ?thesis by (simp add: queue_ok_def)
qed

section \<open>Requests\<close>

lemma insert_withdrawal_ok:
  assumes "queue_ok q" "create_withdrawal btc addr clock ctx = Ok r" "insert_withdrawal q r = Ok q'"
    and "wq_processed q (ctx_new_id ctx) = None"
  shows "queue_ok q'"
proof -
  have r: "wr_id r = ctx_new_id ctx" "\<not> is_committed r" "wr_btc r = wr_btc_amount r"
    using assms(2) by (auto simp: create_withdrawal_def is_committed_def)
  have q': "q' = q\<lparr>wq_requests := (wq_requests q)(wr_id r \<mapsto> r)\<rparr>" "wq_requests q (wr_id r) = None"
    using assms(3) by (auto simp: insert_withdrawal_def)
  show ?thesis
    by (rule requests_change_ok [OF assms(1) q'(1)]) (use q'(2) r assms(4) in \<open>auto split: if_splits\<close>)
qed

lemma approve_withdrawal_ok:
  assumes "queue_ok q" "approve_withdrawal q i cert clock = Ok q'"
  shows "queue_ok q'"
proof -
  obtain r where r: "wq_requests q i = Some r" "\<not> is_committed r"
    and q': "q' = q\<lparr>wq_requests := (wq_requests q)(i \<mapsto>
        r\<lparr>wr_approval_cert := Some cert, wr_approved_timestamp_ms := Some clock\<rparr>)\<rparr>"
    using assms(2) by (auto simp: approve_withdrawal_def)
  show ?thesis
  proof (rule requests_change_ok [OF assms(1) q'])
    fix j x assume "wq_requests q j = Some x" "is_committed x"
    then show "((wq_requests q)(i \<mapsto> r\<lparr>wr_approval_cert := Some cert, wr_approved_timestamp_ms := Some clock\<rparr>)) j = Some x"
      using r by auto
  next
    fix j x
    assume "((wq_requests q)(i \<mapsto> r\<lparr>wr_approval_cert := Some cert, wr_approved_timestamp_ms := Some clock\<rparr>)) j = Some x"
      "wq_requests q j \<noteq> Some x"
    then have "j = i" "x = r\<lparr>wr_approval_cert := Some cert, wr_approved_timestamp_ms := Some clock\<rparr>"
      by (auto split: if_splits)
    then show "wr_id x = j \<and> wq_processed q j = None \<and> \<not> is_committed x \<and> wr_btc x = wr_btc_amount x"
      using queue_okD(1) [OF assms(1) r(1)] r(2) by (simp add: is_committed_def)
  qed
qed

lemma cancel_withdrawal_request_Ok:
  "cancel_withdrawal_request q i = Ok (btc, q') \<longleftrightarrow>
     (\<exists>r. wq_requests q i = Some r \<and> \<not> is_committed r \<and> btc = wr_btc r \<and>
        q' = q\<lparr>wq_requests := (wq_requests q)(i := None)\<rparr>)"
  by (auto simp: cancel_withdrawal_request_def)

lemma cancel_withdrawal_request_ok:
  assumes "queue_ok q" "cancel_withdrawal_request q i = Ok (btc, q')"
  shows "queue_ok q'"
proof -
  obtain r where r: "wq_requests q i = Some r" "\<not> is_committed r"
    and q': "q' = q\<lparr>wq_requests := (wq_requests q)(i := None)\<rparr>"
    using assms(2) by (auto simp: cancel_withdrawal_request_Ok)
  show ?thesis
    by (rule requests_change_ok [OF assms(1) q']) (use r in \<open>auto split: if_splits\<close>)
qed

end
