(* ===== verification/Move_Queue_Steps.thy ===== *)
theory Move_Queue_Steps
  imports Move_Queue_Inv
begin

text \<open>
  The operations on withdrawal transactions keep the invariant of the queue: commitment, signing,
  confirmation, reallocation of presignatures, and archival.
\<close>

section \<open>Changes of a transaction\<close>

definition same_payment :: "WithdrawalTransaction \<Rightarrow> WithdrawalTransaction \<Rightarrow> bool" where
  "same_payment t t' \<longleftrightarrow>
     wt_id t' = wt_id t \<and> wt_txid t' = wt_txid t \<and> wt_request_ids t' = wt_request_ids t \<and>
     wt_inputs t' = wt_inputs t \<and> wt_withdrawal_outputs t' = wt_withdrawal_outputs t \<and>
     wt_change_outputs t' = wt_change_outputs t \<and>
     (wt_confirmed_timestamp_ms t \<noteq> None \<longrightarrow> wt_confirmed_timestamp_ms t' \<noteq> None)"

lemma modify_txn_Ok:
  "modify_txn q w f = Ok q' \<longleftrightarrow>
     (\<exists>t t'. wq_withdrawal_txns q w = Some t \<and> f t = Ok t' \<and>
        q' = q\<lparr>wq_withdrawal_txns := (wq_withdrawal_txns q)(w \<mapsto> t')\<rparr>)"
  by (auto simp: modify_txn_def)

lemma txn_change_ok:
  assumes ok: "queue_ok q" and t: "wq_withdrawal_txns q w = Some t"
    and q': "q' = q\<lparr>wq_withdrawal_txns := (wq_withdrawal_txns q)(w \<mapsto> t')\<rparr>"
    and t': "same_payment t t'" "txn_shape t'"
  shows "queue_ok q'"
proof -
  have rq: "request_of q' = request_of q" by (auto simp: request_of_def q' fun_eq_iff split: option.split)
  have tx: "txn_of q' x = (if x = w then Some t' else txn_of q x)" for x
    by (auto simp: txn_of_def q' split: option.split)
  have keep: "keeps_committed q q'" by (simp add: keeps_committed_def rq)
  have fields: "wq_requests q' = wq_requests q" "wq_processed q' = wq_processed q"
      "wq_confirmed_txns q' = wq_confirmed_txns q"
    by (simp_all add: q')
  have "requests_ok q'" using ok by (simp add: queue_ok_def requests_ok_def fields)
  moreover have "txns_ok q'"
    unfolding txns_ok_def fields
  proof (intro conjI allI impI)
    fix x y assume "wq_withdrawal_txns q' x = Some y"
    then have "wq_withdrawal_txns q x \<noteq> None" using t by (auto simp: q' split: if_splits)
    then show "wq_confirmed_txns q x = None" using queue_okD(3) [OF ok] by blast
  next
    fix x y assume y: "wq_confirmed_txns q x = Some y"
    show "wt_confirmed_timestamp_ms y \<noteq> None" by (rule queue_okD(4) [OF ok y])
    show "\<forall>i \<in> set (wt_request_ids y). wq_requests q i = None" using queue_okD(5) [OF ok y] by blast
  next
    fix x y assume y: "txn_of q' x = Some y"
    show "wt_id y = x" "txn_shape y" "pays q' y"
    proof -
      have tw: "txn_of q w = Some t" using t by simp
      show "wt_id y = x"
        using y t'(1) queue_okD(6) [OF ok tw] queue_okD(6) [OF ok, of x y]
        by (auto simp: tx same_payment_def split: if_splits)
      show "txn_shape y" using y t'(2) queue_okD(7) [OF ok, of x y] by (auto simp: tx split: if_splits)
      show "pays q' y"
      proof (cases "x = w")
        case True
        then have "y = t'" using y by (simp add: tx)
        then show ?thesis
          using t'(1) by (intro pays_mono [OF queue_okD(8) [OF ok tw] keep]) (simp_all add: same_payment_def)
      next
        case False
        then have "txn_of q x = Some y" using y by (simp add: tx)
        then show ?thesis by (intro pays_mono [OF queue_okD(8) [OF ok] keep]) simp_all
      qed
    qed
  qed
  moreover have "links_ok q'"
    unfolding links_ok_def fields rq
  proof (intro allI impI)
    fix i r x assume r: "request_of q i = Some r" "wr_withdrawal_txn_id r = Some x"
    obtain y where y: "txn_of q x = Some y" "i \<in> set (wt_request_ids y)"
        "wq_processed q i \<noteq> None \<longrightarrow> wt_confirmed_timestamp_ms y \<noteq> None"
      using queue_okD(9) [OF ok r] by blast
    show "\<exists>z. txn_of q' x = Some z \<and> i \<in> set (wt_request_ids z) \<and>
        (wq_processed q i \<noteq> None \<longrightarrow> wt_confirmed_timestamp_ms z \<noteq> None)"
    proof (cases "x = w")
      case True
      then have "y = t" using y(1) t by simp
      then show ?thesis using y t'(1) True by (intro exI [of _ t']) (simp add: tx same_payment_def)
    next
      case False
      then show ?thesis using y by (intro exI [of _ y]) (simp add: tx)
    qed
  qed
  ultimately show ?thesis by (simp add: queue_ok_def)
qed

lemma modify_txn_ok:
  assumes "queue_ok q" "modify_txn q w f = Ok q'"
    and "\<And>t t'. f t = Ok t' \<Longrightarrow> txn_shape t \<Longrightarrow> same_payment t t' \<and> txn_shape t'"
  shows "queue_ok q'"
proof -
  obtain t t' where t: "wq_withdrawal_txns q w = Some t" "f t = Ok t'"
    and q': "q' = q\<lparr>wq_withdrawal_txns := (wq_withdrawal_txns q)(w \<mapsto> t')\<rparr>"
    using assms(2) unfolding modify_txn_Ok by blast
  have "txn_shape t" using t(1) by (intro queue_okD(7) [OF assms(1), of w]) simp
  then show ?thesis using txn_change_ok [OF assms(1) t(1) q'] assms(3) [OF t(2)] by blast
qed

lemma record_sigs_shape:
  assumes "record_sigs b is sigs = Ok b'"
  shows "length (sb_signatures b') = length (sb_signatures b)" "is_complete b \<Longrightarrow> b' = b"
proof -
  note s = record_sigs_Ok [OF assms]
  show "length (sb_signatures b') = length (sb_signatures b)"
    using s(1) by (auto simp: signs_more_def dest: list_all2_lengthD)
  show "b' = b" if "is_complete b"
    using signs_more_complete [OF s(1)] that s(2) by (simp add: is_complete_nonces)
qed

lemma record_input_signatures_ok:
  assumes "queue_ok q" "record_input_signatures q w is sigs = Ok q'"
  shows "queue_ok q'"
  using assms(1) assms(2) [unfolded record_input_signatures_def]
proof (rule modify_txn_ok)
  fix t t'
  assume "and_then (ensure (\<not> txn_fully_signed t) (QueueAbort EWithdrawalAlreadyFinalized)) (\<lambda>_.
       and_then (record_sigs (wt_signing t) is sigs) (\<lambda>b. Ok (t\<lparr>wt_signing := b\<rparr>))) = Ok t'"
    and sh: "txn_shape t"
  then obtain b where b: "\<not> txn_fully_signed t" "record_sigs (wt_signing t) is sigs = Ok b" "t' = t\<lparr>wt_signing := b\<rparr>"
    by auto
  have g: "wt_guardian_signatures t = None"
    using b(1) sh by (auto simp: txn_fully_signed_def txn_shape_def)
  show "same_payment t t' \<and> txn_shape t'"
    using sh g record_sigs_shape(1) [OF b(2)] by (auto simp: b(3) same_payment_def txn_shape_def)
qed

lemma finalize_withdrawal_txn_ok:
  assumes "queue_ok q" "finalize_withdrawal_txn q w gs clock = Ok q'"
  shows "queue_ok q'"
  using assms(1) assms(2) [unfolded finalize_withdrawal_txn_def]
  by (rule modify_txn_ok) (auto simp: same_payment_def txn_shape_def)

lemma mark_txn_confirmed_ok:
  assumes "queue_ok q" "mark_txn_confirmed q w clock = Ok q'"
    and "withdrawal_txn_is_fully_signed q w = Ok True"
  shows "queue_ok q'"
proof -
  obtain t where t: "wq_withdrawal_txns q w = Some t"
    and q': "q' = q\<lparr>wq_withdrawal_txns := (wq_withdrawal_txns q)(w \<mapsto> t\<lparr>wt_confirmed_timestamp_ms := Some clock\<rparr>)\<rparr>"
    using assms(2) by (auto simp: mark_txn_confirmed_def modify_txn_Ok)
  have "txn_fully_signed t"
    using assms(3) t by (auto simp: withdrawal_txn_is_fully_signed_def borrow_withdrawal_txn_def)
  moreover have "txn_shape t" using t by (intro queue_okD(7) [OF assms(1), of w]) simp
  ultimately show ?thesis
    by (intro txn_change_ok [OF assms(1) t q'])
      (auto simp: same_payment_def txn_shape_def txn_fully_signed_def)
qed

lemma reallocate_presigs_ok:
  assumes "queue_ok q" "reallocate_presigs_for_withdrawal_txn q w ps e rnd = Ok q'"
  shows "queue_ok q'"
  using assms(1) assms(2) [unfolded reallocate_presigs_for_withdrawal_txn_def]
proof (rule modify_txn_ok)
  fix t t'
  assume f: "(let reassigns = (ps \<noteq> [])
       in and_then (reallocate (wt_signing t) ps e) (\<lambda>b.
            Ok (if reassigns then t\<lparr>wt_signing := b, wt_randomness := rnd\<rparr> else t\<lparr>wt_signing := b\<rparr>))) = Ok t'"
    and sh: "txn_shape t"
  then obtain b where b: "reallocate (wt_signing t) ps e = Ok b"
      "t' = (if ps \<noteq> [] then t\<lparr>wt_signing := b, wt_randomness := rnd\<rparr> else t\<lparr>wt_signing := b\<rparr>)"
    by auto
  have l: "length (sb_signatures b) = length (sb_signatures (wt_signing t))"
    using b(1) by (auto simp: reallocate_Ok)
  have "nonces (sb_signatures b) = ps" "length ps = length (nonces (sb_signatures (wt_signing t)))"
    using b(1) by (auto simp: reallocate_Ok nonces_refill)
  then have c: "is_complete b \<longleftrightarrow> is_complete (wt_signing t)"
    by (auto simp: is_complete_nonces)
  show "same_payment t t' \<and> txn_shape t'"
    using sh l c by (auto simp: b(2) same_payment_def txn_shape_def)
qed

section \<open>Commitment\<close>

lemma commit_ok:
  fixes share :: u64
  assumes ok: "queue_ok q" and sh: "txn_shape t"
    and fresh: "txn_of q (wt_id t) = None"
    and sum: "total_in (wt_inputs t) = total_out (wt_withdrawal_outputs t) +
       total_out (wt_change_outputs t) + length (wt_request_ids t) * unat share"
    and pay: "\<And>k. k < length (wt_request_ids t) \<Longrightarrow>
       \<exists>r. wq_requests q (wt_request_ids t ! k) = Some r \<and>
          unat (ou_amount (wt_withdrawal_outputs t ! k)) + unat share = unat (wr_btc_amount r) \<and>
          546 \<le> unat (ou_amount (wt_withdrawal_outputs t ! k)) \<and>
          ou_bitcoin_address (wt_withdrawal_outputs t ! k) = wr_bitcoin_address r"
    and c: "commit_requests q t = Ok (tot, q1)" and i: "insert_withdrawal_txn q1 t = Ok q2"
  shows "queue_ok q2"
proof -
  let ?ids = "set (wt_request_ids t)" and ?w = "wt_id t"
  note cr = commit_requests_Ok [OF c]
  have q2: "q2 = q\<lparr>wq_requests := \<lambda>i. if i \<in> ?ids then map_option (drain ?w) (wq_requests q i) else wq_requests q i,
      wq_withdrawal_txns := (wq_withdrawal_txns q)(?w \<mapsto> t)\<rparr>"
    using i by (auto simp: insert_withdrawal_txn_def cr(3))
  define rs where "rs = wq_requests q2"
  have rs: "rs i = (if i \<in> ?ids then map_option (drain ?w) (wq_requests q i) else wq_requests q i)" for i
    by (simp add: rs_def q2)
  have fields: "wq_requests q2 = rs" "wq_processed q2 = wq_processed q"
      "wq_confirmed_txns q2 = wq_confirmed_txns q" "wq_withdrawal_txns q2 = (wq_withdrawal_txns q)(?w \<mapsto> t)"
    by (simp_all add: rs_def) (simp_all add: q2)
  have rq: "request_of q2 i = (if i \<in> ?ids then map_option (drain ?w) (wq_requests q i) else request_of q i)" for i
    using cr(2) [of i] by (auto simp: request_of_def fields rs split: option.split)
  have tx: "txn_of q2 x = (if x = ?w then Some t else txn_of q x)" for x
    by (auto simp: txn_of_def fields split: option.split)
  have keep: "keeps_committed q q2"
    unfolding keeps_committed_def
  proof (intro allI impI)
    fix i r assume r: "request_of q i = Some r" "is_committed r"
    have "i \<notin> ?ids" using cr(2) [of i] r by (auto simp: request_of_def)
    then show "\<exists>r'. request_of q2 i = Some r' \<and> wr_btc_amount r' = wr_btc_amount r \<and>
       wr_bitcoin_address r' = wr_bitcoin_address r \<and> wr_withdrawal_txn_id r' = wr_withdrawal_txn_id r"
      using r(1) by (simp add: rq)
  qed
  have "requests_ok q2"
    unfolding requests_ok_def fields
  proof (intro conjI allI impI)
    fix i r assume r: "rs i = Some r"
    have "wr_id r = i \<and> wq_processed q i = None \<and> (is_committed r \<longrightarrow> is_approved r) \<and>
       wr_btc r = (if is_committed r then 0 else wr_btc_amount r)"
    proof (cases "i \<in> ?ids")
      case True
      then obtain x where x: "wq_requests q i = Some x" "is_approved x" using cr(2) by blast
      then have "r = drain ?w x" using r True by (simp add: rs)
      then show ?thesis using queue_okD(1) [OF ok x(1)] x(2) by (simp add: is_approved_def)
    next
      case False
      then show ?thesis using r by (intro queue_okD(1) [OF ok]) (simp add: rs)
    qed
    then show "wr_id r = i" "wq_processed q i = None" "is_committed r \<Longrightarrow> is_approved r"
      "wr_btc r = (if is_committed r then 0 else wr_btc_amount r)" by blast+
  next
    fix i r assume r: "wq_processed q i = Some r"
    from queue_okD(2) [OF ok r]
    show "wr_id r = i" "is_committed r" "is_approved r" "wr_btc r = 0" by blast+
  qed
  moreover have "txns_ok q2"
    unfolding txns_ok_def fields
  proof (intro conjI allI impI ballI)
    fix w x assume x: "((wq_withdrawal_txns q)(?w \<mapsto> t)) w = Some x"
    show "wq_confirmed_txns q w = None"
    proof (cases "w = ?w")
      case True then show ?thesis using fresh by (simp add: txn_of_def split: option.splits)
    next
      case False then show ?thesis using x by (intro queue_okD(3) [OF ok]) simp
    qed
  next
    fix w x assume x: "wq_confirmed_txns q w = Some x"
    show "wt_confirmed_timestamp_ms x \<noteq> None" by (rule queue_okD(4) [OF ok x])
    fix i assume "i \<in> set (wt_request_ids x)"
    then have "wq_requests q i = None" by (rule queue_okD(5) [OF ok x])
    then show "rs i = None" by (simp add: rs)
  next
    fix w x assume x: "txn_of q2 w = Some x"
    show "wt_id x = w" using x queue_okD(6) [OF ok, of w x] by (auto simp: tx split: if_splits)
    show "txn_shape x" using x sh queue_okD(7) [OF ok, of w x] by (auto simp: tx split: if_splits)
    show "pays q2 x"
    proof (cases "w = ?w")
      case True
      then have "x = t" using x by (simp add: tx)
      moreover have "pays_request q2 t share k" if k: "k < length (wt_request_ids t)" for k
        using pay [OF k] k by (auto simp: pays_request_def rq)
      ultimately show ?thesis using sum by (auto simp: pays_def)
    next
      case False
      then have "txn_of q w = Some x" using x by (simp add: tx)
      then show ?thesis by (intro pays_mono [OF queue_okD(8) [OF ok] keep]) simp_all
    qed
  qed
  moreover have "links_ok q2"
    unfolding links_ok_def fields
  proof (intro allI impI)
    fix i r w assume r: "request_of q2 i = Some r" "wr_withdrawal_txn_id r = Some w"
    show "\<exists>x. txn_of q2 w = Some x \<and> i \<in> set (wt_request_ids x) \<and>
        (wq_processed q i \<noteq> None \<longrightarrow> wt_confirmed_timestamp_ms x \<noteq> None)"
    proof (cases "i \<in> ?ids")
      case True
      then obtain x where x: "wq_requests q i = Some x" using cr(2) by blast
      then have "w = ?w" "wq_processed q i = None"
        using r True queue_okD(1) [OF ok x] by (auto simp: rq)
      then show ?thesis using True by (simp add: tx)
    next
      case False
      then have r': "request_of q i = Some r" using r(1) by (simp add: rq)
      obtain x where x: "txn_of q w = Some x" "i \<in> set (wt_request_ids x)"
          "wq_processed q i \<noteq> None \<longrightarrow> wt_confirmed_timestamp_ms x \<noteq> None"
        using queue_okD(9) [OF ok r' r(2)] by blast
      then have "w \<noteq> ?w" using fresh by auto
      then show ?thesis using x by (intro exI [of _ x]) (simp add: tx)
    qed
  qed
  ultimately show ?thesis by (simp add: queue_ok_def)
qed

section \<open>Archival\<close>

text \<open>Moves between the bags that change no request and no transaction.\<close>

lemma relocation_ok:
  assumes ok: "queue_ok q"
    and rq: "request_of q' = request_of q" and tx: "txn_of q' = txn_of q"
    and "requests_ok q'"
    and live: "\<And>w t. wq_withdrawal_txns q' w = Some t \<Longrightarrow> wq_confirmed_txns q' w = None"
    and conf: "\<And>w t. wq_confirmed_txns q' w = Some t \<Longrightarrow> wt_confirmed_timestamp_ms t \<noteq> None"
    and gone: "\<And>w t i. wq_confirmed_txns q' w = Some t \<Longrightarrow> i \<in> set (wt_request_ids t) \<Longrightarrow> wq_requests q' i = None"
    and archived: "\<And>i r w t. wq_processed q' i = Some r \<Longrightarrow> wq_processed q i \<noteq> Some r \<Longrightarrow>
        wr_withdrawal_txn_id r = Some w \<Longrightarrow> txn_of q w = Some t \<Longrightarrow> wt_confirmed_timestamp_ms t \<noteq> None"
  shows "queue_ok q'"
proof -
  have keep: "keeps_committed q q'" by (simp add: keeps_committed_def rq)
  have "txns_ok q'"
    unfolding txns_ok_def tx
  proof (intro conjI allI impI ballI)
    fix w t assume t: "txn_of q w = Some t"
    show "wt_id t = w" by (rule queue_okD(6) [OF ok t])
    show "txn_shape t" by (rule queue_okD(7) [OF ok t])
    show "pays q' t" by (rule pays_mono [OF queue_okD(8) [OF ok t] keep]) simp_all
  qed (use live conf gone in blast)+
  moreover have "links_ok q'"
    unfolding links_ok_def rq tx
  proof (intro allI impI)
    fix i r w assume r: "request_of q i = Some r" "wr_withdrawal_txn_id r = Some w"
    obtain t where t: "txn_of q w = Some t" "i \<in> set (wt_request_ids t)"
        "wq_processed q i \<noteq> None \<longrightarrow> wt_confirmed_timestamp_ms t \<noteq> None"
      using queue_okD(9) [OF ok r] by blast
    have "wt_confirmed_timestamp_ms t \<noteq> None" if p: "wq_processed q' i \<noteq> None"
    proof -
      obtain x where x: "wq_processed q' i = Some x" using p by auto
      then have "wq_requests q' i = None"
        using \<open>requests_ok q'\<close> unfolding requests_ok_def by (metis option.distinct(1) option.exhaust)
      then have "request_of q' i = Some x" using x by (simp add: request_of_def)
      then have "x = r" using r(1) rq by simp
      show ?thesis
      proof (cases "wq_processed q i = Some r")
        case True then show ?thesis using t(3) by simp
      next
        case False
        show ?thesis by (rule archived [OF _ False r(2) t(1)]) (simp add: x \<open>x = r\<close>)
      qed
    qed
    then show "\<exists>t. txn_of q w = Some t \<and> i \<in> set (wt_request_ids t) \<and>
        (wq_processed q' i \<noteq> None \<longrightarrow> wt_confirmed_timestamp_ms t \<noteq> None)"
      using t by blast
  qed
  ultimately show ?thesis using \<open>requests_ok q'\<close> by (simp add: queue_ok_def)
qed

lemma archive_request_Ok:
  "archive_request w i q = Ok q' \<longleftrightarrow>
     (case wq_requests q i of
        None \<Rightarrow> q' = q
      | Some r \<Rightarrow> wr_withdrawal_txn_id r = Some w \<and> wq_processed q i = None \<and>
          q' = q\<lparr>wq_requests := (wq_requests q)(i := None), wq_processed := (wq_processed q)(i \<mapsto> r)\<rparr>)"
  by (auto simp: archive_request_def bag_contains_def split: option.splits)

lemma archive_request_ok:
  assumes ok: "queue_ok q" and t: "wq_withdrawal_txns q w = Some t" "wt_confirmed_timestamp_ms t \<noteq> None"
    and a: "archive_request w i q = Ok q'"
  shows "queue_ok q'"
proof (cases "wq_requests q i")
  case None then show ?thesis using a ok by (simp add: archive_request_Ok)
next
  case (Some r)
  then have r: "wr_withdrawal_txn_id r = Some w" "wq_processed q i = None"
    and q': "q' = q\<lparr>wq_requests := (wq_requests q)(i := None), wq_processed := (wq_processed q)(i \<mapsto> r)\<rparr>"
    using a by (auto simp: archive_request_Ok)
  have rc: "wr_id r = i" "is_committed r" "is_approved r" "wr_btc r = 0"
    using queue_okD(1) [OF ok Some] r(1) by (auto simp: is_committed_def)
  show ?thesis
  proof (rule relocation_ok [OF ok])
    show "request_of q' = request_of q"
      using Some by (auto simp: request_of_def q' fun_eq_iff split: option.split)
    show "txn_of q' = txn_of q" by (auto simp: txn_of_def q' fun_eq_iff split: option.split)
    show "requests_ok q'"
      unfolding requests_ok_def
    proof (intro conjI allI impI)
      fix j x assume x: "wq_requests q' j = Some x"
      then have j: "j \<noteq> i" "wq_requests q j = Some x" by (auto simp: q' split: if_splits)
      show "wr_id x = j" "wq_processed q' j = None" "is_committed x \<Longrightarrow> is_approved x"
        "wr_btc x = (if is_committed x then 0 else wr_btc_amount x)"
        using queue_okD(1) [OF ok j(2)] j(1) by (simp_all add: q')
    next
      fix j x assume x: "wq_processed q' j = Some x"
      show "wr_id x = j" "is_committed x" "is_approved x" "wr_btc x = 0"
        using x rc queue_okD(2) [OF ok, of j x] by (auto simp: q' split: if_splits)
    qed
    show "wq_confirmed_txns q' x = None" if "wq_withdrawal_txns q' x = Some y" for x y
      using that queue_okD(3) [OF ok, of x y] by (simp add: q')
    show "wt_confirmed_timestamp_ms y \<noteq> None" if "wq_confirmed_txns q' x = Some y" for x y
      using that by (intro queue_okD(4) [OF ok, of x]) (simp add: q')
    show "wq_requests q' j = None" if "wq_confirmed_txns q' x = Some y" "j \<in> set (wt_request_ids y)" for x y j
      using that queue_okD(5) [OF ok, of x y j] by (simp add: q')
    show "wt_confirmed_timestamp_ms y \<noteq> None"
      if "wq_processed q' j = Some x" "wq_processed q j \<noteq> Some x" "wr_withdrawal_txn_id x = Some v"
        "txn_of q v = Some y" for j x v y
      using that r t by (auto simp: q' split: if_splits)
  qed
qed

lemma archive_request_txns:
  "archive_request w i q = Ok q' \<Longrightarrow>
   wq_withdrawal_txns q' = wq_withdrawal_txns q \<and> wq_confirmed_txns q' = wq_confirmed_txns q"
  by (auto simp: archive_request_Ok split: option.splits)

lemma archive_requests_loop_ok:
  assumes "queue_ok q" "wq_withdrawal_txns q w = Some t" "wt_confirmed_timestamp_ms t \<noteq> None"
    and a: "do_each (archive_request w) is q = Ok q'"
  shows "queue_ok q' \<and> wq_withdrawal_txns q' = wq_withdrawal_txns q"
proof (rule do_each_preserves [OF a])
  show "queue_ok q \<and> wq_withdrawal_txns q = wq_withdrawal_txns q" using assms(1) by simp
  fix i s s' assume s: "queue_ok s \<and> wq_withdrawal_txns s = wq_withdrawal_txns q" and "archive_request w i s = Ok s'"
  then show "queue_ok s' \<and> wq_withdrawal_txns s' = wq_withdrawal_txns q"
    using archive_request_ok [of s w t i s'] archive_request_txns [of w i s s'] assms(2,3) by simp
qed

lemma archive_requests_loop_gone:
  assumes "do_each (archive_request w) is q = Ok q'"
  shows "i \<in> set is \<or> wq_requests q i = None \<Longrightarrow> wq_requests q' i = None"
  using assms
proof (induction "is" arbitrary: q)
  case (Cons j js)
  then obtain s where s: "archive_request w j q = Ok s" "do_each (archive_request w) js s = Ok q'" by auto
  have "wq_requests s j = None" "wq_requests q i = None \<Longrightarrow> wq_requests s i = None"
    using s(1) by (auto simp: archive_request_Ok split: option.splits)
  then show ?case using Cons.IH [OF _ s(2)] Cons.prems(1) by auto
qed simp

lemma move_to_confirmed_Ok:
  "move_to_confirmed w q = Ok q' \<longleftrightarrow>
     (\<exists>t. wq_withdrawal_txns q w = Some t \<and> wq_confirmed_txns q w = None \<and>
        q' = q\<lparr>wq_withdrawal_txns := (wq_withdrawal_txns q)(w := None),
               wq_confirmed_txns := (wq_confirmed_txns q)(w \<mapsto> t)\<rparr>)"
  by (auto simp: move_to_confirmed_def)

lemma move_to_confirmed_ok:
  assumes ok: "queue_ok q" and m: "move_to_confirmed w q = Ok q'"
    and t: "wq_withdrawal_txns q w = Some t" "wt_confirmed_timestamp_ms t \<noteq> None"
    and gone: "\<And>i. i \<in> set (wt_request_ids t) \<Longrightarrow> wq_requests q i = None"
  shows "queue_ok q'"
proof -
  have q': "q' = q\<lparr>wq_withdrawal_txns := (wq_withdrawal_txns q)(w := None),
      wq_confirmed_txns := (wq_confirmed_txns q)(w \<mapsto> t)\<rparr>"
    using m t(1) by (auto simp: move_to_confirmed_Ok)
  show ?thesis
  proof (rule relocation_ok [OF ok])
    show "request_of q' = request_of q" by (auto simp: request_of_def q' fun_eq_iff split: option.split)
    show "txn_of q' = txn_of q" using t(1) by (auto simp: txn_of_def q' fun_eq_iff split: option.split)
    show "requests_ok q'" using ok by (simp add: queue_ok_def requests_ok_def q')
    show "wq_confirmed_txns q' x = None" if "wq_withdrawal_txns q' x = Some y" for x y
      using that queue_okD(3) [OF ok, of x y] by (simp add: q' split: if_splits)
    show "wt_confirmed_timestamp_ms y \<noteq> None" if "wq_confirmed_txns q' x = Some y" for x y
      using that t(2) queue_okD(4) [OF ok, of x y] by (simp add: q' split: if_splits)
    show "wq_requests q' j = None" if "wq_confirmed_txns q' x = Some y" "j \<in> set (wt_request_ids y)" for x y j
      using that gone [of j] queue_okD(5) [OF ok, of x y j] by (auto simp: q' split: if_splits)
  qed (simp add: q')
qed

lemma archive_withdrawal_txn_ok:
  assumes ok: "queue_ok q" and a: "archive_withdrawal_txn w q = Ok q'"
  shows "queue_ok q'"
proof (cases "wq_withdrawal_txns q w")
  case None then show ?thesis using a ok by (simp add: archive_withdrawal_txn_def)
next
  case (Some t)
  then obtain s where s: "wt_confirmed_timestamp_ms t \<noteq> None" "do_each (archive_request w) (wt_request_ids t) q = Ok s"
      "move_to_confirmed w s = Ok q'"
    using a unfolding archive_withdrawal_txn_def by auto
  note l = archive_requests_loop_ok [OF ok Some s(1,2)]
  show ?thesis
    by (rule move_to_confirmed_ok [of s w q' t])
      (use l s Some archive_requests_loop_gone [OF s(2)] in auto)
qed

lemma archive_withdrawal_requests_ok:
  assumes ok: "queue_ok q" and a: "archive_withdrawal_requests w is q = Ok q'"
  shows "queue_ok q'"
proof (cases "wq_withdrawal_txns q w")
  case None then show ?thesis using a ok by (simp add: archive_withdrawal_requests_def)
next
  case (Some t)
  then have s: "wt_confirmed_timestamp_ms t \<noteq> None" "do_each (archive_request w) is q = Ok q'"
    using a by (auto simp: archive_withdrawal_requests_def)
  show ?thesis using archive_requests_loop_ok [OF ok Some s] by simp
qed

lemma finish_archive_withdrawal_txn_ok:
  assumes ok: "queue_ok q" and a: "finish_archive_withdrawal_txn w q = Ok q'"
  shows "queue_ok q'"
proof (cases "wq_withdrawal_txns q w")
  case None then show ?thesis using a ok by (simp add: finish_archive_withdrawal_txn_def)
next
  case (Some t)
  then have s: "wt_confirmed_timestamp_ms t \<noteq> None"
    "q' = q \<or> list_all (\<lambda>i. wq_processed q i \<noteq> None) (wt_request_ids t) \<and> move_to_confirmed w q = Ok q'"
    using a by (auto simp: finish_archive_withdrawal_txn_def bag_contains_def list_ex_iff list_all_iff split: if_splits)
  from s(2) show ?thesis
  proof
    assume m: "list_all (\<lambda>i. wq_processed q i \<noteq> None) (wt_request_ids t) \<and> move_to_confirmed w q = Ok q'"
    have "wq_requests q i = None" if "i \<in> set (wt_request_ids t)" for i
      using m that queue_okD(1) [OF ok, of i] by (cases "wq_requests q i") (auto simp: list_all_iff)
    then show ?thesis using move_to_confirmed_ok [OF ok _ Some s(1)] m by blast
  qed (use ok in simp)
qed

end
