(* ===== verification/Move_Bridge_Inv.thy ===== *)
theory Move_Bridge_Inv
  imports Move_Bridge Move_Queue_Steps
begin

text \<open>
  The bridge as a transition system: one step is one successful call of an entry function, a change
  governance makes to the settings, or a change of the member registry. The invariant of the
  reachable states ties the parts of the bridge together: the UTXO pool, the withdrawal queue, the
  supply of hBTC, the committees and the presignature allocator.
\<close>

section \<open>Steps\<close>

text \<open>
  Calls on the member registry (\<^verbatim>\<open>core/validator.move\<close> and the proposal
  \<^verbatim>\<open>ignore_member\<close>).
\<close>

inductive registry_step :: "natives \<Rightarrow> CommitteeSet \<Rightarrow> CommitteeSet \<Rightarrow> bool" for nt where
  register: "register_member nt s (ctx_sender (ctx :: TxContext)) act = Ok s' \<Longrightarrow> registry_step nt s s'"
| update_key: "set_next_epoch_public_key nt s h a key sig ctx = Ok s' \<Longrightarrow> registry_step nt s s'"
| update_operator: "set_operator_address s a b ctx = Ok s' \<Longrightarrow> registry_step nt s s'"
| update_endpoint: "set_endpoint_url s a url ctx = Ok s' \<Longrightarrow> registry_step nt s s'"
| update_tls: "set_tls_public_key nt s h a key sig ctx = Ok s' \<Longrightarrow> registry_step nt s s'"
| update_encryption: "set_next_epoch_encryption_public_key s a key ctx = Ok s' \<Longrightarrow> registry_step nt s s'"
| resign: "request_resignation s a ctx = Ok s' \<Longrightarrow> registry_step nt s s'"
| withdraw_resignation: "clear_resignation s a ctx = Ok s' \<Longrightarrow> registry_step nt s s'"
| remove_inactive: "remove_inactive_member s a act = Ok s' \<Longrightarrow> registry_step nt s s'"
| ignore: "set_member_ignored s a b = Ok s' \<Longrightarrow> registry_step nt s s'"

text \<open>
  Sui never gives two objects the same id; what the bridge needs of this is that a new request or
  transaction does not get the id of one it still keeps.
\<close>

definition unused_id :: "Hashi \<Rightarrow> address \<Rightarrow> bool" where
  "unused_id h i \<longleftrightarrow> request_of (hs_queue h) i = None \<and> txn_of (hs_queue h) i = None"

inductive bridge_step :: "natives \<Rightarrow> address \<Rightarrow> Hashi \<Rightarrow> Hashi \<Rightarrow> bool" for nt pkg where
  publish: "finish_publish pkg h cap chain url node_url key threshold delay = Ok h' \<Longrightarrow> bridge_step nt pkg h h'"
| deposit: "deposit h utxo clock ctx = Ok h' \<Longrightarrow> bridge_step nt pkg h h'"
| approve_deposit: "approve_deposit nt h i cert clock = Ok h' \<Longrightarrow> bridge_step nt pkg h h'"
| confirm_deposit: "confirm_deposit nt h i clock = Ok h' \<Longrightarrow> bridge_step nt pkg h h'"
| delete_expired: "delete_expired_deposit h i clock = Ok h' \<Longrightarrow> bridge_step nt pkg h h'"
| request: "request_withdrawal h clock btc addr ctx = Ok h' \<Longrightarrow> unused_id h (ctx_new_id ctx) \<Longrightarrow> bridge_step nt pkg h h'"
| cancel: "cancel_withdrawal h i clock ctx = Ok (btc, h') \<Longrightarrow> bridge_step nt pkg h h'"
| approve: "approve_request nt h i cert clock = Ok h' \<Longrightarrow> bridge_step nt pkg h h'"
| commit: "commit_withdrawal_tx nt h ids utxos outs txid cert clock rnd ctx = Ok h' \<Longrightarrow>
     unused_id h (ctx_new_id ctx) \<Longrightarrow> bridge_step nt pkg h h'"
| sign: "commit_input_signatures nt h w is sigs cert = Ok h' \<Longrightarrow> bridge_step nt pkg h h'"
| finalize: "finalize_withdrawal nt h w gs cert clock = Ok h' \<Longrightarrow> bridge_step nt pkg h h'"
| confirm: "confirm_withdrawal nt h w cert clock = Ok h' \<Longrightarrow> bridge_step nt pkg h h'"
| archive: "archive_confirmed_withdrawals h ws = Ok h' \<Longrightarrow> bridge_step nt pkg h h'"
| archive_chunk: "archive_requests_entry h w ids = Ok h' \<Longrightarrow> bridge_step nt pkg h h'"
| finish_archive: "finish_archive_withdrawal_txns h ws = Ok h' \<Longrightarrow> bridge_step nt pkg h h'"
| reallocate: "reallocate_presigs h w rnd = Ok h' \<Longrightarrow> bridge_step nt pkg h h'"
| cleanup: "cleanup_spent_utxos h is = Ok h' \<Longrightarrow> bridge_step nt pkg h h'"
| start: "start_reconfig nt h powers ctx = Ok h' \<Longrightarrow> bridge_step nt pkg h h'"
| complete: "end_reconfig nt h key cert ctx = Ok h' \<Longrightarrow> bridge_step nt pkg h h'"
| handoff: "submit_committee_handoff nt h e cert ctx = Ok h' \<Longrightarrow> bridge_step nt pkg h h'"
| abort: "abort_reconfig h e ctx = Ok h' \<Longrightarrow> bridge_step nt pkg h h'"
| registry: "registry_step nt (hs_committee_set h) s' \<Longrightarrow> bridge_step nt pkg h (h\<lparr>hs_committee_set := s'\<rparr>)"
| governance: "bridge_step nt pkg h (h\<lparr>hs_config := c, hs_epoch_config := e, hs_versioning := v\<rparr>)"

inductive reachable :: "natives \<Rightarrow> address \<Rightarrow> Hashi \<Rightarrow> bool" for nt pkg where
  launch: "reachable nt pkg (hashi_init ctx)"
| step: "reachable nt pkg h \<Longrightarrow> bridge_step nt pkg h h' \<Longrightarrow> reachable nt pkg h'"

section \<open>The invariant\<close>

definition hbtc_supply :: "Hashi \<Rightarrow> nat" where
  "hbtc_supply h = (case t_treasury_cap (hs_treasury h) of None \<Rightarrow> 0 | Some s \<Rightarrow> unat s)"

text \<open>The bitcoin free to be spent is the supply of hBTC and what was deposited without a recipient.\<close>

definition backed :: "Hashi \<Rightarrow> bool" where
  "backed h \<longleftrightarrow> finite (dom (dq_processed (hs_deposits h))) \<and>
     available (hs_pool h) = hbtc_supply h + unminted (hs_deposits h)"

text \<open>
  The inputs of a transaction are locked by it for good, belong to no other transaction, and are on
  record and unspent until it confirms.
\<close>

definition input_ok :: "UtxoPool \<Rightarrow> address \<Rightarrow> WithdrawalTransaction \<Rightarrow> Utxo \<Rightarrow> bool" where
  "input_ok p w t u \<longleftrightarrow>
     is_spent_or_active p (u_id u) \<and>
     (\<forall>r. utxo_records p (u_id u) = Some r \<longrightarrow> ur_utxo r = u \<and> ur_spent_by r = Some w) \<and>
     (wt_confirmed_timestamp_ms t = None \<longrightarrow>
        (\<exists>r. utxo_records p (u_id u) = Some r \<and> ur_spent_epoch r = None))"

definition inputs_ok :: "UtxoPool \<Rightarrow> WithdrawalRequestQueue \<Rightarrow> bool" where
  "inputs_ok p q \<longleftrightarrow>
     (\<forall>w t. txn_of q w = Some t \<longrightarrow> distinct (map u_id (wt_inputs t)) \<and>
        (\<forall>u \<in> set (wt_inputs t). input_ok p w t u)) \<and>
     (\<forall>w t w' t' u u'. txn_of q w = Some t \<longrightarrow> txn_of q w' = Some t' \<longrightarrow>
        u \<in> set (wt_inputs t) \<longrightarrow> u' \<in> set (wt_inputs t') \<longrightarrow> u_id u = u_id u' \<longrightarrow> w = w')"

text \<open>
  Nonces: no presignature index stands in two slots of the same epoch, those of the current epoch
  were minted by the allocator, and the epoch of a batch has an active committee.
\<close>

abbreviation batch_epoch :: "WithdrawalTransaction \<Rightarrow> u64" where
  "batch_epoch t \<equiv> sb_epoch (wt_signing t)"

abbreviation batch_nonces :: "WithdrawalTransaction \<Rightarrow> u64 list" where
  "batch_nonces t \<equiv> nonces (sb_signatures (wt_signing t))"

definition nonces_ok :: "CommitteeSet \<Rightarrow> PresigAllocator \<Rightarrow> WithdrawalRequestQueue \<Rightarrow> bool" where
  "nonces_ok cs a q \<longleftrightarrow>
     (\<forall>w t. txn_of q w = Some t \<longrightarrow>
        has_committee cs (batch_epoch t) \<and> pending_epoch_change cs \<noteq> Some (batch_epoch t) \<and>
        distinct (batch_nonces t) \<and>
        (batch_epoch t = st_epoch cs \<longrightarrow> (\<forall>n \<in> set (batch_nonces t). n < num_consumed a))) \<and>
     (\<forall>w t w' t'. txn_of q w = Some t \<longrightarrow> txn_of q w' = Some t' \<longrightarrow> w \<noteq> w' \<longrightarrow>
        batch_epoch t = batch_epoch t' \<longrightarrow> set (batch_nonces t) \<inter> set (batch_nonces t') = {})"

definition bridge_ok :: "Hashi \<Rightarrow> bool" where
  "bridge_ok h \<longleftrightarrow>
     pool_ok (hs_pool h) \<and> queue_ok (hs_queue h) \<and> backed h \<and> inputs_ok (hs_pool h) (hs_queue h) \<and>
     nonces_ok (hs_committee_set h) (hs_presig_allocator h) (hs_queue h)"

section \<open>Frames\<close>

text \<open>
  The transactions after an operation are those before it: they pay the same from the same inputs,
  and have no new nonces.
\<close>

definition txns_from :: "WithdrawalRequestQueue \<Rightarrow> WithdrawalRequestQueue \<Rightarrow> bool" where
  "txns_from q q' \<longleftrightarrow>
     (\<forall>w t'. txn_of q' w = Some t' \<longrightarrow>
        (\<exists>t. txn_of q w = Some t \<and> same_payment t t' \<and>
           batch_epoch t' = batch_epoch t \<and> mset (batch_nonces t') \<subseteq># mset (batch_nonces t))) \<and>
     (\<forall>w t. txn_of q w = Some t \<longrightarrow> txn_of q' w \<noteq> None)"

lemma txns_fromD:
  assumes "txns_from q q'" "txn_of q' w = Some t'"
  shows "\<exists>t. txn_of q w = Some t \<and> same_payment t t' \<and> batch_epoch t' = batch_epoch t \<and>
    mset (batch_nonces t') \<subseteq># mset (batch_nonces t)"
  using assms unfolding txns_from_def by blast

lemma same_payment_refl [simp]: "same_payment t t"
  by (simp add: same_payment_def)

lemma txns_from_same: "txn_of q' = txn_of q \<Longrightarrow> txns_from q q'"
  by (auto simp: txns_from_def)

lemma txns_from_update:
  assumes "wq_withdrawal_txns q w = Some t" "same_payment t t'"
    and "batch_epoch t' = batch_epoch t" "mset (batch_nonces t') \<subseteq># mset (batch_nonces t)"
  shows "txns_from q (q\<lparr>wq_withdrawal_txns := (wq_withdrawal_txns q)(w \<mapsto> t')\<rparr>)"
proof -
  have tx: "txn_of (q\<lparr>wq_withdrawal_txns := (wq_withdrawal_txns q)(w \<mapsto> t')\<rparr>) x =
      (if x = w then Some t' else txn_of q x)" for x
    by (auto simp: txn_of_def split: option.split)
  have "txn_of q w = Some t" using assms(1) by simp
  then show ?thesis using assms(2-4) by (auto simp: txns_from_def tx)
qed

text \<open>A transaction, once committed, is kept and keeps what it pays.\<close>

definition txns_kept :: "WithdrawalRequestQueue \<Rightarrow> WithdrawalRequestQueue \<Rightarrow> bool" where
  "txns_kept q q' \<longleftrightarrow>
     (\<forall>w t. txn_of q w = Some t \<longrightarrow> (\<exists>t'. txn_of q' w = Some t' \<and> same_payment t t'))"

lemma txns_from_kept:
  assumes "txns_from q q'"
  shows "txns_kept q q'"
  unfolding txns_kept_def
proof (intro allI impI)
  fix w t assume t: "txn_of q w = Some t"
  then obtain t' where t': "txn_of q' w = Some t'" using assms unfolding txns_from_def by blast
  obtain s where "txn_of q w = Some s" "same_payment s t'"
    using txns_fromD [OF assms t'] by (elim exE conjE) (rule that; assumption)
  then show "\<exists>t'. txn_of q' w = Some t' \<and> same_payment t t'" using t t' by simp
qed

text \<open>
  How a step moves nonces: a transaction keeps a part of its nonces, or gets nonces of the current
  epoch the allocator had not consumed; a committee in use stays; and the allocator only moves
  forward, until the epoch that was pending begins.
\<close>

definition nonces_move :: "Hashi \<Rightarrow> Hashi \<Rightarrow> bool" where
  "nonces_move h h' \<longleftrightarrow>
     (let cs = hs_committee_set h; cs' = hs_committee_set h';
          a = hs_presig_allocator h; a' = hs_presig_allocator h'
      in (\<forall>w t'. txn_of (hs_queue h') w = Some t' \<longrightarrow>
            (\<exists>t. txn_of (hs_queue h) w = Some t \<and> batch_epoch t' = batch_epoch t \<and>
               set (batch_nonces t') \<subseteq> set (batch_nonces t)) \<or>
            (batch_epoch t' = st_epoch cs \<and> st_epoch cs' = st_epoch cs \<and>
               (\<forall>n \<in> set (batch_nonces t'). num_consumed a \<le> n))) \<and>
         (\<forall>e. has_committee cs e \<longrightarrow> pending_epoch_change cs \<noteq> Some e \<longrightarrow>
            has_committee cs' e \<and> pending_epoch_change cs' \<noteq> Some e) \<and>
         (st_epoch cs' = st_epoch cs \<and> num_consumed a \<le> num_consumed a' \<or>
          pending_epoch_change cs = Some (st_epoch cs')))"

definition good_step :: "Hashi \<Rightarrow> Hashi \<Rightarrow> bool" where
  "good_step h h' \<longleftrightarrow> bridge_ok h' \<and> pool_grows (hs_pool h) (hs_pool h') \<and>
     txns_kept (hs_queue h) (hs_queue h') \<and> nonces_move h h'"

lemma txns_from_nonces:
  assumes "txns_from q q'" "txn_of q' w = Some t'"
  shows "\<exists>t. txn_of q w = Some t \<and> batch_epoch t' = batch_epoch t \<and> set (batch_nonces t') \<subseteq> set (batch_nonces t)"
proof -
  obtain t where t: "txn_of q w = Some t" "batch_epoch t' = batch_epoch t"
      "mset (batch_nonces t') \<subseteq># mset (batch_nonces t)"
    using txns_fromD [OF assms] by (elim exE conjE) (rule that; assumption)
  show ?thesis using t(1,2) set_mset_mono [OF t(3)] by (intro exI [of _ t]) simp
qed

lemma nonces_move_same:
  assumes "txns_from (hs_queue h) (hs_queue h')" "hs_committee_set h' = hs_committee_set h"
    "hs_presig_allocator h' = hs_presig_allocator h"
  shows "nonces_move h h'"
  unfolding nonces_move_def Let_def assms(2,3)
  using txns_from_nonces [OF assms(1)] by simp

lemma subset_mset_distinct:
  assumes "distinct xs" "mset ys \<subseteq># mset xs"
  shows "distinct ys"
  unfolding distinct_count_atmost_1
proof
  fix a
  have "count (mset ys) a \<le> count (mset xs) a" using assms(2) by (rule mset_subset_eq_count)
  moreover have "count (mset xs) a \<le> 1" using assms(1) by (simp add: distinct_count_atmost_1)
  ultimately have le: "count (mset ys) a \<le> 1" by linarith
  show "count (mset ys) a = (if a \<in> set ys then 1 else 0)"
  proof (cases "a \<in> set ys")
    case True
    then have "0 < count (mset ys) a" by simp
    then have "count (mset ys) a = 1" using le by linarith
    then show ?thesis using True by simp
  next
    case False then show ?thesis by (simp add: count_mset_0_iff)
  qed
qed

lemma pool_growsD:
  assumes "pool_grows p p'" "is_spent_or_active p i"
  shows "is_spent_or_active p' i"
    and "utxo_records p' i = Some r' \<Longrightarrow> \<exists>r. utxo_records p i = Some r \<and> ur_utxo r' = ur_utxo r \<and>
       (ur_spent_by r \<noteq> None \<longrightarrow> ur_spent_by r' = ur_spent_by r) \<and>
       (ur_spent_epoch r \<noteq> None \<longrightarrow> ur_spent_epoch r' \<noteq> None)"
  using assms unfolding pool_grows_def by simp_all

lemma inputs_okD:
  assumes "inputs_ok p q" "txn_of q w = Some t"
  shows "distinct (map u_id (wt_inputs t))"
    and "u \<in> set (wt_inputs t) \<Longrightarrow> input_ok p w t u"
    and "u \<in> set (wt_inputs t) \<Longrightarrow> txn_of q w' = Some t' \<Longrightarrow> u' \<in> set (wt_inputs t') \<Longrightarrow>
       u_id u = u_id u' \<Longrightarrow> w = w'"
  using assms unfolding inputs_ok_def by blast+

lemma nonces_okD:
  assumes "nonces_ok cs a q" "txn_of q w = Some t"
  shows "has_committee cs (batch_epoch t)" "pending_epoch_change cs \<noteq> Some (batch_epoch t)"
    and "distinct (batch_nonces t)"
    and "batch_epoch t = st_epoch cs \<Longrightarrow> n \<in> set (batch_nonces t) \<Longrightarrow> n < num_consumed a"
    and "txn_of q w' = Some t' \<Longrightarrow> w \<noteq> w' \<Longrightarrow> batch_epoch t = batch_epoch t' \<Longrightarrow>
       set (batch_nonces t) \<inter> set (batch_nonces t') = {}"
  using assms unfolding nonces_ok_def by blast+

lemma same_payment_inputs:
  assumes "same_payment t t'"
  shows "wt_inputs t' = wt_inputs t"
    "wt_confirmed_timestamp_ms t' = None \<longrightarrow> wt_confirmed_timestamp_ms t = None"
  using assms by (auto simp: same_payment_def)

lemma txns_from_payment:
  assumes "txns_from q q'" "txn_of q' w = Some t'"
  shows "\<exists>t. txn_of q w = Some t \<and> same_payment t t'"
  using txns_fromD [OF assms] by (elim exE conjE) (intro exI conjI; assumption)

lemma inputs_ok_mono:
  assumes ok: "inputs_ok p q" and g: "pool_grows p p'"
    and origin: "\<And>w t'. txn_of q' w = Some t' \<Longrightarrow> \<exists>t. txn_of q w = Some t \<and> same_payment t t'"
    and unspent: "\<And>w t u r. txn_of q' w = Some t \<Longrightarrow> wt_confirmed_timestamp_ms t = None \<Longrightarrow>
       u \<in> set (wt_inputs t) \<Longrightarrow> utxo_records p (u_id u) = Some r \<Longrightarrow> ur_spent_epoch r = None \<Longrightarrow>
       \<exists>r'. utxo_records p' (u_id u) = Some r' \<and> ur_spent_epoch r' = None"
  shows "inputs_ok p' q'"
  unfolding inputs_ok_def
proof (intro conjI allI impI ballI)
  fix w t' assume t': "txn_of q' w = Some t'"
  obtain t where t: "txn_of q w = Some t" and same: "same_payment t t'"
    using origin [OF t'] by (elim exE conjE) (rule that; assumption)
  note t = t same_payment_inputs [OF same]
  show "distinct (map u_id (wt_inputs t'))" using inputs_okD(1) [OF ok t(1)] by (simp add: t(2))
  fix u assume u: "u \<in> set (wt_inputs t')"
  then have i: "input_ok p w t u" by (intro inputs_okD(2) [OF ok t(1)]) (simp add: t(2))
  then have k: "is_spent_or_active p (u_id u)" by (simp add: input_ok_def)
  note gr = pool_growsD [OF g k]
  show "input_ok p' w t' u"
    unfolding input_ok_def
  proof (intro conjI allI impI)
    show "is_spent_or_active p' (u_id u)" by (rule gr(1))
    fix r' assume r': "utxo_records p' (u_id u) = Some r'"
    obtain r where r: "utxo_records p (u_id u) = Some r" "ur_utxo r' = ur_utxo r"
        "ur_spent_by r \<noteq> None \<longrightarrow> ur_spent_by r' = ur_spent_by r"
      using gr(2) [OF r'] by blast
    have "ur_utxo r = u" "ur_spent_by r = Some w" using i r(1) unfolding input_ok_def by blast+
    then show "ur_utxo r' = u" "ur_spent_by r' = Some w" using r(2,3) by simp_all
  next
    assume c: "wt_confirmed_timestamp_ms t' = None"
    then have "\<exists>r. utxo_records p (u_id u) = Some r \<and> ur_spent_epoch r = None"
      using i t(3) by (simp add: input_ok_def)
    then obtain r where r: "utxo_records p (u_id u) = Some r" "ur_spent_epoch r = None" by auto
    show "\<exists>r. utxo_records p' (u_id u) = Some r \<and> ur_spent_epoch r = None"
      by (rule unspent [OF t' c u r])
  qed
next
  fix w t w' t' u u'
  assume tt: "txn_of q' w = Some t" "txn_of q' w' = Some t'"
    and u: "u \<in> set (wt_inputs t)" "u' \<in> set (wt_inputs t')" and e: "u_id u = u_id u'"
  obtain s where s: "txn_of q w = Some s" "same_payment s t"
    using origin [OF tt(1)] by (elim exE conjE) (rule that; assumption)
  obtain s' where s': "txn_of q w' = Some s'" "same_payment s' t'"
    using origin [OF tt(2)] by (elim exE conjE) (rule that; assumption)
  show "w = w'"
    by (rule inputs_okD(3) [OF ok s(1) _ s'(1) _ e]) (use u in \<open>simp_all add: same_payment_inputs [OF s(2)] same_payment_inputs [OF s'(2)]\<close>)
qed

lemma nonces_ok_mono:
  assumes ok: "nonces_ok cs a q" and origin: "txns_from q q'"
  shows "nonces_ok cs a q'"
  unfolding nonces_ok_def
proof (intro conjI allI impI ballI)
  fix w t' assume t': "txn_of q' w = Some t'"
  obtain t where t: "txn_of q w = Some t" "batch_epoch t' = batch_epoch t"
      "mset (batch_nonces t') \<subseteq># mset (batch_nonces t)"
    using txns_fromD [OF origin t'] by (elim exE conjE) (rule that; assumption)
  note n = nonces_okD [OF ok t(1)]
  show "has_committee cs (batch_epoch t')" "pending_epoch_change cs \<noteq> Some (batch_epoch t')"
    using n(1,2) by (simp_all add: t(2))
  show "distinct (batch_nonces t')" by (rule subset_mset_distinct [OF n(3) t(3)])
  fix m assume m: "batch_epoch t' = st_epoch cs" "m \<in> set (batch_nonces t')"
  then have "m \<in> set (batch_nonces t)" using set_mset_mono [OF t(3)] by auto
  then show "m < num_consumed a" using m(1) t(2) by (intro n(4)) simp_all
next
  fix w t w' t'
  assume tt: "txn_of q' w = Some t" "txn_of q' w' = Some t'" "w \<noteq> w'" "batch_epoch t = batch_epoch t'"
  obtain s where s: "txn_of q w = Some s" "batch_epoch t = batch_epoch s"
      "mset (batch_nonces t) \<subseteq># mset (batch_nonces s)"
    using txns_fromD [OF origin tt(1)] by (elim exE conjE) (rule that; assumption)
  obtain s' where s': "txn_of q w' = Some s'" "batch_epoch t' = batch_epoch s'"
      "mset (batch_nonces t') \<subseteq># mset (batch_nonces s')"
    using txns_fromD [OF origin tt(2)] by (elim exE conjE) (rule that; assumption)
  have "set (batch_nonces s) \<inter> set (batch_nonces s') = {}"
    using s(2) s'(2) tt(4) by (intro nonces_okD(5) [OF ok s(1) s'(1) tt(3)]) simp
  then show "set (batch_nonces t) \<inter> set (batch_nonces t') = {}"
    using set_mset_mono [OF s(3)] set_mset_mono [OF s'(3)] by auto
qed

text \<open>The parts of the state the invariant reads, apart from the queue.\<close>

definition rest_same :: "Hashi \<Rightarrow> Hashi \<Rightarrow> bool" where
  "rest_same h h' \<longleftrightarrow>
     hs_pool h' = hs_pool h \<and> dq_processed (hs_deposits h') = dq_processed (hs_deposits h) \<and>
     t_treasury_cap (hs_treasury h') = t_treasury_cap (hs_treasury h) \<and>
     hs_committee_set h' = hs_committee_set h \<and> hs_presig_allocator h' = hs_presig_allocator h"

lemma bridge_ok_queue_step:
  assumes "bridge_ok h" "rest_same h h'" "queue_ok (hs_queue h')" "txns_from (hs_queue h) (hs_queue h')"
  shows "good_step h h'"
proof -
  have "backed h'" using assms(1,2) by (simp add: bridge_ok_def rest_same_def backed_def hbtc_supply_def unminted_def)
  moreover have "inputs_ok (hs_pool h') (hs_queue h')"
    using assms(1,2) inputs_ok_mono [OF _ pool_grows_refl txns_from_payment [OF assms(4)], of "hs_pool h"]
    by (auto simp: bridge_ok_def rest_same_def)
  moreover have "nonces_ok (hs_committee_set h') (hs_presig_allocator h') (hs_queue h')"
    using assms(1,2) nonces_ok_mono [OF _ assms(4)] by (auto simp: bridge_ok_def rest_same_def)
  ultimately have "bridge_ok h'" using assms(1-3) by (simp add: bridge_ok_def rest_same_def)
  moreover have "nonces_move h h'"
    using assms(2) by (intro nonces_move_same assms(4)) (simp_all add: rest_same_def)
  moreover have "pool_grows (hs_pool h) (hs_pool h')"
    using assms(2) pool_grows_refl by (simp add: rest_same_def)
  ultimately show ?thesis using txns_from_kept [OF assms(4)] by (simp add: good_step_def)
qed

end
