(* ===== verification/Move_Bridge_Steps.thy ===== *)
theory Move_Bridge_Steps
  imports Move_Bridge_Inv
begin

text \<open>
  Every step of the bridge keeps its invariant. The steps are grouped by what they touch: the
  withdrawal queue alone, the deposits, the UTXO pool, and the committees with the allocator.
\<close>

lemma with_simps [simp]:
  "hs_queue (with_queue h q) = q" "hs_queue (with_pool h p) = hs_queue h"
  "hs_queue (with_deposits h d) = hs_queue h"
  "hs_pool (with_queue h q) = hs_pool h" "hs_pool (with_pool h p) = p"
  "hs_pool (with_deposits h d) = hs_pool h"
  "hs_deposits (with_queue h q) = hs_deposits h" "hs_deposits (with_pool h p) = hs_deposits h"
  "hs_deposits (with_deposits h d) = d"
  "hs_treasury (with_queue h q) = hs_treasury h" "hs_treasury (with_pool h p) = hs_treasury h"
  "hs_treasury (with_deposits h d) = hs_treasury h"
  "hs_committee_set (with_queue h q) = hs_committee_set h"
  "hs_committee_set (with_pool h p) = hs_committee_set h"
  "hs_committee_set (with_deposits h d) = hs_committee_set h"
  "hs_presig_allocator (with_queue h q) = hs_presig_allocator h"
  "hs_presig_allocator (with_pool h p) = hs_presig_allocator h"
  "hs_presig_allocator (with_deposits h d) = hs_presig_allocator h"
  "hs_config (with_queue h q) = hs_config h" "hs_config (with_pool h p) = hs_config h"
  "hs_config (with_deposits h d) = hs_config h"
  by (simp_all add: with_queue_def with_pool_def with_deposits_def)

lemma index_user_request_Ok:
  assumes "index_user_request b u i = Ok b'"
  shows "bs_withdrawal_queue b' = bs_withdrawal_queue b \<and> bs_utxo_pool b' = bs_utxo_pool b \<and>
    bs_deposit_queue b' = bs_deposit_queue b"
  using assms by (auto simp: index_user_request_def Let_def split: if_splits)

lemma unindex_user_request_same [simp]:
  "bs_withdrawal_queue (unindex_user_request b u i) = bs_withdrawal_queue b"
  "bs_utxo_pool (unindex_user_request b u i) = bs_utxo_pool b"
  "bs_deposit_queue (unindex_user_request b u i) = bs_deposit_queue b"
  by (simp_all add: unindex_user_request_def Let_def split: option.split)

section \<open>Where transactions come from\<close>

lemma txn_of_requests [simp]: "txn_of (q\<lparr>wq_requests := rs\<rparr>) = txn_of q"
  by (auto simp: txn_of_def fun_eq_iff split: option.split)

lemma request_ops_txns:
  "insert_withdrawal q r = Ok q' \<Longrightarrow> txn_of q' = txn_of q"
  "approve_withdrawal q i cert clock = Ok q' \<Longrightarrow> txn_of q' = txn_of q"
  "cancel_withdrawal_request q i = Ok (btc, q') \<Longrightarrow> txn_of q' = txn_of q"
  by (auto simp: insert_withdrawal_def approve_withdrawal_def cancel_withdrawal_request_Ok)

lemma record_input_signatures_from:
  assumes "record_input_signatures q w is sigs = Ok q'"
  shows "txns_from q q'"
proof -
  obtain t b where t: "wq_withdrawal_txns q w = Some t" "record_sigs (wt_signing t) is sigs = Ok b"
    and q': "q' = q\<lparr>wq_withdrawal_txns := (wq_withdrawal_txns q)(w \<mapsto> t\<lparr>wt_signing := b\<rparr>)\<rparr>"
    using assms by (auto simp: record_input_signatures_def modify_txn_Ok)
  note r = record_sigs_Ok [OF t(2)]
  show ?thesis unfolding q'
    by (rule txns_from_update [OF t(1)]) (simp_all add: same_payment_def r(2) signs_more_nonces [OF r(1)])
qed

lemma finalize_withdrawal_txn_from:
  assumes "finalize_withdrawal_txn q w gs clock = Ok q'"
  shows "txns_from q q'"
proof -
  obtain t where t: "wq_withdrawal_txns q w = Some t"
    and q': "q' = q\<lparr>wq_withdrawal_txns := (wq_withdrawal_txns q)(w \<mapsto>
        t\<lparr>wt_guardian_signatures := Some gs, wt_signed_timestamp_ms := Some clock\<rparr>)\<rparr>"
    using assms by (auto simp: finalize_withdrawal_txn_def modify_txn_Ok)
  show ?thesis unfolding q' by (rule txns_from_update [OF t]) (simp_all add: same_payment_def)
qed

lemma archive_request_txn_of: "archive_request w i q = Ok q' \<Longrightarrow> txn_of q' = txn_of q"
  using archive_request_txns [of w i q q'] by (intro ext) (simp add: txn_of_def cong: option.case_cong)

lemma archive_loop_txn_of:
  "do_each (archive_request w) is q = Ok q' \<Longrightarrow> txn_of q' = txn_of q"
  by (erule do_each_preserves [where P = "\<lambda>s. txn_of s = txn_of q"]) (auto dest: archive_request_txn_of)

lemma move_to_confirmed_txn_of: "move_to_confirmed w q = Ok q' \<Longrightarrow> txn_of q' = txn_of q"
  by (auto simp: move_to_confirmed_Ok txn_of_def fun_eq_iff split: option.split if_splits)

lemma archive_ops_txns:
  "archive_withdrawal_txn w q = Ok q' \<Longrightarrow> txn_of q' = txn_of q"
  "archive_withdrawal_requests w is q = Ok q' \<Longrightarrow> txn_of q' = txn_of q"
  "finish_archive_withdrawal_txn w q = Ok q' \<Longrightarrow> txn_of q' = txn_of q"
proof -
  show "txn_of q' = txn_of q" if "archive_withdrawal_txn w q = Ok q'"
    using that by (auto simp: archive_withdrawal_txn_def split: option.splits
        dest!: archive_loop_txn_of move_to_confirmed_txn_of)
  show "txn_of q' = txn_of q" if "archive_withdrawal_requests w is q = Ok q'"
    using that by (auto simp: archive_withdrawal_requests_def split: option.splits dest!: archive_loop_txn_of)
  show "txn_of q' = txn_of q" if "finish_archive_withdrawal_txn w q = Ok q'"
    using that by (auto simp: finish_archive_withdrawal_txn_def split: option.splits if_splits
        dest!: move_to_confirmed_txn_of)
qed

section \<open>Steps on the withdrawal queue\<close>

lemma rest_same_queue: "rest_same h (with_queue h q)"
  by (simp add: rest_same_def)

lemma queue_entry_ok:
  assumes "bridge_ok h" "queue_ok (hs_queue h) \<Longrightarrow> queue_ok q \<and> txns_from (hs_queue h) q"
  shows "good_step h (with_queue h q)"
proof -
  have "queue_ok (hs_queue h)" using assms(1) by (simp add: bridge_ok_def)
  note k = assms(2) [OF this]
  show ?thesis
    by (rule bridge_ok_queue_step [OF assms(1) rest_same_queue]) (simp_all add: k)
qed

lemma request_withdrawal_ok:
  assumes ok: "bridge_ok h" and r: "request_withdrawal h clock btc addr ctx = Ok h'"
    and fresh: "unused_id h (ctx_new_id ctx)"
  shows "good_step h h'"
proof -
  obtain request q b where a: "create_withdrawal btc addr clock ctx = Ok request"
      "insert_withdrawal (hs_queue h) request = Ok q"
      "index_user_request (hs_bitcoin (with_queue h q)) (ctx_sender ctx) (wr_id request) = Ok b"
    and h': "h' = (with_queue h q)\<lparr>hs_bitcoin := b\<rparr>"
    using r by (auto simp: request_withdrawal_def Let_def)
  have q: "hs_queue h' = q" "rest_same h h'"
    using index_user_request_Ok [OF a(3)] by (simp_all add: h' rest_same_def)
  have "wq_processed (hs_queue h) (ctx_new_id ctx) = None"
    using fresh by (auto simp: unused_id_def request_of_def split: option.splits)
  then have "queue_ok q" using ok insert_withdrawal_ok [OF _ a(1,2)] by (simp add: bridge_ok_def)
  then show ?thesis
    using bridge_ok_queue_step [OF ok q(2)] txns_from_same [OF request_ops_txns(1) [OF a(2)]] by (simp add: q(1))
qed

lemma cancel_withdrawal_ok:
  assumes ok: "bridge_ok h" and r: "cancel_withdrawal h i clock ctx = Ok (btc, h')"
  shows "good_step h h'"
proof -
  obtain q where a: "cancel_withdrawal_request (hs_queue h) i = Ok (btc, q)"
    and h': "h' = (with_queue h q)\<lparr>hs_bitcoin := unindex_user_request (hs_bitcoin (with_queue h q)) (ctx_sender ctx) i\<rparr>"
    using r by (auto simp: cancel_withdrawal_def Let_def)
  have q: "hs_queue h' = q" "rest_same h h'" by (simp_all add: h' rest_same_def)
  have "queue_ok q" using ok cancel_withdrawal_request_ok [OF _ a] by (simp add: bridge_ok_def)
  then show ?thesis
    using bridge_ok_queue_step [OF ok q(2)] txns_from_same [OF request_ops_txns(3) [OF a]] by (simp add: q(1))
qed

lemma approve_request_ok:
  assumes ok: "bridge_ok h" and r: "approve_request nt h i cert clock = Ok h'"
  shows "good_step h h'"
proof -
  obtain q where a: "approve_withdrawal (hs_queue h) i cert clock = Ok q" and h': "h' = with_queue h q"
    using r by (auto simp: approve_request_def)
  show ?thesis unfolding h' using approve_withdrawal_ok [OF _ a] request_ops_txns(2) [OF a]
    by (intro queue_entry_ok [OF ok]) (auto intro: txns_from_same)
qed

lemma commit_input_signatures_ok:
  assumes ok: "bridge_ok h" and r: "commit_input_signatures nt h w is sigs cert = Ok h'"
  shows "good_step h h'"
proof -
  obtain q where a: "record_input_signatures (hs_queue h) w is sigs = Ok q" and h': "h' = with_queue h q"
    using r by (auto simp: commit_input_signatures_def)
  show ?thesis unfolding h' using record_input_signatures_ok [OF _ a] record_input_signatures_from [OF a]
    by (intro queue_entry_ok [OF ok]) auto
qed

lemma finalize_withdrawal_ok:
  assumes ok: "bridge_ok h" and r: "finalize_withdrawal nt h w gs cert clock = Ok h'"
  shows "good_step h h'"
proof -
  obtain q where a: "finalize_withdrawal_txn (hs_queue h) w gs clock = Ok q" and h': "h' = with_queue h q"
    using r by (auto simp: finalize_withdrawal_def)
  show ?thesis unfolding h' using finalize_withdrawal_txn_ok [OF _ a] finalize_withdrawal_txn_from [OF a]
    by (intro queue_entry_ok [OF ok]) auto
qed

lemma archive_entries_loop:
  assumes "do_each f ws q = Ok q'" "queue_ok q"
    and "\<And>w q q'. f w q = Ok q' \<Longrightarrow> queue_ok q \<Longrightarrow> queue_ok q'"
    and "\<And>w q q'. f w q = Ok q' \<Longrightarrow> txn_of q' = txn_of q"
  shows "queue_ok q' \<and> txn_of q' = txn_of q"
  by (rule do_each_preserves [OF assms(1), where P = "\<lambda>s. queue_ok s \<and> txn_of s = txn_of q"])
    (use assms(2-4) in auto)

lemma archive_confirmed_withdrawals_ok:
  assumes ok: "bridge_ok h" and r: "archive_confirmed_withdrawals h ws = Ok h'"
  shows "good_step h h'"
proof -
  obtain q where a: "do_each archive_withdrawal_txn ws (hs_queue h) = Ok q" and h': "h' = with_queue h q"
    using r by (auto simp: archive_confirmed_withdrawals_def)
  show ?thesis unfolding h'
    using archive_entries_loop [OF a] archive_withdrawal_txn_ok archive_ops_txns(1)
    by (intro queue_entry_ok [OF ok]) (auto intro: txns_from_same)
qed

lemma archive_requests_entry_ok:
  assumes ok: "bridge_ok h" and r: "archive_requests_entry h w ids = Ok h'"
  shows "good_step h h'"
proof -
  obtain q where a: "archive_withdrawal_requests w ids (hs_queue h) = Ok q" and h': "h' = with_queue h q"
    using r by (auto simp: archive_requests_entry_def)
  show ?thesis unfolding h' using archive_withdrawal_requests_ok [OF _ a] archive_ops_txns(2) [OF a]
    by (intro queue_entry_ok [OF ok]) (auto intro: txns_from_same)
qed

lemma finish_archive_withdrawal_txns_ok:
  assumes ok: "bridge_ok h" and r: "finish_archive_withdrawal_txns h ws = Ok h'"
  shows "good_step h h'"
proof -
  obtain q where a: "do_each finish_archive_withdrawal_txn ws (hs_queue h) = Ok q" and h': "h' = with_queue h q"
    using r by (auto simp: finish_archive_withdrawal_txns_def)
  show ?thesis unfolding h'
    using archive_entries_loop [OF a] finish_archive_withdrawal_txn_ok archive_ops_txns(3)
    by (intro queue_entry_ok [OF ok]) (auto intro: txns_from_same)
qed

section \<open>Deposits and launch\<close>

lemma bridge_ok_same:
  assumes "bridge_ok h" "rest_same h h'" "hs_queue h' = hs_queue h"
  shows "good_step h h'"
  using assms bridge_ok_queue_step [OF assms(1,2)] by (simp add: bridge_ok_def txns_from_same)

lemma deposit_ok:
  assumes ok: "bridge_ok h" and r: "deposit h u clock ctx = Ok h'"
  shows "good_step h h'"
  using r by (intro bridge_ok_same [OF ok]) (auto simp: deposit_def insert_deposit_def rest_same_def)

lemma approve_deposit_ok:
  assumes ok: "bridge_ok h" and r: "approve_deposit nt h i cert clock = Ok h'"
  shows "good_step h h'"
  using r by (intro bridge_ok_same [OF ok]) (auto simp: approve_deposit_def Let_def rest_same_def)

lemma delete_expired_deposit_ok:
  assumes ok: "bridge_ok h" and r: "delete_expired_deposit h i clock = Ok h'"
  shows "good_step h h'"
  using r by (intro bridge_ok_same [OF ok])
    (auto simp: delete_expired_deposit_def delete_expired_def rest_same_def)

lemma finish_publish_ok:
  assumes ok: "bridge_ok h" and r: "finish_publish pkg h cap chain url node key th dl = Ok h'"
  shows "good_step h h'"
proof -
  have t: "t_treasury_cap (hs_treasury h) = None" "t_treasury_cap (hs_treasury h') = Some 0"
    and s: "hs_bitcoin h' = hs_bitcoin h" "hs_committee_set h' = hs_committee_set h"
      "hs_presig_allocator h' = hs_presig_allocator h"
    using r by (auto simp: finish_publish_def Let_def register_treasury_cap_def register_metadata_cap_def
        split: option.splits if_splits)
  have "hbtc_supply h' = hbtc_supply h" by (simp add: hbtc_supply_def t)
  then have "bridge_ok h'" using ok by (simp add: bridge_ok_def backed_def s)
  then show ?thesis
    using nonces_move_same [of h h'] txns_from_same [of "hs_queue h'" "hs_queue h"]
    by (simp add: good_step_def s pool_grows_refl txns_kept_def)
qed

lemma confirm_deposit_Ok:
  assumes "confirm_deposit nt h i clock = Ok h'"
  obtains request t where
    "dq_requests (hs_deposits h) i = Some request"
    "\<not> is_spent_or_active (hs_pool h) (u_id (dr_utxo request))"
    "case u_derivation_path (dr_utxo request) of
       Some recipient \<Rightarrow> mint_balance (hs_treasury h) (u_amount (dr_utxo request)) = Ok t
     | None \<Rightarrow> t = hs_treasury h"
    "insert_active (dr_utxo request) (hs_pool h) = Ok (hs_pool h')"
    "dq_processed (hs_deposits h) (dr_id request) = None"
    "dq_processed (hs_deposits h') = (dq_processed (hs_deposits h))(dr_id request \<mapsto> confirm request clock)"
    "hs_treasury h' = t" "hs_queue h' = hs_queue h" "hs_committee_set h' = hs_committee_set h"
    "hs_presig_allocator h' = hs_presig_allocator h"
proof -
  obtain request where request: "dq_requests (hs_deposits h) i = Some request"
      "\<not> is_spent_or_active (hs_pool h) (u_id (dr_utxo request))"
    using assms by (auto simp: confirm_deposit_def borrow_deposit_request_def assert_not_spent_or_active_def Let_def)
  define d where "d = (hs_deposits h)\<lparr>dq_requests := (dq_requests (hs_deposits h))(i := None)\<rparr>"
  obtain t p d' where t: "(case u_derivation_path (dr_utxo request) of
        Some recipient \<Rightarrow> mint_balance (hs_treasury h) (u_amount (dr_utxo request))
      | None \<Rightarrow> Ok (hs_treasury h)) = Ok t"
    and p: "insert_active (dr_utxo request) (hs_pool h) = Ok p"
    and d': "dq_processed (hs_deposits h) (dr_id request) = None"
      "d' = d\<lparr>dq_processed := (dq_processed (hs_deposits h))(dr_id request \<mapsto> confirm request clock)\<rparr>"
    and h': "(case u_derivation_path (dr_utxo request) of
        Some recipient \<Rightarrow> and_then (index_user_request (hs_bitcoin (with_deposits (with_pool
            ((with_deposits h d)\<lparr>hs_treasury := t\<rparr>) p) d')) recipient (dr_id request))
            (\<lambda>b. Ok ((with_deposits (with_pool ((with_deposits h d)\<lparr>hs_treasury := t\<rparr>) p) d')\<lparr>hs_bitcoin := b\<rparr>))
      | None \<Rightarrow> Ok (with_deposits (with_pool ((with_deposits h d)\<lparr>hs_treasury := t\<rparr>) p) d')) = Ok h'"
  proof -
    have dd: "remove_request (hs_deposits h) i = Ok (request, d)"
      using request(1) by (simp add: remove_request_def d_def)
    have pc: "hs_pool ((with_deposits h d)\<lparr>hs_treasury := t\<rparr>) = hs_pool h" for t
      by (simp add: with_deposits_def)
    have dc: "hs_deposits (with_pool ((with_deposits h d)\<lparr>hs_treasury := t\<rparr>) p) = d" for t p
      by (simp add: with_deposits_def with_pool_def)
    have ip: "insert_processed d (confirm request clock) = Ok (a, b, c) \<longleftrightarrow>
        a = dr_id request \<and> b = u_derivation_path (dr_utxo request) \<and>
        dq_processed (hs_deposits h) (dr_id request) = None \<and>
        c = d\<lparr>dq_processed := (dq_processed (hs_deposits h))(dr_id request \<mapsto> confirm request clock)\<rparr>" for a b c
      by (auto simp: insert_processed_def confirm_def d_def)
    show thesis
      using assms request(1)
      unfolding confirm_deposit_def borrow_deposit_request_def Let_def with_simps
      by (auto simp: dd pc dc ip intro: that)
  qed
  have same: "hs_pool h' = p" "hs_queue h' = hs_queue h" "dq_processed (hs_deposits h') = dq_processed d'"
      "hs_treasury h' = t" "hs_committee_set h' = hs_committee_set h"
      "hs_presig_allocator h' = hs_presig_allocator h"
    using h' by (auto simp: with_deposits_def with_pool_def split: option.splits dest!: index_user_request_Ok)
  have pr: "dq_processed (hs_deposits h) (dr_id request) = None"
      "dq_processed d' = (dq_processed (hs_deposits h))(dr_id request \<mapsto> confirm request clock)"
    using d' by simp_all
  show thesis
    by (rule that [OF request _ _ pr(1)]) (use t p same pr in \<open>auto split: option.splits\<close>)
qed

lemma mint_balance_Ok:
  assumes "mint_balance t amount = Ok t'"
  obtains s s' where "t_treasury_cap t = Some s" "t_treasury_cap t' = Some s'" "unat s' = unat s + unat amount"
proof -
  obtain s where s: "t_treasury_cap t = Some s" "amount < 18446744073709551615 - s"
      "t' = t\<lparr>t_treasury_cap := Some (s + amount)\<rparr>"
    using assms by (auto simp: mint_balance_def)
  have m: "(18446744073709551615 :: u64) = - 1" by simp
  have "unat (18446744073709551615 - s) = unat (18446744073709551615 :: u64) - unat s"
    by (rule unat_sub_le) (simp add: m)
  then have "unat amount < 18446744073709551615 - unat s" using s(2) by (simp add: word_less_nat_alt)
  then have "unat s + unat amount < 2 ^ LENGTH(64)" by simp
  then have "unat (s + amount) = unat s + unat amount" by (rule unat_add_lem [THEN iffD1])
  then show thesis using that [of s "s + amount"] s by simp
qed

lemma backed_deposit:
  assumes ok: "backed h" "pool_ok (hs_pool h)" and r: "confirm_deposit nt h i clock = Ok h'"
  shows "backed h'"
proof -
  obtain request t where m: "case u_derivation_path (dr_utxo request) of
       Some recipient \<Rightarrow> mint_balance (hs_treasury h) (u_amount (dr_utxo request)) = Ok t
     | None \<Rightarrow> t = hs_treasury h"
    and p: "insert_active (dr_utxo request) (hs_pool h) = Ok (hs_pool h')"
    and d: "dq_processed (hs_deposits h) (dr_id request) = None"
      "dq_processed (hs_deposits h') = (dq_processed (hs_deposits h))(dr_id request \<mapsto> confirm request clock)"
    and t: "hs_treasury h' = t"
    using confirm_deposit_Ok [OF r] by blast
  let ?u = "dr_utxo request"
  have fin: "finite (dom (dq_processed (hs_deposits h)))" using ok(1) by (simp add: backed_def)
  have un: "unminted (hs_deposits h') = unminted (hs_deposits h) + unminted_amount request"
    using bag_sum_add [OF fin d(1), of unminted_amount "confirm request clock"]
    by (simp add: unminted_def d(2) unminted_amount_def confirm_def)
  have av: "available (hs_pool h') = available (hs_pool h) + unat (u_amount ?u)"
    using insert_active_ledger(2) [OF p ok(2)] .
  have "hbtc_supply h' + unminted_amount request = hbtc_supply h + unat (u_amount ?u)"
  proof (cases "u_derivation_path ?u")
    case None then show ?thesis using m t by (simp add: hbtc_supply_def unminted_amount_def)
  next
    case (Some a)
    then have "mint_balance (hs_treasury h) (u_amount ?u) = Ok t" using m by simp
    then show ?thesis
      by (rule mint_balance_Ok) (simp add: hbtc_supply_def t unminted_amount_def Some)
  qed
  then show ?thesis using ok(1) un av fin by (simp add: backed_def d(2))
qed

lemma insert_active_unspent:
  assumes "insert_active u p = Ok p'" "utxo_records p i = Some r" "ur_spent_epoch r = None"
  shows "\<exists>r'. utxo_records p' i = Some r' \<and> ur_spent_epoch r' = None"
  using assms by (auto simp: insert_active_Ok)

lemma confirm_deposit_ok:
  assumes ok: "bridge_ok h" and r: "confirm_deposit nt h i clock = Ok h'"
  shows "good_step h h'"
proof -
  obtain u where p: "insert_active u (hs_pool h) = Ok (hs_pool h')"
    and s: "hs_queue h' = hs_queue h" "hs_committee_set h' = hs_committee_set h"
      "hs_presig_allocator h' = hs_presig_allocator h"
    using confirm_deposit_Ok [OF r] by blast
  have f: "txns_from (hs_queue h) (hs_queue h)" by (simp add: txns_from_same)
  have "inputs_ok (hs_pool h') (hs_queue h)"
    using ok by (intro inputs_ok_mono [OF _ pool_ops_grow(1) [OF p] txns_from_payment [OF f]])
      (auto simp: bridge_ok_def intro: insert_active_unspent [OF p])
  then have "bridge_ok h'"
    using ok backed_deposit [OF _ _ r] insert_active_ledger(1) [OF p] by (simp add: bridge_ok_def s)
  then show ?thesis
    using pool_ops_grow(1) [OF p] nonces_move_same [of h h'] f txns_from_kept [OF f]
    by (simp add: good_step_def s)
qed

end
