(* ===== verification/Move_Bridge_Safe.thy ===== *)
theory Move_Bridge_Safe
  imports Move_Bridge_Steps
begin

text \<open>
  The steps that touch the UTXO pool together with the withdrawal queue (commit, confirm, clean-up),
  the presignature allocator, and the committees; and that every step of the bridge is a good one.
\<close>

section \<open>Loops over the pool\<close>

lemma mark_spent_loop:
  assumes "do_each (\<lambda>u. mark_spent e (u_id u)) us p = Ok p'" "pool_ok p"
    and "\<And>u r. u \<in> set us \<Longrightarrow> utxo_records p (u_id u) = Some r \<Longrightarrow> ur_spent_by r \<noteq> None"
  shows "pool_ok p' \<and> available p' = available p \<and>
    (\<forall>i. i \<notin> u_id ` set us \<longrightarrow> utxo_records p' i = utxo_records p i)"
  using assms
proof (induction us arbitrary: p)
  case (Cons u us)
  then obtain q where q: "mark_spent e (u_id u) p = Ok q"
      "do_each (\<lambda>u. mark_spent e (u_id u)) us q = Ok p'" by auto
  note l = mark_spent_ledger [OF q(1) Cons.prems(2) Cons.prems(3) [of u]]
  have k: "ur_spent_by r \<noteq> None" if "v \<in> set us" "utxo_records q (u_id v) = Some r" for v r
    using q(1) that Cons.prems(3) [of v] Cons.prems(3) [of u]
    by (auto simp: mark_spent_Ok split: if_splits)
  have "\<forall>i. i \<noteq> u_id u \<longrightarrow> utxo_records q i = utxo_records p i"
    using q(1) by (auto simp: mark_spent_Ok)
  then show ?case using Cons.IH [OF q(2) _ k] l by auto
qed simp

lemma confirm_pending_loop:
  assumes "do_each confirm_pending is p = Ok p'" "pool_ok p"
  shows "pool_ok p' \<and> available p' = available p"
  by (rule do_each_preserves [OF assms(1), where P = "\<lambda>s. pool_ok s \<and> available s = available p"])
    (use assms(2) in \<open>auto dest: confirm_pending_ledger\<close>)

lemma unspent_loop:
  assumes "do_each f xs p = Ok p'" "utxo_records p i = Some r" "ur_spent_epoch r = None"
    and "\<And>x p p' r. f x p = Ok p' \<Longrightarrow> utxo_records p i = Some r \<Longrightarrow> ur_spent_epoch r = None \<Longrightarrow>
       \<exists>r'. utxo_records p' i = Some r' \<and> ur_spent_epoch r' = None"
  shows "\<exists>r'. utxo_records p' i = Some r' \<and> ur_spent_epoch r' = None"
  by (rule do_each_preserves [OF assms(1), where P = "\<lambda>s. \<exists>r. utxo_records s i = Some r \<and> ur_spent_epoch r = None"])
    (use assms(2-4) in blast)+

lemma confirm_pending_unspent:
  "confirm_pending j p = Ok p' \<Longrightarrow> utxo_records p i = Some r \<Longrightarrow> ur_spent_epoch r = None \<Longrightarrow>
   \<exists>r'. utxo_records p' i = Some r' \<and> ur_spent_epoch r' = None"
  by (auto simp: confirm_pending_Ok split: option.splits)

lemma cleanup_spent_unspent:
  "cleanup_spent j p = Ok p' \<Longrightarrow> utxo_records p i = Some r \<Longrightarrow> ur_spent_epoch r = None \<Longrightarrow>
   \<exists>r'. utxo_records p' i = Some r' \<and> ur_spent_epoch r' = None"
  by (auto simp: cleanup_spent_Ok split: option.splits)

lemma lock_loop:
  assumes "do_each (\<lambda>u. lock w (u_id u)) us p = Ok p'"
  shows "distinct (map u_id us) \<and>
    (\<forall>u \<in> set us. \<exists>r. utxo_records p (u_id u) = Some r \<and> ur_spent_by r = None \<and>
       utxo_records p' (u_id u) = Some (r\<lparr>ur_spent_by := Some w\<rparr>)) \<and>
    (\<forall>i. i \<notin> u_id ` set us \<longrightarrow> utxo_records p' i = utxo_records p i)"
  using assms
proof (induction us arbitrary: p)
  case (Cons u us)
  then obtain q where q: "lock w (u_id u) p = Ok q" "do_each (\<lambda>u. lock w (u_id u)) us q = Ok p'" by auto
  obtain r where r: "utxo_records p (u_id u) = Some r" "ur_spent_by r = None"
    and qr: "utxo_records q = (utxo_records p)(u_id u \<mapsto> r\<lparr>ur_spent_by := Some w\<rparr>)"
    using q(1) by (auto simp: lock_Ok)
  note IH = Cons.IH [OF q(2)]
  have n: "u_id u \<notin> u_id ` set us"
  proof
    assume "u_id u \<in> u_id ` set us"
    then obtain v s where "v \<in> set us" "u_id v = u_id u" "utxo_records q (u_id v) = Some s" "ur_spent_by s = None"
      using IH by force
    then show False using qr by auto
  qed
  have "\<exists>s. utxo_records p (u_id v) = Some s \<and> ur_spent_by s = None \<and>
      utxo_records p' (u_id v) = Some (s\<lparr>ur_spent_by := Some w\<rparr>)" if "v \<in> set us" for v
  proof -
    have "u_id v \<noteq> u_id u" using n that by (metis imageI)
    then have "utxo_records q (u_id v) = utxo_records p (u_id v)" by (simp add: qr)
    then show ?thesis using IH that by (metis (no_types, lifting))
  qed
  moreover have "utxo_records p' (u_id u) = Some (r\<lparr>ur_spent_by := Some w\<rparr>)" using IH n by (simp add: qr)
  ultimately show ?case using IH n r qr by auto
qed simp

lemma insert_pending_loop:
  assumes "do_each (insert_pending w) us p = Ok p'" "utxo_records p i = Some r"
  shows "utxo_records p' i = Some r"
  by (rule do_each_preserves [OF assms(1), where P = "\<lambda>s. utxo_records s i = Some r"])
    (use assms(2) in \<open>auto simp: insert_pending_Ok\<close>)

section \<open>Cleaning up\<close>

lemma good_pool_step:
  assumes ok: "bridge_ok h" and p: "pool_ok p" "available p = available (hs_pool h)" "pool_grows (hs_pool h) p"
    and unspent: "\<And>i r. utxo_records (hs_pool h) i = Some r \<Longrightarrow> ur_spent_epoch r = None \<Longrightarrow>
       \<exists>r'. utxo_records p i = Some r' \<and> ur_spent_epoch r' = None"
  shows "good_step h (with_pool h p)"
proof -
  have f: "txns_from (hs_queue h) (hs_queue (with_pool h p))" by (simp add: txns_from_same)
  have "inputs_ok p (hs_queue h)"
    using ok unspent by (intro inputs_ok_mono [OF _ p(3)]) (auto simp: bridge_ok_def)
  then have "bridge_ok (with_pool h p)"
    using ok p(1,2) by (simp add: bridge_ok_def backed_def hbtc_supply_def)
  then show ?thesis using p(3) nonces_move_same [OF f] txns_from_kept [OF f] by (simp add: good_step_def)
qed

lemma cleanup_spent_utxos_ok:
  assumes ok: "bridge_ok h" and r: "cleanup_spent_utxos h is = Ok h'"
  shows "good_step h h'"
proof -
  obtain p where p: "do_each cleanup_spent is (hs_pool h) = Ok p" and h': "h' = with_pool h p"
    using r by (auto simp: cleanup_spent_utxos_def)
  have "pool_ok p \<and> available p = available (hs_pool h)"
    by (rule do_each_preserves [OF p, where P = "\<lambda>s. pool_ok s \<and> available s = available (hs_pool h)"])
      (use ok in \<open>auto simp: bridge_ok_def dest: cleanup_spent_ledger\<close>)
  moreover have "pool_grows (hs_pool h) p" by (rule do_each_grows [OF p]) (rule pool_ops_grow(6))
  ultimately show ?thesis unfolding h'
    using unspent_loop [OF p _ _ cleanup_spent_unspent] by (intro good_pool_step [OF ok]) blast+
qed

section \<open>Confirming a withdrawal\<close>

lemma confirm_withdrawal_Ok:
  assumes "confirm_withdrawal nt h w cert clock = Ok h'"
  obtains t q p1 p2 change_ids where
    "wq_withdrawal_txns (hs_queue h) w = Some t" "withdrawal_txn_is_fully_signed (hs_queue h) w = Ok True"
    "wt_confirmed_timestamp_ms t = None" "mark_txn_confirmed (hs_queue h) w clock = Ok q"
    "do_each (\<lambda>u. mark_spent (st_epoch (hs_committee_set h)) (u_id u)) (wt_inputs t) (hs_pool h) = Ok p1"
    "do_each confirm_pending change_ids p1 = Ok p2" "h' = with_pool (with_queue h q) p2"
  using assms
  by (auto simp: confirm_withdrawal_def borrow_withdrawal_txn_def mark_txn_confirmed_def modify_txn_Ok Let_def)

lemma mark_txn_confirmed_txns:
  assumes "mark_txn_confirmed q w clock = Ok q'" "wq_withdrawal_txns q w = Some t"
  shows "txns_from q q'" "txn_of q' w = Some (t\<lparr>wt_confirmed_timestamp_ms := Some clock\<rparr>)"
proof -
  have q': "q' = q\<lparr>wq_withdrawal_txns := (wq_withdrawal_txns q)(w \<mapsto> t\<lparr>wt_confirmed_timestamp_ms := Some clock\<rparr>)\<rparr>"
    using assms by (auto simp: mark_txn_confirmed_def modify_txn_Ok)
  show "txns_from q q'"
    unfolding q' by (rule txns_from_update [OF assms(2)]) (simp_all add: same_payment_def)
  show "txn_of q' w = Some (t\<lparr>wt_confirmed_timestamp_ms := Some clock\<rparr>)" by (simp add: q' txn_of_def)
qed

lemma confirm_withdrawal_ok:
  assumes ok: "bridge_ok h" and r: "confirm_withdrawal nt h w cert clock = Ok h'"
  shows "good_step h h'"
proof -
  obtain t q p1 p2 change_ids where
    t: "wq_withdrawal_txns (hs_queue h) w = Some t" "withdrawal_txn_is_fully_signed (hs_queue h) w = Ok True"
    and q: "mark_txn_confirmed (hs_queue h) w clock = Ok q"
    and p1: "do_each (\<lambda>u. mark_spent (st_epoch (hs_committee_set h)) (u_id u)) (wt_inputs t) (hs_pool h) = Ok p1"
    and p2: "do_each confirm_pending change_ids p1 = Ok p2" and h': "h' = with_pool (with_queue h q) p2"
    using confirm_withdrawal_Ok [OF r] by metis
  note b = ok [unfolded bridge_ok_def]
  have inp: "inputs_ok (hs_pool h) (hs_queue h)" and pk: "pool_ok (hs_pool h)" and qk: "queue_ok (hs_queue h)"
    using b by auto
  note tx = mark_txn_confirmed_txns [OF q t(1)]
  have tw: "txn_of (hs_queue h) w = Some t" using t(1) by simp
  have "ur_spent_by r \<noteq> None" if "u \<in> set (wt_inputs t)" "utxo_records (hs_pool h) (u_id u) = Some r" for u r
    using inputs_okD(2) [OF inp tw that(1)] that(2) by (auto simp: input_ok_def)
  note m = mark_spent_loop [OF p1 pk this]
  note c = confirm_pending_loop [OF p2]
  have g: "pool_grows (hs_pool h) p2"
    using do_each_grows [OF p1 pool_ops_grow(4)] do_each_grows [OF p2 pool_ops_grow(5)] by (rule pool_grows_trans)
  have "inputs_ok p2 q"
  proof (rule inputs_ok_mono [OF inp g txns_from_payment [OF tx(1)]])
    fix w' t' u r
    assume t': "txn_of q w' = Some t'" "wt_confirmed_timestamp_ms t' = None" "u \<in> set (wt_inputs t')"
      and rr: "utxo_records (hs_pool h) (u_id u) = Some r" "ur_spent_epoch r = None"
    have "w' \<noteq> w" using t'(1,2) tx(2) by auto
    moreover obtain s where s: "txn_of (hs_queue h) w' = Some s" "same_payment s t'"
      using txns_fromD [OF tx(1) t'(1)] by (elim exE conjE) (rule that; assumption)
    ultimately have "u_id u \<notin> u_id ` set (wt_inputs t)"
      using inputs_okD(3) [OF inp s(1) _ tw, of u] t'(3) same_payment_inputs(1) [OF s(2)] by force
    then have "utxo_records p1 (u_id u) = Some r" using m rr(1) by simp
    then show "\<exists>r'. utxo_records p2 (u_id u) = Some r' \<and> ur_spent_epoch r' = None"
      by (rule unspent_loop [OF p2 _ rr(2) confirm_pending_unspent])
  qed
  then have "bridge_ok h'"
    using b m c mark_txn_confirmed_ok [OF qk q t(2)] nonces_ok_mono [OF _ tx(1)]
    by (simp add: h' bridge_ok_def backed_def hbtc_supply_def)
  moreover have "nonces_move h h'" using tx(1) by (intro nonces_move_same) (simp_all add: h')
  ultimately show ?thesis using g txns_from_kept [OF tx(1)] by (simp add: good_step_def h')
qed

section \<open>Assigning presignatures\<close>

lemma assert_operating_Ok:
  assumes "assert_operating h = Ok u"
  shows "pending_epoch_change (hs_committee_set h) = None"
    "has_committee (hs_committee_set h) (st_epoch (hs_committee_set h))"
  using assms by (auto simp: assert_operating_def assert_not_reconfiguring_def is_reconfiguring_def pending_epoch_change_def)

text \<open>One transaction gets the nonces an allocation returned.\<close>

lemma assign_nonces:
  assumes ok: "nonces_ok cs a q" and al: "allocate a n = Ok (ps, a')"
    and cs: "pending_epoch_change cs = None" "has_committee cs (st_epoch cs)"
    and tx: "\<And>x. txn_of q' x = (if x = w then Some t' else txn_of q x)"
    and t': "batch_epoch t' = st_epoch cs" "batch_nonces t' = ps"
  shows "nonces_ok cs a' q'"
proof -
  note A = allocate_Ok [OF al]
  have le: "num_consumed a \<le> num_consumed a'" using A(3) by (simp add: word_le_nat_alt)
  have old: "m < num_consumed a" if "x \<noteq> w" "txn_of q' x = Some t" "batch_epoch t = st_epoch cs"
      "m \<in> set (batch_nonces t)" for x t m
    using that nonces_okD(4) [OF ok, of x t m] by (simp add: tx)
  have new: "num_consumed a \<le> m" "m < num_consumed a'" if "m \<in> set (batch_nonces t')" for m
    using A(4) [of m] that by (simp_all add: t'(2))
  have disj: "set (batch_nonces t) \<inter> set (batch_nonces t') = {}"
    if "x \<noteq> w" "txn_of q' x = Some t" "batch_epoch t = st_epoch cs" for x t
    using old [OF that] new by (meson disjoint_iff leD)
  show ?thesis
    unfolding nonces_ok_def
  proof (intro conjI allI impI ballI)
    fix x t assume t: "txn_of q' x = Some t"
    have "has_committee cs (batch_epoch t) \<and> distinct (batch_nonces t)"
    proof (cases "x = w")
      case True
      then have "t = t'" using t by (simp add: tx)
      then show ?thesis using cs(2) A(2) by (simp add: t')
    next
      case False
      then show ?thesis using t nonces_okD(1,3) [OF ok, of x t] by (simp add: tx)
    qed
    then show "has_committee cs (batch_epoch t)" "distinct (batch_nonces t)" by blast+
    show "pending_epoch_change cs \<noteq> Some (batch_epoch t)" by (simp add: cs(1))
    fix m assume m: "batch_epoch t = st_epoch cs" "m \<in> set (batch_nonces t)"
    show "m < num_consumed a'"
    proof (cases "x = w")
      case True
      then show ?thesis using t m(2) new(2) [of m] by (simp add: tx)
    next
      case False
      from old [OF False t m] show ?thesis using le by simp
    qed
  next
    fix x t y s
    assume a: "txn_of q' x = Some t" "txn_of q' y = Some s" "x \<noteq> y" "batch_epoch t = batch_epoch s"
    consider "x = w" | "y = w" | "x \<noteq> w" "y \<noteq> w" by blast
    then show "set (batch_nonces t) \<inter> set (batch_nonces s) = {}"
    proof cases
      case 1
      then show ?thesis using a disj [of y s] t'(1) by (auto simp: tx)
    next
      case 2
      then show ?thesis using a disj [of x t] t'(1) by (auto simp: tx)
    next
      case 3
      then show ?thesis using nonces_okD(5) [OF ok, of x t y s] a by (simp add: tx)
    qed
  qed
qed

lemma assign_nonces_move:
  assumes "allocate (hs_presig_allocator h) n = Ok (ps, hs_presig_allocator h')"
    and "hs_committee_set h' = hs_committee_set h"
    and tx: "\<And>x. txn_of (hs_queue h') x = (if x = w then Some t' else txn_of (hs_queue h) x)"
    and "batch_epoch t' = st_epoch (hs_committee_set h)" "batch_nonces t' = ps"
  shows "nonces_move h h'"
proof -
  note A = allocate_Ok [OF assms(1)]
  have "num_consumed (hs_presig_allocator h) \<le> num_consumed (hs_presig_allocator h')"
    using A(3) by (simp add: word_le_nat_alt)
  then show ?thesis using A(4) assms(2,4,5) by (simp add: nonces_move_def Let_def tx)
qed

lemma reallocate_presigs_txn:
  assumes "reallocate_presigs_for_withdrawal_txn q w ps e rnd = Ok q'"
  shows "\<exists>t t'. wq_withdrawal_txns q w = Some t \<and> same_payment t t' \<and> batch_epoch t' = e \<and>
    batch_nonces t' = ps \<and> q' = q\<lparr>wq_withdrawal_txns := (wq_withdrawal_txns q)(w \<mapsto> t')\<rparr>"
proof -
  obtain t t' b where t: "wq_withdrawal_txns q w = Some t"
    and b: "length ps = length (batch_nonces t)"
      "b = (wt_signing t)\<lparr>sb_signatures := refill (sb_signatures (wt_signing t)) ps, sb_epoch := e\<rparr>"
    and t': "t' = (if ps \<noteq> [] then t\<lparr>wt_signing := b, wt_randomness := rnd\<rparr> else t\<lparr>wt_signing := b\<rparr>)"
    and q': "q' = q\<lparr>wq_withdrawal_txns := (wq_withdrawal_txns q)(w \<mapsto> t')\<rparr>"
    using assms by (auto simp: reallocate_presigs_for_withdrawal_txn_def modify_txn_Ok reallocate_Ok)
  have "same_payment t t' \<and> batch_epoch t' = e \<and> batch_nonces t' = ps"
    using nonces_refill [OF b(1)] by (cases "ps = []") (simp_all add: t' b(2) same_payment_def)
  then show ?thesis using t q' by blast
qed

lemma reallocate_presigs_entry_ok:
  assumes ok: "bridge_ok h" and r: "reallocate_presigs h w rnd = Ok h'"
  shows "good_step h h'"
proof -
  let ?cs = "hs_committee_set h"
  obtain n ps a q where op: "assert_operating h = Ok ()"
    and al: "allocate (hs_presig_allocator h) n = Ok (ps, a)"
    and q: "reallocate_presigs_for_withdrawal_txn (hs_queue h) w ps (st_epoch ?cs) rnd = Ok q"
    and h': "h' = with_queue (h\<lparr>hs_presig_allocator := a\<rparr>) q"
    using r by (auto simp: reallocate_presigs_def allocate_presigs_def Let_def)
  obtain t t' where t: "wq_withdrawal_txns (hs_queue h) w = Some t"
    and t': "same_payment t t'" "batch_epoch t' = st_epoch ?cs" "batch_nonces t' = ps"
    and q': "q = (hs_queue h)\<lparr>wq_withdrawal_txns := (wq_withdrawal_txns (hs_queue h))(w \<mapsto> t')\<rparr>"
    using reallocate_presigs_txn [OF q] by blast
  have tx: "txn_of q x = (if x = w then Some t' else txn_of (hs_queue h) x)" for x
    by (auto simp: txn_of_def q' split: option.split)
  have tw: "txn_of (hs_queue h) w = Some t" using t by simp
  note b = ok [unfolded bridge_ok_def]
  have inp: "inputs_ok (hs_pool h) (hs_queue h)" using b by blast
  have "inputs_ok (hs_pool h) q"
    by (rule inputs_ok_mono [OF inp pool_grows_refl]) (use t'(1) tw in \<open>auto simp: tx split: if_splits\<close>)
  moreover have "nonces_ok ?cs a q"
    using b assign_nonces [OF _ al assert_operating_Ok [OF op] tx t'(2,3)] by blast
  ultimately have "bridge_ok h'"
    using b reallocate_presigs_ok [OF _ q]
    by (simp add: h' bridge_ok_def backed_def hbtc_supply_def with_queue_def)
  moreover have "nonces_move h h'"
    by (rule assign_nonces_move [of h n ps h' w t'])
      (use al tx t' in \<open>simp_all add: h' with_queue_def\<close>)
  moreover have "txns_kept (hs_queue h) q" using t'(1) tw by (auto simp: txns_kept_def tx)
  ultimately show ?thesis by (simp add: good_step_def h' with_queue_def pool_grows_refl)
qed

section \<open>Committing a withdrawal\<close>

lemma burn_Ok:
  assumes "burn t b = Ok t'"
  obtains s s' where "t_treasury_cap t = Some s" "t_treasury_cap t' = Some s'" "unat s' + unat b = unat s"
proof -
  obtain s where s: "t_treasury_cap t = Some s" "b \<le> s" "t' = t\<lparr>t_treasury_cap := Some (s - b)\<rparr>"
    using assms by (auto simp: burn_def)
  have "unat (s - b) = unat s - unat b" by (rule unat_sub_le [OF s(2)])
  moreover have "unat b \<le> unat s" using s(2) by (simp add: word_le_nat_alt)
  ultimately show thesis using that [of s "s - b"] s by simp
qed

lemma commit_withdrawal_tx_Ok:
  assumes "commit_withdrawal_tx nt h ids sel outs txid cert clock rnd ctx = Ok h'"
  obtains inputs infos ps a t p1 tot q1 tr us p2 q2 where
    "assert_operating h = Ok ()"
    "map_each (get_utxo (hs_pool h)) sel = Ok inputs"
    "extract_request_infos (hs_queue h) ids = Ok infos"
    "allocate (hs_presig_allocator h) (length inputs) = Ok (ps, a)"
    "new_withdrawal_txn ctx ids infos inputs outs txid ps (st_epoch (hs_committee_set h)) (hs_config h) clock rnd = Ok t"
    "do_each (\<lambda>utxo. lock (wt_id t) (u_id utxo)) (wt_inputs t) (hs_pool h) = Ok p1"
    "commit_requests (hs_queue h) t = Ok (tot, q1)" "burn (hs_treasury h) tot = Ok tr"
    "build_change_utxos t = Ok us" "do_each (insert_pending (wt_id t)) us p1 = Ok p2"
    "insert_withdrawal_txn q1 t = Ok q2"
    "hs_pool h' = p2" "hs_queue h' = q2" "hs_treasury h' = tr" "hs_presig_allocator h' = a"
    "hs_committee_set h' = hs_committee_set h" "hs_deposits h' = hs_deposits h"
  using assms
  by (auto simp: commit_withdrawal_tx_def allocate_presigs_def Let_def with_pool_def with_queue_def)

text \<open>The transaction a commit makes, and what it pays.\<close>

lemma new_txn_pays:
  assumes n: "new_withdrawal_txn ctx ids infos inputs outs txid ps e config clock rnd = Ok t"
    and i: "extract_request_infos q ids = Ok infos" and d: "distinct ids"
  shows "wt_id t = ctx_new_id ctx" "wt_request_ids t = ids" "wt_inputs t = inputs"
      "batch_epoch t = e" "batch_nonces t = ps" "txn_shape t"
    and "\<exists>share :: u64. total_in (wt_inputs t) = total_out (wt_withdrawal_outputs t) +
        total_out (wt_change_outputs t) + length (wt_request_ids t) * unat share \<and>
       (\<exists>max_fee. worst_case_network_fee config = Ok max_fee \<and> share \<le> max_fee) \<and>
       (\<forall>k < length (wt_request_ids t). \<exists>r. wq_requests q (wt_request_ids t ! k) = Some r \<and>
          unat (ou_amount (wt_withdrawal_outputs t ! k)) + unat share = unat (wr_btc_amount r) \<and>
          546 \<le> unat (ou_amount (wt_withdrawal_outputs t ! k)) \<and>
          ou_bitcoin_address (wt_withdrawal_outputs t ! k) = wr_bitcoin_address r)"
proof -
  obtain share max_fee where a: "0 < length ids" "length ids \<le> length outs" "length outs < 2 ^ 32"
      "total_in inputs = total_out outs + length ids * unat share"
    and fee: "worst_case_network_fee config = Ok max_fee" "share \<le> max_fee"
    and c: "\<And>k. k < length ids \<Longrightarrow> check_output share infos outs k () = Ok ()"
    and ps: "inputs \<noteq> []" "length ps = length inputs"
    and t: "t = \<lparr>wt_id = ctx_new_id ctx, wt_txid = txid, wt_request_ids = ids, wt_inputs = inputs,
          wt_withdrawal_outputs = take (length ids) outs, wt_change_outputs = drop (length ids) outs,
          wt_created_timestamp_ms = clock, wt_signed_timestamp_ms = None,
          wt_confirmed_timestamp_ms = None, wt_randomness = rnd,
          wt_signing = \<lparr>sb_signatures = map Pending ps, sb_epoch = e\<rparr>,
          wt_guardian_signatures = None\<rparr>"
    by (rule new_withdrawal_txn_Ok [OF n]) (rule that; (assumption | simp))
  show "wt_id t = ctx_new_id ctx" "wt_request_ids t = ids" "wt_inputs t = inputs"
      "batch_epoch t = e" "batch_nonces t = ps" by (simp_all add: t)
  show "txn_shape t" using a ps d by (simp add: txn_shape_def t)
  have "total_out (take (length ids) outs @ drop (length ids) outs) =
      total_out (take (length ids) outs) + total_out (drop (length ids) outs)"
    by (simp only: map_append sum_list_append)
  then have sum: "total_in (wt_inputs t) = total_out (wt_withdrawal_outputs t) +
        total_out (wt_change_outputs t) + length (wt_request_ids t) * unat share"
    using a(4) by (simp add: t)
  have pay: "\<exists>r. wq_requests q (wt_request_ids t ! k) = Some r \<and>
          unat (ou_amount (wt_withdrawal_outputs t ! k)) + unat share = unat (wr_btc_amount r) \<and>
          546 \<le> unat (ou_amount (wt_withdrawal_outputs t ! k)) \<and>
          ou_bitcoin_address (wt_withdrawal_outputs t ! k) = wr_bitcoin_address r"
    if "k < length (wt_request_ids t)" for k
  proof -
    have k: "k < length ids" using that by (simp add: t)
    obtain r where r: "wq_requests q (ids ! k) = Some r"
        "infos ! k = \<lparr>ci_btc_amount = wr_btc_amount r, ci_bitcoin_address = wr_bitcoin_address r\<rparr>"
      using extract_request_infos_Ok(2) [OF i k] by blast
    show ?thesis using check_output_Ok [OF c [OF k]] r k by (simp add: t)
  qed
  show "\<exists>share :: u64. total_in (wt_inputs t) = total_out (wt_withdrawal_outputs t) +
        total_out (wt_change_outputs t) + length (wt_request_ids t) * unat share \<and>
       (\<exists>max_fee. worst_case_network_fee config = Ok max_fee \<and> share \<le> max_fee) \<and>
       (\<forall>k < length (wt_request_ids t). \<exists>r. wq_requests q (wt_request_ids t ! k) = Some r \<and>
          unat (ou_amount (wt_withdrawal_outputs t ! k)) + unat share = unat (wr_btc_amount r) \<and>
          546 \<le> unat (ou_amount (wt_withdrawal_outputs t ! k)) \<and>
          ou_bitcoin_address (wt_withdrawal_outputs t ! k) = wr_bitcoin_address r)"
    by (rule exI [of _ share]) (use sum pay fee in blast)
qed

lemma commit_txns:
  assumes "commit_requests q t = Ok (tot, q1)" "insert_withdrawal_txn q1 t = Ok q2"
  shows "txn_of q2 x = (if x = wt_id t then Some t else txn_of q x)"
proof -
  have "wq_withdrawal_txns q2 = (wq_withdrawal_txns q)(wt_id t \<mapsto> t)" "wq_confirmed_txns q2 = wq_confirmed_txns q"
    using assms(2) by (auto simp: insert_withdrawal_txn_def commit_requests_Ok(3) [OF assms(1)])
  then show ?thesis by (auto simp: txn_of_def split: option.split)
qed

text \<open>What the requests held is what the outputs pay and the fee shares.\<close>

lemma commit_total:
  fixes share :: u64
  assumes ok: "queue_ok q" and c: "commit_requests q t = Ok (tot, q1)" and sh: "txn_shape t"
    and pay: "\<forall>k < length (wt_request_ids t). \<exists>r. wq_requests q (wt_request_ids t ! k) = Some r \<and>
          unat (ou_amount (wt_withdrawal_outputs t ! k)) + unat share = unat (wr_btc_amount r) \<and> Q k r"
  shows "unat tot = total_out (wt_withdrawal_outputs t) + length (wt_request_ids t) * unat share"
proof -
  let ?ids = "wt_request_ids t" and ?outs = "wt_withdrawal_outputs t"
  have len: "length ?outs = length ?ids" using sh by (simp add: txn_shape_def)
  have "map (\<lambda>i. unat (wr_btc (the (wq_requests q i)))) ?ids = map (\<lambda>out. unat (ou_amount out) + unat share) ?outs"
  proof (rule nth_equalityI)
    fix k assume "k < length (map (\<lambda>i. unat (wr_btc (the (wq_requests q i)))) ?ids)"
    then have k: "k < length ?ids" by simp
    obtain r where r: "wq_requests q (?ids ! k) = Some r"
        "unat (ou_amount (?outs ! k)) + unat share = unat (wr_btc_amount r)"
      using pay k by blast
    have "\<not> is_committed r" using commit_requests_Ok(2) [OF c, of "?ids ! k"] k r(1) by simp
    then have "wr_btc r = wr_btc_amount r" using queue_okD(1) [OF ok r(1)] by simp
    then show "map (\<lambda>i. unat (wr_btc (the (wq_requests q i)))) ?ids ! k =
        map (\<lambda>out. unat (ou_amount out) + unat share) ?outs ! k"
      using r k len by simp
  qed (simp add: len)
  then show ?thesis using commit_requests_Ok(4) [OF c] len by (simp add: sum_list_addf sum_list_triv)
qed

lemma commit_pool:
  assumes pk: "pool_ok p" and inp: "inputs_ok p q"
    and g: "map_each (get_utxo p) sel = Ok inputs"
    and p1: "do_each (\<lambda>u. lock w (u_id u)) inputs p = Ok p1" and p2: "do_each (insert_pending w) us p1 = Ok p2"
    and tx: "\<And>x. txn_of q' x = (if x = w then Some t else txn_of q x)"
    and t: "wt_inputs t = inputs" and fresh: "txn_of q w = None"
  shows "pool_ok p2 \<and> available p2 + total_in inputs = available p + sum_list (map (\<lambda>u. unat (u_amount u)) us)"
    and "pool_grows p p2" and "inputs_ok p2 q'"
proof -
  have rec: "get_utxo p (u_id u) = Ok u" if u: "u \<in> set inputs" for u
  proof -
    obtain k where k: "k < length inputs" "inputs ! k = u" using u by (auto simp: in_set_conv_nth)
    then have "get_utxo p (sel ! k) = Ok u"
      using list_all2_nthD2 [OF g [unfolded map_each_eq_Ok] k(1)] by simp
    then show ?thesis using pk by (auto simp: get_utxo_def pool_ok_def)
  qed
  then have on: "list_all (\<lambda>u. get_utxo p (u_id u) = Ok u) inputs" by (simp add: list_all_iff)
  show "pool_ok p2 \<and> available p2 + total_in inputs = available p + sum_list (map (\<lambda>u. unat (u_amount u)) us)"
    by (rule commit_ledger.take_put_all [OF p1 p2 pk on])
  show gr: "pool_grows p p2"
    using do_each_grows [OF p1 pool_ops_grow(3)] do_each_grows [OF p2 pool_ops_grow(2)] by (rule pool_grows_trans)
  note L = lock_loop [OF p1]
  have new: "input_ok p2 w t u" if u: "u \<in> set inputs" for u
  proof -
    obtain r where r: "utxo_records p (u_id u) = Some r" "ur_spent_by r = None"
        "utxo_records p1 (u_id u) = Some (r\<lparr>ur_spent_by := Some w\<rparr>)" using L u by blast
    have "ur_utxo r = u" using rec [OF u] r(1) by (simp add: get_utxo_def)
    moreover have "ur_spent_epoch r = None" using pk r(1,2) unfolding pool_ok_def by blast
    ultimately show ?thesis
      using insert_pending_loop [OF p2 r(3)] by (simp add: input_ok_def is_spent_or_active_def bag_contains_def)
  qed
  have unlocked: "u_id u \<noteq> u_id v" if s: "txn_of q x = Some s" "u \<in> set (wt_inputs s)" and v: "v \<in> set inputs" for x s u v
  proof
    assume e: "u_id u = u_id v"
    obtain r where r: "utxo_records p (u_id v) = Some r" "ur_spent_by r = None" using L v by blast
    then show False using inputs_okD(2) [OF inp s] e by (simp add: input_ok_def)
  qed
  have old: "inputs_ok p2 q"
  proof (rule inputs_ok_mono [OF inp gr])
    fix x s u r
    assume s: "txn_of q x = Some s" "u \<in> set (wt_inputs s)"
      and r: "utxo_records p (u_id u) = Some r" "ur_spent_epoch r = None"
    have "u_id u \<notin> u_id ` set inputs" using unlocked [OF s] by auto
    then have "utxo_records p1 (u_id u) = Some r" using L r(1) by simp
    from insert_pending_loop [OF p2 this] r(2)
    show "\<exists>r'. utxo_records p2 (u_id u) = Some r' \<and> ur_spent_epoch r' = None" by blast
  qed auto
  show "inputs_ok p2 q'"
    unfolding inputs_ok_def
  proof (intro conjI allI impI ballI)
    fix x s assume s: "txn_of q' x = Some s"
    show "distinct (map u_id (wt_inputs s))"
      using s L inputs_okD(1) [OF old, of x s] t by (auto simp: tx split: if_splits)
    fix u assume "u \<in> set (wt_inputs s)"
    then show "input_ok p2 x s u"
      using s new inputs_okD(2) [OF old, of x s u] t by (auto simp: tx split: if_splits)
  next
    fix x s y z u v
    assume a: "txn_of q' x = Some s" "txn_of q' y = Some z" "u \<in> set (wt_inputs s)" "v \<in> set (wt_inputs z)"
      and e: "u_id u = u_id v"
    consider "x = w" "y = w" | "x = w" "y \<noteq> w" | "x \<noteq> w" "y = w" | "x \<noteq> w" "y \<noteq> w" by blast
    then show "x = y"
    proof cases
      case 2 then show ?thesis using a unlocked [of y z v u] e t by (simp add: tx)
    next
      case 3 then show ?thesis using a unlocked [of x s u v] e t by (simp add: tx)
    next
      case 4 then show ?thesis using a inputs_okD(3) [OF old, of x s u y z v] e by (simp add: tx)
    qed simp
  qed
qed

lemma commit_withdrawal_tx_ok:
  assumes ok: "bridge_ok h" and r: "commit_withdrawal_tx nt h ids sel outs txid cert clock rnd ctx = Ok h'"
    and fresh: "unused_id h (ctx_new_id ctx)"
  shows "good_step h h'"
proof -
  let ?cs = "hs_committee_set h"
  obtain inputs infos ps a t p1 tot q1 tr us p2 q2 where op: "assert_operating h = Ok ()"
    and inputs: "map_each (get_utxo (hs_pool h)) sel = Ok inputs"
    and infos: "extract_request_infos (hs_queue h) ids = Ok infos"
    and al: "allocate (hs_presig_allocator h) (length inputs) = Ok (ps, a)"
    and n: "new_withdrawal_txn ctx ids infos inputs outs txid ps (st_epoch ?cs) (hs_config h) clock rnd = Ok t"
    and p1: "do_each (\<lambda>utxo. lock (wt_id t) (u_id utxo)) (wt_inputs t) (hs_pool h) = Ok p1"
    and c: "commit_requests (hs_queue h) t = Ok (tot, q1)" and b: "burn (hs_treasury h) tot = Ok tr"
    and us: "build_change_utxos t = Ok us" and p2: "do_each (insert_pending (wt_id t)) us p1 = Ok p2"
    and q2: "insert_withdrawal_txn q1 t = Ok q2"
    and h': "hs_pool h' = p2" "hs_queue h' = q2" "hs_treasury h' = tr" "hs_presig_allocator h' = a"
      "hs_committee_set h' = hs_committee_set h" "hs_deposits h' = hs_deposits h"
    by (rule commit_withdrawal_tx_Ok [OF r])
  note B = ok [unfolded bridge_ok_def]
  have pk: "pool_ok (hs_pool h)" and qk: "queue_ok (hs_queue h)" and ik: "inputs_ok (hs_pool h) (hs_queue h)"
    and nk: "nonces_ok ?cs (hs_presig_allocator h) (hs_queue h)" and bk: "backed h" using B by auto
  have ids: "wt_request_ids t = ids" by (rule new_withdrawal_txn_Ok [OF n]) simp
  have d: "distinct ids" using commit_requests_Ok(1) [OF c] by (simp add: ids)
  note T = new_txn_pays [OF n infos d]
  obtain share :: u64 where sum: "total_in (wt_inputs t) = total_out (wt_withdrawal_outputs t) +
        total_out (wt_change_outputs t) + length (wt_request_ids t) * unat share"
    and pay: "\<forall>k < length (wt_request_ids t). \<exists>r. wq_requests (hs_queue h) (wt_request_ids t ! k) = Some r \<and>
          unat (ou_amount (wt_withdrawal_outputs t ! k)) + unat share = unat (wr_btc_amount r) \<and>
          546 \<le> unat (ou_amount (wt_withdrawal_outputs t ! k)) \<and>
          ou_bitcoin_address (wt_withdrawal_outputs t ! k) = wr_bitcoin_address r"
    using T(7) by (elim exE conjE) (rule that; assumption)
  have fr: "txn_of (hs_queue h) (wt_id t) = None" using fresh T(1) by (simp add: unused_id_def)
  note tx = commit_txns [OF c q2]
  have qk2: "queue_ok q2"
    by (rule commit_ok [OF qk T(6) fr sum _ c q2]) (use pay in blast)
  have P: "pool_ok p2" "available p2 + total_in (wt_inputs t) = available (hs_pool h) + sum_list (map (\<lambda>u. unat (u_amount u)) us)"
      "pool_grows (hs_pool h) p2" "inputs_ok p2 q2"
    using commit_pool [OF pk ik inputs p1 [unfolded T(3)] p2 tx T(3) fr] T(3) by auto
  have "map (\<lambda>u. unat (u_amount u)) us = map unat (map u_amount us)" by simp
  also have "\<dots> = map (\<lambda>u. unat (ou_amount u)) (wt_change_outputs t)"
    by (simp only: build_change_utxos_Ok [OF us]) simp
  finally have ch: "sum_list (map (\<lambda>u. unat (u_amount u)) us) = total_out (wt_change_outputs t)" by simp
  note tot = commit_total [OF qk c T(6) pay]
  have "backed h'"
  proof (rule burn_Ok [OF b])
    fix s s' assume "t_treasury_cap (hs_treasury h) = Some s" "t_treasury_cap tr = Some s'" "unat s' + unat tot = unat s"
    then show ?thesis using bk P(2) sum ch tot by (simp add: backed_def hbtc_supply_def h')
  qed
  moreover have "nonces_ok ?cs a q2"
    by (rule assign_nonces [OF nk al assert_operating_Ok [OF op] tx T(4,5)])
  ultimately have "bridge_ok h'" using P qk2 by (simp add: bridge_ok_def h')
  moreover have "nonces_move h h'"
    by (rule assign_nonces_move [of h "length inputs" ps h' "wt_id t" t]) (use al tx T(4,5) in \<open>simp_all add: h'\<close>)
  moreover have "txns_kept (hs_queue h) q2" using fr by (auto simp: txns_kept_def tx)
  ultimately show ?thesis using P(3) by (simp add: good_step_def h')
qed

end
