(* ===== verification/Move_Bridge_Reach.thy ===== *)
theory Move_Bridge_Reach
  imports Move_Bridge_Safe
begin

text \<open>
  The steps of the committees, and the invariant of the reachable states of the bridge.
\<close>

section \<open>Committees\<close>

text \<open>Committees that have taken office stay, and are never announced again.\<close>

definition committees_stay :: "CommitteeSet \<Rightarrow> CommitteeSet \<Rightarrow> bool" where
  "committees_stay cs cs' \<longleftrightarrow>
     (\<forall>e. has_committee cs e \<longrightarrow> pending_epoch_change cs \<noteq> Some e \<longrightarrow>
        has_committee cs' e \<and> pending_epoch_change cs' \<noteq> Some e)"

lemma nonces_ok_committees:
  assumes ok: "nonces_ok cs a q" and stay: "committees_stay cs cs'"
    and now: "st_epoch cs' = st_epoch cs \<and> a' = a \<or> pending_epoch_change cs = Some (st_epoch cs')"
  shows "nonces_ok cs' a' q"
  unfolding nonces_ok_def
proof (intro conjI allI impI ballI)
  fix w t assume t: "txn_of q w = Some t"
  note n = nonces_okD [OF ok t]
  show "has_committee cs' (batch_epoch t)" "pending_epoch_change cs' \<noteq> Some (batch_epoch t)"
    using stay n(1,2) by (auto simp: committees_stay_def)
  show "distinct (batch_nonces t)" by (rule n(3))
  fix m assume m: "batch_epoch t = st_epoch cs'" "m \<in> set (batch_nonces t)"
  then have "st_epoch cs' = st_epoch cs" "a' = a" using now n(2) by auto
  then show "m < num_consumed a'" using n(4) m by simp
next
  fix w t w' t'
  assume "txn_of q w = Some t" "txn_of q w' = Some t'" "w \<noteq> w'" "batch_epoch t = batch_epoch t'"
  then show "set (batch_nonces t) \<inter> set (batch_nonces t') = {}" by (rule nonces_okD(5) [OF ok])
qed

lemma good_committee_step:
  assumes ok: "bridge_ok h" and stay: "committees_stay (hs_committee_set h) cs"
    and now: "st_epoch cs = st_epoch (hs_committee_set h) \<and> a = hs_presig_allocator h \<or>
      pending_epoch_change (hs_committee_set h) = Some (st_epoch cs)"
  shows "good_step h (h\<lparr>hs_committee_set := cs, hs_presig_allocator := a\<rparr>)"
proof -
  have "nonces_ok cs a (hs_queue h)"
    using ok by (intro nonces_ok_committees [OF _ stay now]) (simp add: bridge_ok_def)
  then have b: "bridge_ok (h\<lparr>hs_committee_set := cs, hs_presig_allocator := a\<rparr>)"
    using ok by (simp add: bridge_ok_def backed_def hbtc_supply_def)
  have "nonces_move h (h\<lparr>hs_committee_set := cs, hs_presig_allocator := a\<rparr>)"
    using stay now by (auto simp: nonces_move_def Let_def committees_stay_def)
  then show ?thesis using b by (simp add: good_step_def pool_grows_refl txns_kept_def)
qed

lemma committee_only_step:
  assumes "bridge_ok h" "committees_stay (hs_committee_set h) cs" "st_epoch cs = st_epoch (hs_committee_set h)"
  shows "good_step h (h\<lparr>hs_committee_set := cs\<rparr>)"
  using good_committee_step [OF assms(1,2), of "hs_presig_allocator h"] assms(3) by simp

lemma committees_same:
  "st_committees cs' = st_committees cs \<Longrightarrow> pending_epoch_change cs' = pending_epoch_change cs \<Longrightarrow>
   committees_stay cs cs'"
  by (simp add: committees_stay_def has_committee_def)

lemma start_reconfig_ok:
  assumes ok: "bridge_ok h" and r: "start_reconfig nt h powers ctx = Ok h'"
  shows "good_step h h'"
proof -
  let ?cs = "hs_committee_set h"
  obtain c where n: "st_pending_epoch_change ?cs = None" "st_committees ?cs (mc_epoch c) = None"
    and h': "h' = h\<lparr>hs_committee_set := ?cs\<lparr>st_pending_epoch_change :=
        Some \<lparr>pe_epoch = mc_epoch c, pe_committee_handoff_cert = None\<rparr>,
        st_committees := (st_committees ?cs)(mc_epoch c \<mapsto> c)\<rparr>\<rparr>"
    using r by (auto simp: start_reconfig_def start_reconfig_from_voting_powers_def is_reconfiguring_def Let_def)
  show ?thesis unfolding h' using n
    by (intro committee_only_step [OF ok])
      (auto simp: committees_stay_def has_committee_def bag_contains_def pending_epoch_change_def)
qed

lemma end_reconfig_ok:
  assumes ok: "bridge_ok h" and r: "end_reconfig nt h key cert ctx = Ok h'"
  shows "good_step h h'"
proof -
  let ?cs = "hs_committee_set h"
  have h': "h' = h\<lparr>hs_committee_set := hs_committee_set h', hs_presig_allocator := hs_presig_allocator h'\<rparr>"
    and c: "st_committees (hs_committee_set h') = st_committees ?cs"
      "st_pending_epoch_change (hs_committee_set h') = None"
      "pending_epoch_change ?cs = Some (st_epoch (hs_committee_set h'))"
    using r
    by (auto simp: end_reconfig_def reset_presig_allocator_def committee_set_end_reconfig_def
        insert_committee_handoff_def pending_epoch_change_def Let_def split: if_splits)
  have "good_step h (h\<lparr>hs_committee_set := hs_committee_set h', hs_presig_allocator := hs_presig_allocator h'\<rparr>)"
    using c by (intro good_committee_step [OF ok])
      (simp_all add: committees_stay_def has_committee_def pending_epoch_change_def)
  then show ?thesis using h' by simp
qed

lemma submit_committee_handoff_ok:
  assumes ok: "bridge_ok h" and r: "submit_committee_handoff nt h e cert ctx = Ok h'"
  shows "good_step h h'"
proof -
  obtain p where p: "st_pending_epoch_change (hs_committee_set h) = Some p"
    and h': "h' = h\<lparr>hs_committee_set := (hs_committee_set h)\<lparr>st_pending_epoch_change :=
        Some (p\<lparr>pe_committee_handoff_cert := Some cert\<rparr>)\<rparr>\<rparr>"
    using r by (auto simp: submit_committee_handoff_def set_pending_committee_handoff_cert_def Let_def split: if_splits)
  show ?thesis unfolding h' using p
    by (intro committee_only_step [OF ok] committees_same) (simp_all add: pending_epoch_change_def)
qed

lemma abort_reconfig_ok:
  assumes ok: "bridge_ok h" and r: "abort_reconfig h e ctx = Ok h'"
  shows "good_step h h'"
proof -
  let ?cs = "hs_committee_set h"
  obtain p where p: "st_pending_epoch_change ?cs = Some p"
    and h': "h' = h\<lparr>hs_committee_set := ?cs\<lparr>st_pending_epoch_change := None,
        st_committees := (st_committees ?cs)(pe_epoch p := None)\<rparr>\<rparr>"
    using r by (auto simp: abort_reconfig_def committee_set_abort_reconfig_def Let_def)
  show ?thesis unfolding h' using p
    by (intro committee_only_step [OF ok])
      (auto simp: committees_stay_def has_committee_def bag_contains_def pending_epoch_change_def)
qed

lemma registry_step_same:
  assumes "registry_step nt cs cs'"
  shows "st_committees cs' = st_committees cs" "st_epoch cs' = st_epoch cs"
    "st_pending_epoch_change cs' = st_pending_epoch_change cs"
  using assms
  by (induction rule: registry_step.induct)
    (auto simp: committee_set_defs member_mut_def register_member_def set_tls_public_key_def write_tls_public_key_def
      remove_inactive_member_def remove_member_def Let_def split: if_splits)

section \<open>Reachable states\<close>

lemmas entry_steps =
  finish_publish_ok deposit_ok approve_deposit_ok confirm_deposit_ok delete_expired_deposit_ok
  request_withdrawal_ok cancel_withdrawal_ok approve_request_ok commit_withdrawal_tx_ok
  commit_input_signatures_ok finalize_withdrawal_ok confirm_withdrawal_ok archive_confirmed_withdrawals_ok
  archive_requests_entry_ok finish_archive_withdrawal_txns_ok reallocate_presigs_entry_ok
  cleanup_spent_utxos_ok start_reconfig_ok end_reconfig_ok submit_committee_handoff_ok abort_reconfig_ok

lemma bridge_step_good:
  assumes "bridge_step nt pkg h h'" "bridge_ok h"
  shows "good_step h h'"
  using assms
proof (induction rule: bridge_step.induct)
  case (registry h cs)
  note same = registry_step_same [OF registry.hyps]
  show ?case
    by (rule committee_only_step [OF registry.prems])
      (simp_all add: committees_stay_def has_committee_def pending_epoch_change_def same)
next
  case (governance h c e v)
  show ?case by (rule bridge_ok_same [OF governance.prems]) (simp_all add: rest_same_def)
qed (erule (2) entry_steps | erule (1) entry_steps)+

lemma launch_ok: "bridge_ok (hashi_init ctx)"
proof -
  have "txn_of withdrawal_queue_create w = None" for w
    by (simp add: txn_of_def withdrawal_queue_create_def bag_new_def)
  moreover have "finite (dom (bag_new :: (address, DepositRequest) bag))" by (simp add: bag_new_def)
  ultimately show ?thesis
    by (simp add: bridge_ok_def hashi_init_def bitcoin_state_new_def queue_create pool_create backed_def
        hbtc_supply_def treasury_create_def unminted_def deposit_queue_create_def bag_sums
        inputs_ok_def nonces_ok_def)
qed

lemma reachable_ok: "reachable nt pkg h \<Longrightarrow> bridge_ok h"
proof (induction rule: reachable.induct)
  case (launch ctx)
  show ?case by (rule launch_ok)
next
  case (step h h')
  then show ?case using bridge_step_good by (auto simp: good_step_def)
qed

end
