(* ===== verification/Move_Bridge_Run.thy ===== *)
theory Move_Bridge_Run
  imports Move_Bridge_Reach
begin

text \<open>
  A sample run of the bridge, evaluated step by step: the launch with a committee of one member, a
  deposit of 100000 satoshi, and a withdrawal of 60000 of them from the request to its archival. The
  native functions of the run accept every signature.
\<close>

section \<open>The run\<close>

definition run_natives :: natives where
  "run_natives = \<lparr>g1_sum_bytes = (\<lambda>_. Some []), min_pk_verify = (\<lambda>_ _ _. True),
     g1_uncompressed = (\<lambda>key. Some key), g1_identity = [], ed25519_verify = (\<lambda>_ _ _. True)\<rparr>"

definition run_package :: address where "run_package = [9]"

definition run_ctx :: "address \<Rightarrow> TxContext" where
  "run_ctx i = \<lparr>ctx_sender = [1], ctx_digest = [], ctx_epoch = 5, ctx_new_id = i\<rparr>"

definition run_cert :: CommitteeSignature where
  "run_cert = \<lparr>sig_epoch = 5, sig_signature = [], sig_signers_bitmap = [128]\<rparr>"

definition run_utxo :: Utxo where
  "run_utxo = \<lparr>u_id = \<lparr>ui_txid = [21], ui_vout = 0\<rparr>, u_amount = 100000, u_derivation_path = Some [1]\<rparr>"

definition run_outputs :: "OutputUtxo list" where
  "run_outputs = [\<lparr>ou_amount = 59000, ou_bitcoin_address = replicate 20 7\<rparr>,
     \<lparr>ou_amount = 40000, ou_bitcoin_address = replicate 32 8\<rparr>]"

text \<open>A call on the member registry as a step of the bridge.\<close>

definition run_registry :: "(CommitteeSet \<Rightarrow> CommitteeSet tx) \<Rightarrow> Hashi \<Rightarrow> Hashi tx" where
  "run_registry f h = and_then (f (hs_committee_set h)) (\<lambda>s. Ok (h\<lparr>hs_committee_set := s\<rparr>))"

definition run_launch :: "Hashi tx" where
  "run_launch =
     and_then (finish_publish run_package (hashi_init (run_ctx [10])) \<lparr>uc_package = run_package, uc_version = 1\<rparr>
       [0] [] [] (replicate 32 3) None (Some 0)) (\<lambda>h.
     and_then (run_registry (\<lambda>s. register_member run_natives s (ctx_sender (run_ctx [11])) True) h) (\<lambda>h.
     and_then (run_registry (\<lambda>s. set_next_epoch_public_key run_natives s (hs_id h) [1] [4] [] (run_ctx [11])) h) (\<lambda>h.
     and_then (run_registry (\<lambda>s. set_tls_public_key run_natives s (hs_id h) [1] (replicate 32 6) [] (run_ctx [11])) h) (\<lambda>h.
     and_then (run_registry (\<lambda>s. set_next_epoch_encryption_public_key s [1] (replicate 32 5) (run_ctx [11])) h) (\<lambda>h.
     and_then (start_reconfig run_natives h [([1], 10)] (run_ctx [11])) (\<lambda>h.
       end_reconfig run_natives h (replicate 33 2) run_cert (run_ctx [11])))))))"

definition run_deposit :: "Hashi \<Rightarrow> Hashi tx" where
  "run_deposit h =
     and_then (deposit h run_utxo 100 (run_ctx [12])) (\<lambda>h.
     and_then (approve_deposit run_natives h [12] run_cert 200) (\<lambda>h.
       confirm_deposit run_natives h [12] 300))"

definition run_twice :: "Hashi \<Rightarrow> Hashi tx" where
  "run_twice h =
     and_then (deposit h run_utxo 100 (run_ctx [12])) (\<lambda>h.
     and_then (deposit h run_utxo 150 (run_ctx [15])) (\<lambda>h.
       approve_deposit run_natives h [12] run_cert 200))"

definition run_commit :: "Hashi \<Rightarrow> Hashi tx" where
  "run_commit h =
     and_then (ensure (unused_id h [13]) (FrameworkAbort EAssert)) (\<lambda>_.
     and_then (request_withdrawal h 400 60000 (replicate 20 7) (run_ctx [13])) (\<lambda>h.
     and_then (approve_request run_natives h [13] run_cert 500) (\<lambda>h.
     and_then (ensure (unused_id h [14]) (FrameworkAbort EAssert)) (\<lambda>_.
       commit_withdrawal_tx run_natives h [[13]] [u_id run_utxo] run_outputs [31] run_cert 600 [] (run_ctx [14])))))"

definition run_settle :: "Hashi \<Rightarrow> Hashi tx" where
  "run_settle h =
     and_then (commit_input_signatures run_natives h [14] [0] [[1, 2]] run_cert) (\<lambda>h.
     and_then (finalize_withdrawal run_natives h [14] [[3, 4]] run_cert 700) (\<lambda>h.
       confirm_withdrawal run_natives h [14] run_cert 800))"

text \<open>The state after the launch.\<close>

definition launched :: Hashi where
  "launched =
     \<lparr>hs_id = [10],
      hs_committee_set =
        \<lparr>st_members =
           [[1] \<mapsto>
            \<lparr>mi_validator_address = [1], mi_operator_address = [1],
             mi_next_epoch_public_key = [4], mi_endpoint_url = [],
             mi_tls_public_key = replicate 32 6,
             mi_next_epoch_encryption_public_key = replicate 32 5,
             mi_ignored = False, mi_resigned = False, mi_extra_fields = []\<rparr>],
         st_tls_public_keys = [replicate 32 6 \<mapsto> [1]], st_epoch = 5,
         st_committees =
           [5 \<mapsto>
            \<lparr>mc_epoch = 5,
             mc_members =
               [\<lparr>cm_validator_address = [1], cm_public_key = [4],
                 cm_encryption_public_key = replicate 32 5, cm_weight = 10, cm_extra_fields = []\<rparr>],
             mc_total_weight = 10, mc_epoch_config = mpc_init_defaults config_empty\<rparr>],
         st_handoffs = bag_new, st_pending_epoch_change = None, st_mpc_public_key = replicate 33 2\<rparr>,
      hs_config =
        [(''paused'', Bool False), (''reconfig_hold'', Bool False),
         (''governance_emergency_pause_threshold_bps'', U64 500),
         (''governance_emergency_unpause_threshold_bps'', U64 6667),
         (''bitcoin_deposit_minimum'', U64 30000), (''bitcoin_withdrawal_minimum'', U64 30000),
         (''bitcoin_confirmation_threshold'', U64 6),
         (''withdrawal_cancellation_cooldown_ms'', U64 3600000),
         (''bitcoin_chain_id'', Address [0]), (''guardian_url'', String []),
         (''guardian_node_url'', String []), (''guardian_btc_public_key'', Bytes (replicate 32 3)),
         (''bitcoin_deposit_time_delay_ms'', U64 0)],
      hs_epoch_config = mpc_init_defaults config_empty,
      hs_versioning = \<lparr>enabled_versions = [1], upgrade_cap = Some \<lparr>uc_package = [9], uc_version = 1\<rparr>\<rparr>,
      hs_treasury = \<lparr>t_treasury_cap = Some 0, t_metadata_cap = True\<rparr>,
      hs_presig_allocator = \<lparr>num_consumed = 0\<rparr>, hs_bitcoin = bitcoin_state_new\<rparr>"

text \<open>The state after the deposit.\<close>

definition run_deposited :: DepositRequest where
  "run_deposited =
     \<lparr>dr_id = [12], dr_sender = [1], dr_created_timestamp_ms = 100, dr_sui_tx_digest = [],
      dr_utxo = run_utxo, dr_approval_cert = Some run_cert, dr_approved_timestamp_ms = Some 200,
      dr_confirmed_timestamp_ms = Some 300\<rparr>"

definition deposited :: Hashi where
  "deposited = launched
     \<lparr>hs_treasury := \<lparr>t_treasury_cap = Some 100000, t_metadata_cap = True\<rparr>,
      hs_bitcoin :=
        \<lparr>bs_deposit_queue = \<lparr>dq_requests = bag_new, dq_processed = [[12] \<mapsto> run_deposited]\<rparr>,
         bs_withdrawal_queue = withdrawal_queue_create,
         bs_utxo_pool =
           \<lparr>utxo_records = [u_id run_utxo \<mapsto>
              \<lparr>ur_utxo = run_utxo, ur_produced_by = None, ur_spent_by = None, ur_spent_epoch = None\<rparr>],
            spent_utxos = bag_new\<rparr>,
         bs_user_requests = [[1] \<mapsto> [[12]]]\<rparr>\<rparr>"

text \<open>The state in which two requests for the same coin wait and the first is approved.\<close>

definition deposited_twice :: Hashi where
  "deposited_twice = launched
     \<lparr>hs_bitcoin := (hs_bitcoin launched)
        \<lparr>bs_deposit_queue :=
           \<lparr>dq_requests =
              [[15] \<mapsto> create_deposit run_utxo 150 (run_ctx [15]),
               [12] \<mapsto> run_deposited\<lparr>dr_confirmed_timestamp_ms := None\<rparr>],
            dq_processed = bag_new\<rparr>\<rparr>\<rparr>"

text \<open>The states after the commitment and after the confirmation of the withdrawal.\<close>

definition run_request :: WithdrawalRequest where
  "run_request =
     \<lparr>wr_id = [13], wr_sender = [1], wr_btc_amount = 60000, wr_bitcoin_address = replicate 20 7,
      wr_created_timestamp_ms = 400, wr_approval_cert = Some run_cert,
      wr_approved_timestamp_ms = Some 500, wr_withdrawal_txn_id = Some [14], wr_sui_tx_digest = [],
      wr_btc = 0\<rparr>"

definition run_txn :: WithdrawalTransaction where
  "run_txn =
     \<lparr>wt_id = [14], wt_txid = [31], wt_request_ids = [[13]], wt_inputs = [run_utxo],
      wt_withdrawal_outputs = [run_outputs ! 0], wt_change_outputs = [run_outputs ! 1],
      wt_created_timestamp_ms = 600, wt_signed_timestamp_ms = None, wt_confirmed_timestamp_ms = None,
      wt_randomness = [], wt_signing = \<lparr>sb_signatures = [Pending 0], sb_epoch = 5\<rparr>,
      wt_guardian_signatures = None\<rparr>"

definition run_change :: Utxo where
  "run_change = \<lparr>u_id = \<lparr>ui_txid = [31], ui_vout = 1\<rparr>, u_amount = 40000, u_derivation_path = None\<rparr>"

definition committed :: Hashi where
  "committed = launched
     \<lparr>hs_treasury := \<lparr>t_treasury_cap = Some 40000, t_metadata_cap = True\<rparr>,
      hs_presig_allocator := \<lparr>num_consumed = 1\<rparr>,
      hs_bitcoin :=
        \<lparr>bs_deposit_queue = \<lparr>dq_requests = bag_new, dq_processed = [[12] \<mapsto> run_deposited]\<rparr>,
         bs_withdrawal_queue =
           \<lparr>wq_requests = [[13] \<mapsto> run_request], wq_processed = bag_new,
            wq_withdrawal_txns = [[14] \<mapsto> run_txn], wq_confirmed_txns = bag_new\<rparr>,
         bs_utxo_pool =
           \<lparr>utxo_records =
              [u_id run_utxo \<mapsto>
                 \<lparr>ur_utxo = run_utxo, ur_produced_by = None, ur_spent_by = Some [14], ur_spent_epoch = None\<rparr>,
               u_id run_change \<mapsto>
                 \<lparr>ur_utxo = run_change, ur_produced_by = Some [14], ur_spent_by = None, ur_spent_epoch = None\<rparr>],
            spent_utxos = bag_new\<rparr>,
         bs_user_requests = [[1] \<mapsto> [[12], [13]]]\<rparr>\<rparr>"

definition settled :: Hashi where
  "settled = committed
     \<lparr>hs_bitcoin := (hs_bitcoin committed)
        \<lparr>bs_withdrawal_queue := (hs_queue committed)
           \<lparr>wq_withdrawal_txns := [[14] \<mapsto> run_txn
              \<lparr>wt_signed_timestamp_ms := Some 700, wt_confirmed_timestamp_ms := Some 800,
               wt_signing := \<lparr>sb_signatures = [Signed [1, 2]], sb_epoch = 5\<rparr>,
               wt_guardian_signatures := Some [[3, 4]]\<rparr>]\<rparr>,
         bs_utxo_pool :=
           \<lparr>utxo_records =
              [u_id run_utxo \<mapsto>
                 \<lparr>ur_utxo = run_utxo, ur_produced_by = None, ur_spent_by = Some [14], ur_spent_epoch = Some 5\<rparr>,
               u_id run_change \<mapsto>
                 \<lparr>ur_utxo = run_change, ur_produced_by = None, ur_spent_by = None, ur_spent_epoch = None\<rparr>],
            spent_utxos = bag_new\<rparr>\<rparr>\<rparr>"

section \<open>Evaluation\<close>

text \<open>The definitions the steps of the run unfold to, by component; messages stay symbolic.\<close>

lemmas base_evals =
  add_checked_def sub_checked_def mul_checked_def cast_checked_def divide_and_round_up_def
  bag_new_def bag_contains_def bag_add_def bag_borrow_def bag_remove_def bag_modify_def
  sum_u64_def

lemmas committee_evals =
  config_empty_def config_get_def config_try_get_def config_upsert_def config_create_def
  paused_def reconfig_hold_def set_guardian_url_def set_guardian_node_url_def
  guardian_btc_public_key_def set_guardian_btc_public_key_def PACKAGE_VERSION_def
  versioning_create_def assert_version_enabled_def set_upgrade_cap_def has_upgrade_cap_def
  weight_threshold_def certificate_threshold_def proof_of_possession_intent_def
  reconfig_completion_intent_def tls_proof_of_possession_intent_def
  deposit_confirmation_intent_def withdrawal_request_approval_intent_def
  withdrawal_commitment_intent_def mpc_input_signatures_intent_def withdrawal_signed_intent_def
  withdrawal_confirmation_intent_def new_committee_member_def new_committee_def verify_bit_def
  verify_byte_def verify_certificate_def verify_with_committee_def committee_set_create_def
  has_member_def has_committee_def get_committee_def current_committee_def is_reconfiguring_def
  pending_epoch_change_def has_committee_handoff_def is_authorized_def member_mut_def
  authorized_def register_member_def verify_proof_of_possession_def verify_bls_public_key_def
  set_next_epoch_public_key_def set_next_epoch_encryption_public_key_def
  verify_tls_proof_of_possession_def write_tls_public_key_def set_tls_public_key_def
  eligible_member_def new_committee_from_voting_powers_def start_reconfig_from_voting_powers_def
  committee_set_end_reconfig_def insert_committee_handoff_def

lemmas queue_evals =
  utxo_pool_create_def is_spent_or_active_def assert_not_spent_or_active_def insert_active_def
  insert_pending_def get_utxo_def lock_def mark_spent_def confirm_pending_def
  DUST_RELAY_MIN_VALUE_def btc_init_defaults_def config_u64_def bitcoin_withdrawal_minimum_def
  bitcoin_deposit_minimum_def bitcoin_deposit_time_delay_ms_def worst_case_network_fee_def
  set_bitcoin_chain_id_def set_bitcoin_deposit_time_delay_ms_def
  set_bitcoin_confirmation_threshold_def deposit_queue_create_def create_deposit_def
  insert_deposit_def remove_request_def approve_def confirm_def insert_processed_def
  borrow_deposit_request_def new_allocator_def allocate_def reset_def new_batch_def
  signed_count_def is_complete_def record_one_def record_sigs_def to_signatures_def
  withdrawal_queue_create_def is_approved_def is_committed_def create_withdrawal_def
  insert_withdrawal_def approve_withdrawal_def extract_request_infos_def commit_request_def
  commit_requests_def split_miner_fee_def check_output_def new_withdrawal_txn_def
  change_utxo_id_def build_change_utxos_def change_utxo_ids_def txn_fully_signed_def
  insert_withdrawal_txn_def borrow_withdrawal_txn_def modify_txn_def record_input_signatures_def
  finalize_withdrawal_txn_def mark_txn_confirmed_def withdrawal_txn_mpc_signatures_def
  withdrawal_txn_is_fully_signed_def

lemmas bridge_evals =
  treasury_create_def register_treasury_cap_def register_metadata_cap_def mint_balance_def
  burn_def bitcoin_state_new_def index_user_request_def mpc_init_defaults_def hashi_init_def
  assert_unpaused_def assert_not_reconfiguring_def verify_def allocate_presigs_def
  reset_presig_allocator_def with_queue_def with_pool_def with_deposits_def assert_enabled_def
  assert_open_def assert_operating_def finish_publish_def deposit_def approve_deposit_def
  confirm_deposit_def request_withdrawal_def approve_request_def commit_withdrawal_tx_def
  commit_input_signatures_def finalize_withdrawal_def confirm_withdrawal_def
  pending_epoch_in_window_def assert_genesis_launch_authorized_def start_reconfig_def
  end_reconfig_def request_of_def txn_of_def unused_id_def

lemmas run_evals =
  run_natives_def run_package_def run_ctx_def run_cert_def run_utxo_def run_outputs_def
  run_registry_def run_launch_def run_deposit_def run_twice_def run_commit_def run_settle_def
  run_deposited_def run_request_def run_txn_def run_change_def

lemma bits_of_byte: "[0..<8] = [0, 1, 2, 3, 4, 5, 6, 7 :: nat]"
  by (simp add: upt_conv_Cons)

lemma short_list: "[x] \<noteq> replicate 32 a"
  by (auto dest: arg_cong [where f = length])

lemma some_false: "Ex Not"
  by auto

lemmas eval_rules =
  base_evals committee_evals queue_evals bridge_evals run_evals Let_def ensure_def bits_of_byte div_ceil_def short_list some_false

lemma run_launched: "run_launch = Ok launched"
  by (simp add: launched_def eval_rules)

lemma run_deposited: "run_deposit launched = Ok deposited"
  by (simp add: launched_def deposited_def eval_rules)

lemma run_deposited_twice: "run_twice launched = Ok deposited_twice"
  by (simp add: launched_def deposited_twice_def eval_rules)

lemma run_committed: "run_commit deposited = Ok committed"
  by (simp add: launched_def deposited_def committed_def eval_rules)

lemma run_settled: "run_settle committed = Ok settled"
  by (simp add: launched_def committed_def settled_def eval_rules)

section \<open>The run is a run of the bridge\<close>

abbreviation run_step :: "Hashi \<Rightarrow> Hashi \<Rightarrow> bool" where
  "run_step \<equiv> bridge_step run_natives run_package"

lemma run_registry_step:
  assumes "run_registry f h = Ok h'" "\<And>s. f (hs_committee_set h) = Ok s \<Longrightarrow> registry_step run_natives (hs_committee_set h) s"
  shows "run_step h h'"
  using assms by (auto simp: run_registry_def intro: bridge_step.registry)

lemma launched_reachable: "reachable run_natives run_package launched"
proof -
  obtain a b c d e g where s: "finish_publish run_package (hashi_init (run_ctx [10]))
        \<lparr>uc_package = run_package, uc_version = 1\<rparr> [0] [] [] (replicate 32 3) None (Some 0) = Ok a"
      "run_registry (\<lambda>s. register_member run_natives s (ctx_sender (run_ctx [11])) True) a = Ok b"
      "run_registry (\<lambda>s. set_next_epoch_public_key run_natives s (hs_id b) [1] [4] [] (run_ctx [11])) b = Ok c"
      "run_registry (\<lambda>s. set_tls_public_key run_natives s (hs_id c) [1] (replicate 32 6) [] (run_ctx [11])) c = Ok d"
      "run_registry (\<lambda>s. set_next_epoch_encryption_public_key s [1] (replicate 32 5) (run_ctx [11])) d = Ok e"
      "start_reconfig run_natives e [([1], 10)] (run_ctx [11]) = Ok g"
      "end_reconfig run_natives g (replicate 33 2) run_cert (run_ctx [11]) = Ok launched"
    using run_launched unfolding run_launch_def and_then_eq_Ok by (elim exE conjE) (rule that; assumption)
  note r = reachable.launch [of run_natives run_package "run_ctx [10]"]
  note r = reachable.step [OF r bridge_step.publish [OF s(1)]]
  note r = reachable.step [OF r run_registry_step [OF s(2) registry_step.register]]
  note r = reachable.step [OF r run_registry_step [OF s(3) registry_step.update_key]]
  note r = reachable.step [OF r run_registry_step [OF s(4) registry_step.update_tls]]
  note r = reachable.step [OF r run_registry_step [OF s(5) registry_step.update_encryption]]
  note r = reachable.step [OF r bridge_step.start [OF s(6)]]
  show ?thesis by (rule reachable.step [OF r bridge_step.complete [OF s(7)]])
qed

lemma steps_reachable: "(bridge_step nt pkg)\<^sup>*\<^sup>* h h' \<Longrightarrow> reachable nt pkg h \<Longrightarrow> reachable nt pkg h'"
  by (induction rule: rtranclp_induct) (auto intro: reachable.step)

lemma three_steps: "run_step a b \<Longrightarrow> run_step b c \<Longrightarrow> run_step c d \<Longrightarrow> run_step\<^sup>*\<^sup>* a d"
  by (rule rtranclp.rtrancl_into_rtrancl [OF rtranclp.rtrancl_into_rtrancl [OF r_into_rtranclp]])

lemma deposit_steps: "run_step\<^sup>*\<^sup>* launched deposited"
proof -
  obtain a b where "deposit launched run_utxo 100 (run_ctx [12]) = Ok a"
      "approve_deposit run_natives a [12] run_cert 200 = Ok b" "confirm_deposit run_natives b [12] 300 = Ok deposited"
    using run_deposited unfolding run_deposit_def and_then_eq_Ok by (elim exE conjE) (rule that; assumption)
  then show ?thesis
    by (intro three_steps [OF bridge_step.deposit bridge_step.approve_deposit bridge_step.confirm_deposit])
qed

lemma twice_steps: "run_step\<^sup>*\<^sup>* launched deposited_twice"
proof -
  obtain a b where "deposit launched run_utxo 100 (run_ctx [12]) = Ok a"
      "deposit a run_utxo 150 (run_ctx [15]) = Ok b" "approve_deposit run_natives b [12] run_cert 200 = Ok deposited_twice"
    using run_deposited_twice unfolding run_twice_def and_then_eq_Ok by (elim exE conjE) (rule that; assumption)
  then show ?thesis
    by (intro three_steps [OF bridge_step.deposit bridge_step.deposit bridge_step.approve_deposit])
qed

lemma commit_steps: "run_step\<^sup>*\<^sup>* deposited committed"
proof -
  obtain a b where s: "unused_id deposited [13]"
      "request_withdrawal deposited 400 60000 (replicate 20 7) (run_ctx [13]) = Ok a"
      "approve_request run_natives a [13] run_cert 500 = Ok b" "unused_id b [14]"
      "commit_withdrawal_tx run_natives b [[13]] [u_id run_utxo] run_outputs [31] run_cert 600 [] (run_ctx [14]) = Ok committed"
    using run_committed unfolding run_commit_def and_then_eq_Ok ensure_eq by (elim exE conjE) (rule that; assumption)
  have "run_step deposited a" by (rule bridge_step.request [OF s(2)]) (simp add: s(1) run_ctx_def)
  moreover have "run_step a b" using s(3) by (rule bridge_step.approve)
  moreover have "run_step b committed" by (rule bridge_step.commit [OF s(5)]) (simp add: s(4) run_ctx_def)
  ultimately show ?thesis by (rule three_steps)
qed

lemma settle_steps: "run_step\<^sup>*\<^sup>* committed settled"
proof -
  obtain a b where "commit_input_signatures run_natives committed [14] [0] [[1, 2]] run_cert = Ok a"
      "finalize_withdrawal run_natives a [14] [[3, 4]] run_cert 700 = Ok b"
      "confirm_withdrawal run_natives b [14] run_cert 800 = Ok settled"
    using run_settled unfolding run_settle_def and_then_eq_Ok by (elim exE conjE) (rule that; assumption)
  then show ?thesis by (intro three_steps [OF bridge_step.sign bridge_step.finalize bridge_step.confirm])
qed

lemma run_reachable:
  "reachable run_natives run_package deposited" "reachable run_natives run_package committed"
  "reachable run_natives run_package settled" "reachable run_natives run_package deposited_twice"
  using launched_reachable deposit_steps commit_steps settle_steps twice_steps by (blast intro: steps_reachable)+

end
