(* ===== verification/Move_Bridge_Traces.thy ===== *)
theory Move_Bridge_Traces
  imports Move_Bridge_Reach
begin

text \<open>
  What holds along the runs of the bridge: a committed transaction keeps what it pays, a nonce stays
  with its transaction, the archival of a confirmed transaction in any chunks ends where a single
  call ends, a paused bridge moves no value, and the TLS key index follows the member registry.
\<close>

section \<open>Transactions and nonces\<close>

lemma same_payment_trans: "same_payment a b \<Longrightarrow> same_payment b c \<Longrightarrow> same_payment a c"
  by (auto simp: same_payment_def)

lemma txns_kept_trans:
  assumes "txns_kept p q" "txns_kept q r"
  shows "txns_kept p r"
  unfolding txns_kept_def
proof (intro allI impI)
  fix w t assume "txn_of p w = Some t"
  then obtain s where s: "txn_of q w = Some s" "same_payment t s" using assms(1) by (auto simp: txns_kept_def)
  then obtain u where "txn_of r w = Some u" "same_payment s u" using assms(2) by (auto simp: txns_kept_def)
  then show "\<exists>u. txn_of r w = Some u \<and> same_payment t u" using s(2) same_payment_trans by blast
qed

lemma run_keeps:
  assumes "(bridge_step nt pkg)\<^sup>*\<^sup>* h h'" "reachable nt pkg h"
  shows "reachable nt pkg h' \<and> pool_grows (hs_pool h) (hs_pool h') \<and> txns_kept (hs_queue h) (hs_queue h')"
  using assms
proof (induction rule: rtranclp_induct)
  case base
  then show ?case by (simp add: pool_grows_refl txns_kept_def)
next
  case (step x y)
  then have x: "reachable nt pkg x" "pool_grows (hs_pool h) (hs_pool x)" "txns_kept (hs_queue h) (hs_queue x)" by auto
  have g: "good_step x y" by (rule bridge_step_good [OF step.hyps(2) reachable_ok [OF x(1)]])
  then have "pool_grows (hs_pool x) (hs_pool y)" "txns_kept (hs_queue x) (hs_queue y)" by (auto simp: good_step_def)
  then show ?case
    using x reachable.step [OF x(1) step.hyps(2)] pool_grows_trans txns_kept_trans by blast
qed

text \<open>The nonce \<open>n\<close> of epoch \<open>e\<close> is spoken for by the transaction \<open>w\<close>.\<close>

definition nonce_held :: "u64 \<Rightarrow> u64 \<Rightarrow> address \<Rightarrow> Hashi \<Rightarrow> bool" where
  "nonce_held e n w h \<longleftrightarrow>
     has_committee (hs_committee_set h) e \<and> pending_epoch_change (hs_committee_set h) \<noteq> Some e \<and>
     (st_epoch (hs_committee_set h) = e \<longrightarrow> n < num_consumed (hs_presig_allocator h)) \<and>
     (\<forall>w' t'. txn_of (hs_queue h) w' = Some t' \<longrightarrow> batch_epoch t' = e \<longrightarrow> n \<in> set (batch_nonces t') \<longrightarrow> w' = w)"

lemma nonce_held_now:
  assumes ok: "nonces_ok (hs_committee_set h) (hs_presig_allocator h) (hs_queue h)"
    and t: "txn_of (hs_queue h) w = Some t" "n \<in> set (batch_nonces t)"
  shows "nonce_held (batch_epoch t) n w h"
  unfolding nonce_held_def
proof (intro conjI allI impI)
  note k = nonces_okD [OF ok t(1)]
  show "has_committee (hs_committee_set h) (batch_epoch t)"
    "pending_epoch_change (hs_committee_set h) \<noteq> Some (batch_epoch t)" by (rule k)+
  show "n < num_consumed (hs_presig_allocator h)" if "st_epoch (hs_committee_set h) = batch_epoch t"
    using k(4) that t(2) by simp
  fix w' t' assume "txn_of (hs_queue h) w' = Some t'" "batch_epoch t' = batch_epoch t" "n \<in> set (batch_nonces t')"
  then show "w' = w" using k(5) [of w' t'] t(2) by auto
qed

lemma nonce_held_step:
  assumes held: "nonce_held e n w h" and m: "nonces_move h h'"
  shows "nonce_held e n w h'"
proof -
  let ?cs = "hs_committee_set h" and ?cs' = "hs_committee_set h'"
    and ?a = "hs_presig_allocator h" and ?a' = "hs_presig_allocator h'"
  note M = m [unfolded nonces_move_def Let_def]
  have c: "has_committee ?cs e" "pending_epoch_change ?cs \<noteq> Some e" using held by (auto simp: nonce_held_def)
  have c': "has_committee ?cs' e \<and> pending_epoch_change ?cs' \<noteq> Some e" using M c by blast
  have n': "n < num_consumed ?a'" if "st_epoch ?cs' = e"
  proof -
    have "st_epoch ?cs' = st_epoch ?cs" "num_consumed ?a \<le> num_consumed ?a'" using M c(2) that by auto
    moreover from this have "n < num_consumed ?a" using held that by (simp add: nonce_held_def)
    ultimately show ?thesis by simp
  qed
  have "w' = w" if t': "txn_of (hs_queue h') w' = Some t'" "batch_epoch t' = e" "n \<in> set (batch_nonces t')" for w' t'
  proof -
    consider t where "txn_of (hs_queue h) w' = Some t" "batch_epoch t' = batch_epoch t"
        "set (batch_nonces t') \<subseteq> set (batch_nonces t)"
      | "batch_epoch t' = st_epoch ?cs" "\<forall>k \<in> set (batch_nonces t'). num_consumed ?a \<le> k"
      using M t'(1) by blast
    then show ?thesis
    proof cases
      case (1 t)
      then show ?thesis using held t'(2,3) by (auto simp: nonce_held_def)
    next
      case 2
      then have "num_consumed ?a \<le> n" "n < num_consumed ?a" using held t'(2,3) by (auto simp: nonce_held_def)
      then show ?thesis by simp
    qed
  qed
  then show ?thesis using c' n' by (simp add: nonce_held_def)
qed

lemma nonce_held_run:
  assumes "(bridge_step nt pkg)\<^sup>*\<^sup>* h h'" "reachable nt pkg h" "nonce_held e n w h"
  shows "nonce_held e n w h'"
  using assms
proof (induction rule: rtranclp_induct)
  case (step x y)
  have "reachable nt pkg x" using run_keeps [OF step.hyps(1)] step.prems by blast
  then have "good_step x y" by (intro bridge_step_good [OF step.hyps(2)] reachable_ok)
  then show ?case using nonce_held_step step by (auto simp: good_step_def)
qed simp

section \<open>Archival\<close>

text \<open>The queue after the requests \<open>S\<close> are archived.\<close>

definition archived :: "address set \<Rightarrow> WithdrawalRequestQueue \<Rightarrow> WithdrawalRequestQueue" where
  "archived S q = q
     \<lparr>wq_requests := (\<lambda>i. if i \<in> S then None else wq_requests q i),
      wq_processed := (\<lambda>i. if i \<in> S \<and> wq_requests q i \<noteq> None then wq_requests q i else wq_processed q i)\<rparr>"

definition archivable :: "address \<Rightarrow> address set \<Rightarrow> WithdrawalRequestQueue \<Rightarrow> bool" where
  "archivable w S q \<longleftrightarrow>
     (\<forall>i r. i \<in> S \<longrightarrow> wq_requests q i = Some r \<longrightarrow> wr_withdrawal_txn_id r = Some w \<and> wq_processed q i = None)"

lemma archived_empty: "archived {} q = q"
  by (simp add: archived_def)

lemma archived_archived: "archived T (archived S q) = archived (S \<union> T) q"
  by (rule WithdrawalRequestQueue.equality) (auto simp: archived_def fun_eq_iff)

lemma archivable_archived: "archivable w T q \<Longrightarrow> archivable w T (archived S q)"
  by (auto simp: archivable_def archived_def split: if_splits)

lemma archived_txns [simp]:
  "wq_withdrawal_txns (archived S q) = wq_withdrawal_txns q" "wq_confirmed_txns (archived S q) = wq_confirmed_txns q"
  by (simp_all add: archived_def)

lemma archive_request_archived:
  assumes "archivable w {i} q"
  shows "archive_request w i q = Ok (archived {i} q)"
proof (cases "wq_requests q i")
  case None
  then show ?thesis by (auto simp: archive_request_Ok archived_def fun_eq_iff)
next
  case (Some r)
  then show ?thesis using assms by (auto simp: archive_request_Ok archived_def archivable_def fun_eq_iff)
qed

lemma archive_loop_archived:
  "archivable w (set is) q \<Longrightarrow> do_each (archive_request w) is q = Ok (archived (set is) q)"
proof (induction "is" arbitrary: q)
  case (Cons i js)
  then have "archivable w {i} q" "archivable w (set js) q" by (auto simp: archivable_def)
  then show ?case
    using Cons.IH [OF archivable_archived, of q "{i}"] by (simp add: archive_request_archived archived_archived)
qed (simp add: archived_empty)

lemma archive_chunks:
  assumes "wq_withdrawal_txns (hs_queue h) w = Some t" "wt_confirmed_timestamp_ms t \<noteq> None"
    and "assert_enabled h = Ok ()" "archivable w (set (concat chunks)) (hs_queue h)"
  shows "do_each (\<lambda>ids h. archive_requests_entry h w ids) chunks h =
    Ok (with_queue h (archived (set (concat chunks)) (hs_queue h)))"
  using assms
proof (induction chunks arbitrary: h)
  case Nil
  then show ?case by (simp add: archived_empty with_queue_def)
next
  case (Cons ids chunks)
  let ?h = "with_queue h (archived (set ids) (hs_queue h))"
  have a: "archivable w (set ids) (hs_queue h)" "archivable w (set (concat chunks)) (hs_queue h)"
    using Cons.prems(4) by (auto simp: archivable_def)
  have e: "archive_requests_entry h w ids = Ok ?h"
    using Cons.prems(1-3) archive_loop_archived [OF a(1)]
    by (simp add: archive_requests_entry_def archive_withdrawal_requests_def)
  have "do_each (\<lambda>ids h. archive_requests_entry h w ids) chunks ?h =
      Ok (with_queue ?h (archived (set (concat chunks)) (hs_queue ?h)))"
    using Cons.prems(1-3) archivable_archived [OF a(2)]
    by (intro Cons.IH) (simp_all add: assert_enabled_def with_queue_def)
  then show ?case using e by (simp add: archived_archived) (simp add: with_queue_def)
qed

lemma txn_request_linked:
  assumes ok: "queue_ok q" and t: "txn_of q w = Some t" and i: "i \<in> set (wt_request_ids t)"
  shows "\<exists>r. request_of q i = Some r \<and> wr_withdrawal_txn_id r = Some w"
proof -
  obtain k where k: "k < length (wt_request_ids t)" "wt_request_ids t ! k = i" using i by (auto simp: in_set_conv_nth)
  obtain share where "\<forall>k < length (wt_request_ids t). pays_request q t share k"
    using queue_okD(8) [OF ok t] unfolding pays_def by blast
  then have "pays_request q t share k" using k(1) by blast
  then show ?thesis using k(2) queue_okD(6) [OF ok t] by (auto simp: pays_request_def)
qed

lemma txn_archivable:
  assumes ok: "queue_ok q" and t: "txn_of q w = Some t"
  shows "archivable w (set (wt_request_ids t)) q"
  unfolding archivable_def
proof (intro allI impI)
  fix i r assume i: "i \<in> set (wt_request_ids t)" "wq_requests q i = Some r"
  then have "request_of q i = Some r" by (simp add: request_of_def)
  then have "wr_withdrawal_txn_id r = Some w" using txn_request_linked [OF ok t i(1)] by simp
  then show "wr_withdrawal_txn_id r = Some w \<and> wq_processed q i = None" using queue_okD(1) [OF ok i(2)] by simp
qed

section \<open>A paused bridge\<close>

lemma paused_closed:
  assumes "paused (hs_config h) = Ok True"
  shows "assert_open h \<noteq> Ok u" "assert_operating h \<noteq> Ok u"
  using assms by (auto simp: assert_operating_def assert_open_def assert_unpaused_def)

lemmas paused_entries =
  deposit_def approve_deposit_def confirm_deposit_def request_withdrawal_def approve_request_def
  commit_withdrawal_tx_def commit_input_signatures_def finalize_withdrawal_def confirm_withdrawal_def
  reallocate_presigs_def

text \<open>Nothing is minted, burned, committed, signed, confirmed or approved.\<close>

definition value_frozen :: "Hashi \<Rightarrow> Hashi \<Rightarrow> bool" where
  "value_frozen h h' \<longleftrightarrow>
     hbtc_supply h' = hbtc_supply h \<and> dq_processed (hs_deposits h') = dq_processed (hs_deposits h) \<and>
     txn_of (hs_queue h') = txn_of (hs_queue h) \<and>
     (\<forall>i r. wq_requests (hs_queue h') i = Some r \<longrightarrow> wq_requests (hs_queue h) i = Some r)"

lemma value_frozen_same:
  assumes "hbtc_supply h' = hbtc_supply h" "dq_processed (hs_deposits h') = dq_processed (hs_deposits h)"
    "hs_queue h' = hs_queue h"
  shows "value_frozen h h'"
  using assms by (simp add: value_frozen_def)

lemma value_frozen_queue:
  assumes "txn_of q = txn_of (hs_queue h)" "\<And>i r. wq_requests q i = Some r \<Longrightarrow> wq_requests (hs_queue h) i = Some r"
  shows "value_frozen h (with_queue h q)"
  using assms by (simp add: value_frozen_def hbtc_supply_def)

text \<open>The archival of requests and transactions only takes requests out of the queue.\<close>

definition only_archives :: "WithdrawalRequestQueue \<Rightarrow> WithdrawalRequestQueue \<Rightarrow> bool" where
  "only_archives q q' \<longleftrightarrow> txn_of q' = txn_of q \<and>
     (\<forall>i r. wq_requests q' i = Some r \<longrightarrow> wq_requests q i = Some r)"

lemma archive_request_only: "archive_request w i q = Ok q' \<Longrightarrow> only_archives q q'"
  using archive_request_txn_of [of w i q q']
  by (auto simp: only_archives_def archive_request_Ok split: option.splits if_splits)

lemma only_archives_loop:
  assumes "do_each f xs q = Ok q'" "\<And>x q q'. f x q = Ok q' \<Longrightarrow> only_archives q q'"
  shows "only_archives q q'"
  by (rule do_each_preserves [OF assms(1), where P = "only_archives q"])
    (auto simp: only_archives_def dest!: assms(2))

lemma move_to_confirmed_only: "move_to_confirmed w q = Ok q' \<Longrightarrow> only_archives q q'"
  using move_to_confirmed_txn_of [of w q q'] by (auto simp: only_archives_def move_to_confirmed_Ok)

lemma only_archives_trans: "only_archives p q \<Longrightarrow> only_archives q r \<Longrightarrow> only_archives p r"
  by (auto simp: only_archives_def)

lemma only_archives_refl: "only_archives q q"
  by (simp add: only_archives_def)

lemma archive_ops_only:
  "archive_withdrawal_txn w q = Ok q' \<Longrightarrow> only_archives q q'"
  "archive_withdrawal_requests w is q = Ok q' \<Longrightarrow> only_archives q q'"
  "finish_archive_withdrawal_txn w q = Ok q' \<Longrightarrow> only_archives q q'"
proof -
  have l: "do_each (archive_request w) xs q = Ok s \<Longrightarrow> only_archives q s" for xs s
    by (erule only_archives_loop) (rule archive_request_only)
  show "only_archives q q'" if "archive_withdrawal_txn w q = Ok q'"
    using that by (auto simp: archive_withdrawal_txn_def only_archives_refl split: option.splits
        dest!: l move_to_confirmed_only intro: only_archives_trans)
  show "only_archives q q'" if "archive_withdrawal_requests w is q = Ok q'"
    using that by (auto simp: archive_withdrawal_requests_def only_archives_refl split: option.splits dest!: l)
  show "only_archives q q'" if "finish_archive_withdrawal_txn w q = Ok q'"
    using that by (auto simp: finish_archive_withdrawal_txn_def only_archives_refl split: option.splits if_splits
        dest!: move_to_confirmed_only)
qed

lemma only_archives_frozen: "only_archives (hs_queue h) q \<Longrightarrow> value_frozen h (with_queue h q)"
  by (auto simp: only_archives_def intro: value_frozen_queue)

lemma paused_step_frozen:
  assumes "bridge_step nt pkg h h'" "paused (hs_config h) = Ok True"
  shows "value_frozen h h'"
  using assms
proof (cases rule: bridge_step.cases)
  case publish
  then have "t_treasury_cap (hs_treasury h) = None" "t_treasury_cap (hs_treasury h') = Some 0" "hs_bitcoin h' = hs_bitcoin h"
    by (auto simp: finish_publish_def Let_def register_treasury_cap_def register_metadata_cap_def
        split: option.splits if_splits)
  then show ?thesis by (intro value_frozen_same) (simp_all add: hbtc_supply_def)
next
  case delete_expired
  then show ?thesis
    by (intro value_frozen_same) (auto simp: delete_expired_deposit_def delete_expired_def hbtc_supply_def)
next
  case (cancel i clock ctx btc)
  then obtain q where q: "cancel_withdrawal_request (hs_queue h) i = Ok (btc, q)" "hs_queue h' = q"
      "hs_treasury h' = hs_treasury h" "hs_deposits h' = hs_deposits h"
    by (auto simp: cancel_withdrawal_def Let_def)
  then show ?thesis
    using request_ops_txns(3) [OF q(1)] by (auto simp: value_frozen_def hbtc_supply_def cancel_withdrawal_request_Ok split: if_splits)
next
  case archive
  then show ?thesis
    by (auto simp: archive_confirmed_withdrawals_def intro!: only_archives_frozen
        elim!: only_archives_loop dest: archive_ops_only(1))
next
  case archive_chunk
  then show ?thesis by (auto simp: archive_requests_entry_def intro!: only_archives_frozen dest: archive_ops_only(2))
next
  case finish_archive
  then show ?thesis
    by (auto simp: finish_archive_withdrawal_txns_def intro!: only_archives_frozen
        elim!: only_archives_loop dest: archive_ops_only(3))
next
  case cleanup
  then show ?thesis by (intro value_frozen_same) (auto simp: cleanup_spent_utxos_def hbtc_supply_def)
next
  case start
  then show ?thesis by (intro value_frozen_same) (auto simp: start_reconfig_def hbtc_supply_def)
next
  case complete
  then show ?thesis
    by (intro value_frozen_same)
      (auto simp: end_reconfig_def reset_presig_allocator_def Let_def hbtc_supply_def split: if_splits)
next
  case handoff
  then show ?thesis
    by (intro value_frozen_same) (auto simp: submit_committee_handoff_def Let_def hbtc_supply_def split: if_splits)
next
  case abort
  then show ?thesis by (intro value_frozen_same) (auto simp: abort_reconfig_def hbtc_supply_def)
next
  case registry
  then show ?thesis by (intro value_frozen_same) (simp_all add: hbtc_supply_def)
next
  case governance
  then show ?thesis by (intro value_frozen_same) (simp_all add: hbtc_supply_def)
qed (simp_all add: paused_entries paused_closed)

section \<open>The TLS key index\<close>

lemma tls_index_mut:
  "member_mut s a (authorized ctx f) = Ok s' \<Longrightarrow> tls_index_ok s \<Longrightarrow>
   (\<And>m. mi_tls_public_key (f m) = mi_tls_public_key m) \<Longrightarrow> tls_index_ok s'"
  "member_mut s a (\<lambda>m. Ok (f m)) = Ok s' \<Longrightarrow> tls_index_ok s \<Longrightarrow>
   (\<And>m. mi_tls_public_key (f m) = mi_tls_public_key m) \<Longrightarrow> tls_index_ok s'"
  by (erule (1) tls_index_member_mut; auto simp: authorized_def)+

lemma member_ops_mut:
  "set_next_epoch_public_key nt s h a key sig ctx = Ok s' \<Longrightarrow>
     \<exists>k. member_mut s a (authorized ctx (\<lambda>m. m\<lparr>mi_next_epoch_public_key := k\<rparr>)) = Ok s'"
  "set_next_epoch_encryption_public_key s a key ctx = Ok s' \<Longrightarrow>
     member_mut s a (authorized ctx (\<lambda>m. m\<lparr>mi_next_epoch_encryption_public_key := key\<rparr>)) = Ok s'"
  "request_resignation s a ctx = Ok s' \<Longrightarrow> member_mut s a (\<lambda>m. Ok (m\<lparr>mi_resigned := True\<rparr>)) = Ok s'"
  "clear_resignation s a ctx = Ok s' \<Longrightarrow> member_mut s a (\<lambda>m. Ok (m\<lparr>mi_resigned := False\<rparr>)) = Ok s'"
  "set_member_ignored s a b = Ok s' \<Longrightarrow> member_mut s a (\<lambda>m. Ok (m\<lparr>mi_ignored := b\<rparr>)) = Ok s'"
  by (simp_all add: set_next_epoch_public_key_def set_next_epoch_encryption_public_key_def
      request_resignation_def clear_resignation_def set_member_ignored_def del: split_paired_Ex) blast+

lemma registry_step_tls:
  assumes "registry_step nt s s'" "tls_index_ok s"
  shows "tls_index_ok s'"
  using assms(1)
proof (cases rule: registry_step.cases)
  case register
  then show ?thesis using assms(2) by (rule tls_index_register)
next
  case (update_key h a key sig ctx)
  then obtain k where "member_mut s a (authorized ctx (\<lambda>m. m\<lparr>mi_next_epoch_public_key := k\<rparr>)) = Ok s'"
    using member_ops_mut(1) by blast
  then show ?thesis by (rule tls_index_mut(1) [OF _ assms(2)]) simp
next
  case update_operator
  then show ?thesis unfolding set_operator_address_def by (rule tls_index_mut(1) [OF _ assms(2)]) simp
next
  case update_endpoint
  then show ?thesis unfolding set_endpoint_url_def by (rule tls_index_mut(1) [OF _ assms(2)]) simp
next
  case update_tls
  then show ?thesis using tls_index_write [OF _ assms(2)] by (auto simp: set_tls_public_key_def)
next
  case update_encryption
  from member_ops_mut(2) [OF this] show ?thesis by (rule tls_index_mut(1) [OF _ assms(2)]) simp
next
  case resign
  from member_ops_mut(3) [OF this] show ?thesis by (rule tls_index_mut(2) [OF _ assms(2)]) simp
next
  case withdraw_resignation
  from member_ops_mut(4) [OF this] show ?thesis by (rule tls_index_mut(2) [OF _ assms(2)]) simp
next
  case remove_inactive
  then show ?thesis using tls_index_remove [OF _ assms(2)] by (auto simp: remove_inactive_member_def)
next
  case ignore
  from member_ops_mut(5) [OF this] show ?thesis by (rule tls_index_mut(2) [OF _ assms(2)]) simp
qed

lemma entry_committees:
  "finish_publish pkg h cap chain url node_url key threshold delay = Ok h' \<Longrightarrow> hs_committee_set h' = hs_committee_set h"
  "deposit h utxo clock ctx = Ok h' \<Longrightarrow> hs_committee_set h' = hs_committee_set h"
  "approve_deposit nt h i cert clock = Ok h' \<Longrightarrow> hs_committee_set h' = hs_committee_set h"
  "delete_expired_deposit h i clock = Ok h' \<Longrightarrow> hs_committee_set h' = hs_committee_set h"
  "request_withdrawal h clock amount addr ctx = Ok h' \<Longrightarrow> hs_committee_set h' = hs_committee_set h"
  "cancel_withdrawal h i clock ctx = Ok (btc, h') \<Longrightarrow> hs_committee_set h' = hs_committee_set h"
  "approve_request nt h i cert clock = Ok h' \<Longrightarrow> hs_committee_set h' = hs_committee_set h"
  "commit_input_signatures nt h w is sigs cert = Ok h' \<Longrightarrow> hs_committee_set h' = hs_committee_set h"
  "finalize_withdrawal nt h w gs cert clock = Ok h' \<Longrightarrow> hs_committee_set h' = hs_committee_set h"
  "confirm_withdrawal nt h w cert clock = Ok h' \<Longrightarrow> hs_committee_set h' = hs_committee_set h"
  "archive_confirmed_withdrawals h ws = Ok h' \<Longrightarrow> hs_committee_set h' = hs_committee_set h"
  "archive_requests_entry h w ids = Ok h' \<Longrightarrow> hs_committee_set h' = hs_committee_set h"
  "finish_archive_withdrawal_txns h ws = Ok h' \<Longrightarrow> hs_committee_set h' = hs_committee_set h"
  "reallocate_presigs h w rnd = Ok h' \<Longrightarrow> hs_committee_set h' = hs_committee_set h"
  "cleanup_spent_utxos h us = Ok h' \<Longrightarrow> hs_committee_set h' = hs_committee_set h"
  by (auto simp: finish_publish_def deposit_def approve_deposit_def delete_expired_deposit_def
      request_withdrawal_def cancel_withdrawal_def approve_request_def commit_input_signatures_def
      finalize_withdrawal_def confirm_withdrawal_def archive_confirmed_withdrawals_def
      archive_requests_entry_def finish_archive_withdrawal_txns_def reallocate_presigs_def
      allocate_presigs_def cleanup_spent_utxos_def Let_def)

lemma bridge_step_tls:
  assumes "bridge_step nt pkg h h'" "tls_index_ok (hs_committee_set h)"
  shows "tls_index_ok (hs_committee_set h')"
proof -
  have same: "hs_committee_set h' = hs_committee_set h \<Longrightarrow> ?thesis" using assms(2) by simp
  have cong: "st_members (hs_committee_set h') = st_members (hs_committee_set h) \<Longrightarrow>
      st_tls_public_keys (hs_committee_set h') = st_tls_public_keys (hs_committee_set h) \<Longrightarrow> ?thesis"
    using assms(2) by (intro tls_index_cong [OF _ _ assms(2)]) simp_all
  show ?thesis
    using assms(1)
  proof (cases rule: bridge_step.cases)
    case (registry s)
    then show ?thesis using registry_step_tls assms(2) by simp
  next
    case start
    then show ?thesis
      by (intro cong) (auto simp: start_reconfig_def start_reconfig_from_voting_powers_def Let_def)
  next
    case complete
    then show ?thesis
      by (intro cong) (auto simp: end_reconfig_def reset_presig_allocator_def committee_set_end_reconfig_def
          insert_committee_handoff_def Let_def split: if_splits)
  next
    case handoff
    then show ?thesis
      by (intro cong) (auto simp: submit_committee_handoff_def set_pending_committee_handoff_cert_def Let_def split: if_splits)
  next
    case abort
    then show ?thesis
      by (intro cong) (auto simp: abort_reconfig_def committee_set_abort_reconfig_def Let_def)
  next
    case confirm_deposit
    then show ?thesis by (intro same) (erule confirm_deposit_Ok)
  next
    case commit
    then show ?thesis by (intro same) (erule commit_withdrawal_tx_Ok)
  next
    case governance
    then show ?thesis by (intro same) simp
  qed (erule entry_committees [THEN same])+
qed

end
