(* ===== verification/Move_Bridge_Props.thy ===== *)
theory Move_Bridge_Props
  imports Move_Bridge_Run Move_Bridge_Traces
begin

text \<open>
  The properties of the bridge as a whole, over every reachable state and every run, each with a
  witness in the sample run.
\<close>

section \<open>Solvency\<close>

text \<open>
  C1: In every reachable state the bitcoin the pool can still spend is exactly the circulating
  supply of hBTC together with the deposits that carried no recipient: no entry function, in any
  order, creates hBTC that is not backed or strands bitcoin that was. Here and below the steps of a
  run give a new request or transaction an id that no kept one has, as Sui does.
\<close>
theorem bridge_solvency:
  assumes "reachable nt pkg h"
  shows "available (hs_pool h) = hbtc_supply h + unminted (hs_deposits h)"
  using reachable_ok [OF assms] by (simp add: bridge_ok_def backed_def)

theorem bridge_solvency_witness:
  "hbtc_supply deposited = 100000 \<and> hbtc_supply committed = 40000 \<and>
   available (hs_pool deposited) = 100000 + unminted (hs_deposits deposited) \<and>
   available (hs_pool committed) = 40000 + unminted (hs_deposits committed)"
proof -
  have "hbtc_supply deposited = 100000" "hbtc_supply committed = 40000"
    by (simp_all add: hbtc_supply_def deposited_def committed_def)
  then show ?thesis
    using bridge_solvency [OF run_reachable(1)] bridge_solvency [OF run_reachable(2)] by simp
qed

section \<open>Coins\<close>

text \<open>
  C3: An outpoint funds one withdrawal transaction, ever: if transactions of a state and of any
  later state spend the same outpoint, they are the same transaction and spend the same coin, and
  within a transaction the outpoints are distinct.
\<close>
theorem outpoint_spent_once:
  assumes r: "reachable nt pkg h" and s: "(bridge_step nt pkg)\<^sup>*\<^sup>* h h'"
    and t: "txn_of (hs_queue h) w = Some t" "u \<in> set (wt_inputs t)"
    and t': "txn_of (hs_queue h') w' = Some t'" "u' \<in> set (wt_inputs t')"
    and same: "u_id u = u_id u'"
  shows "w' = w \<and> u' = u \<and> distinct (map u_id (wt_inputs t'))"
proof -
  obtain v where v: "txn_of (hs_queue h') w = Some v" "same_payment t v"
    using run_keeps [OF s r] t(1) by (auto simp: txns_kept_def)
  have ok: "inputs_ok (hs_pool h') (hs_queue h')"
    using run_keeps [OF s r] reachable_ok by (auto simp: bridge_ok_def)
  have u: "u \<in> set (wt_inputs v)" using t(2) same_payment_inputs(1) [OF v(2)] by simp
  have w: "w' = w" using inputs_okD(3) [OF ok v(1) u t'] same by simp
  then have "t' = v" using v(1) t'(1) by simp
  then have "u' = u" using inputs_okD(1) [OF ok v(1)] u t'(2) same by (auto simp: distinct_map inj_on_def)
  then show ?thesis using w inputs_okD(1) [OF ok t'(1)] by simp
qed

theorem outpoint_spent_once_witness:
  "\<exists>t t'. txn_of (hs_queue committed) [14] = Some t \<and> txn_of (hs_queue settled) [14] = Some t' \<and>
     run_utxo \<in> set (wt_inputs t) \<and> run_utxo \<in> set (wt_inputs t') \<and> distinct (map u_id (wt_inputs t'))"
proof -
  have t: "txn_of (hs_queue committed) [14] = Some run_txn" "run_utxo \<in> set (wt_inputs run_txn)"
    by (simp_all add: txn_of_def committed_def run_txn_def)
  obtain t' where t': "txn_of (hs_queue settled) [14] = Some t'" "run_utxo \<in> set (wt_inputs t')"
    by (simp add: txn_of_def settled_def run_txn_def)
  show ?thesis
    using outpoint_spent_once [OF run_reachable(2) settle_steps t t' refl] t t' by blast
qed

text \<open>
  C8: A deposit is credited once: after a deposit of an outpoint is confirmed, no request for the
  same outpoint is ever confirmed again, in whatever later state, not even after the coin has been
  spent and its record cleaned up.
\<close>
theorem deposit_never_replayed:
  assumes r: "reachable nt pkg h" and c: "confirm_deposit nt h i clock = Ok h1"
    and d: "dq_requests (hs_deposits h) i = Some request"
    and s: "(bridge_step nt pkg)\<^sup>*\<^sup>* h1 h2"
    and d': "dq_requests (hs_deposits h2) j = Some request'"
    and same: "u_id (dr_utxo request') = u_id (dr_utxo request)"
  shows "confirm_deposit nt h2 j clock' \<noteq> Ok h3"
proof
  assume c': "confirm_deposit nt h2 j clock' = Ok h3"
  have r1: "reachable nt pkg h1" by (rule reachable.step [OF r bridge_step.confirm_deposit [OF c]])
  have "insert_active (dr_utxo request) (hs_pool h) = Ok (hs_pool h1)"
    using c by (rule confirm_deposit_Ok) (use d in simp)
  then have "is_spent_or_active (hs_pool h1) (u_id (dr_utxo request))"
    by (auto simp: insert_active_Ok is_spent_or_active_def bag_contains_def)
  then have "is_spent_or_active (hs_pool h2) (u_id (dr_utxo request'))"
    using run_keeps [OF s r1] same by (auto intro: pool_growsD(1))
  moreover have "\<not> is_spent_or_active (hs_pool h2) (u_id (dr_utxo request'))"
    using c' by (rule confirm_deposit_Ok) (use d' in simp)
  ultimately show False by simp
qed

theorem deposit_never_replayed_witness:
  "\<exists>h request'. confirm_deposit run_natives deposited_twice [12] 300 = Ok h \<and>
     dq_requests (hs_deposits h) [15] = Some request' \<and> u_id (dr_utxo request') = u_id run_utxo \<and>
     (\<forall>clock h'. confirm_deposit run_natives h [15] clock \<noteq> Ok h')"
proof -
  define request where "request = run_deposited\<lparr>dr_confirmed_timestamp_ms := None\<rparr>"
  have d: "dq_requests (hs_deposits deposited_twice) [12] = Some request"
    by (simp add: deposited_twice_def request_def)
  obtain h where h: "confirm_deposit run_natives deposited_twice [12] 300 = Ok h"
      "dq_requests (hs_deposits h) [15] = Some (create_deposit run_utxo 150 (run_ctx [15]))"
    by (simp add: launched_def deposited_twice_def eval_rules)
  have e: "u_id (dr_utxo (create_deposit run_utxo 150 (run_ctx [15]))) = u_id (dr_utxo request)"
    by (simp add: create_deposit_def request_def run_deposited_def)
  have "confirm_deposit run_natives h [15] clock \<noteq> Ok h'" for clock h'
    by (rule deposit_never_replayed [OF run_reachable(4) h(1) d rtranclp.rtrancl_refl h(2) e])
  then show ?thesis using h by (intro exI conjI allI) (auto simp: create_deposit_def)
qed

section \<open>Requests\<close>

text \<open>
  C4: A request committed to a transaction is paid by that transaction and by no other, now and at
  any later time: the transaction is never dropped or changed in what it pays (\<open>same_payment\<close>); its
  inputs are worth its outputs, its change and one equal fee share per request, and its output for
  each request is the requested amount less the share, at least the dust limit, to the requested
  address (\<open>pays\<close>); and no other transaction names any of its requests.
\<close>
theorem request_paid_once:
  assumes r: "reachable nt pkg h" and s: "(bridge_step nt pkg)\<^sup>*\<^sup>* h h'"
    and t: "txn_of (hs_queue h) w = Some t"
  shows "\<exists>t'. txn_of (hs_queue h') w = Some t' \<and> same_payment t t' \<and> pays (hs_queue h') t' \<and>
    (\<forall>v i. (\<exists>t''. txn_of (hs_queue h') v = Some t'' \<and> i \<in> set (wt_request_ids t'')) \<and>
       i \<in> set (wt_request_ids t) \<longrightarrow> v = w)"
proof -
  note keep = run_keeps [OF s r]
  have ok: "queue_ok (hs_queue h')" using keep reachable_ok by (auto simp: bridge_ok_def)
  obtain t' where t': "txn_of (hs_queue h') w = Some t'" and same: "same_payment t t'"
    using keep t by (auto simp: txns_kept_def)
  have ids: "wt_request_ids t = wt_request_ids t'" using same by (simp add: same_payment_def)
  have "v = w" if v: "txn_of (hs_queue h') v = Some t''" "i \<in> set (wt_request_ids t'')"
    and i: "i \<in> set (wt_request_ids t)" for v t'' i
    using txn_request_linked [OF ok v] txn_request_linked [OF ok t', of i] i ids by auto
  then show ?thesis using t' same queue_okD(8) [OF ok t'] by blast
qed

theorem request_paid_once_witness:
  "\<exists>t'. txn_of (hs_queue settled) [14] = Some t' \<and> same_payment run_txn t' \<and> pays (hs_queue settled) t' \<and>
     wt_request_ids run_txn = [[13]]"
proof -
  have "txn_of (hs_queue committed) [14] = Some run_txn" by (simp add: txn_of_def committed_def)
  from request_paid_once [OF run_reachable(2) settle_steps this] show ?thesis
    by (auto simp: run_txn_def)
qed

text \<open>
  C17: The records of the queue are well formed in every reachable state. A waiting request is filed
  under its own id, is approved if it is committed, and holds its whole amount until it is committed
  and nothing afterwards. A transaction is filed under its own id, has distinct requests with one
  output each, fewer than 2^32 outputs, at least one input and a signing slot for each, guardian
  signatures only with a complete batch, and is confirmed only when fully signed.
\<close>
theorem queue_well_formed:
  assumes "reachable nt pkg h"
  shows "(\<forall>i r. wq_requests (hs_queue h) i = Some r \<longrightarrow>
      wr_id r = i \<and> (is_committed r \<longrightarrow> is_approved r) \<and>
      wr_btc r = (if is_committed r then 0 else wr_btc_amount r)) \<and>
    (\<forall>w t. txn_of (hs_queue h) w = Some t \<longrightarrow>
      wt_id t = w \<and> wt_request_ids t \<noteq> [] \<and> distinct (wt_request_ids t) \<and> wt_inputs t \<noteq> [] \<and>
      length (wt_withdrawal_outputs t) = length (wt_request_ids t) \<and>
      length (wt_withdrawal_outputs t) + length (wt_change_outputs t) < 2 ^ 32 \<and>
      length (sb_signatures (wt_signing t)) = length (wt_inputs t) \<and>
      (wt_guardian_signatures t \<noteq> None \<longrightarrow> is_complete (wt_signing t)) \<and>
      (wt_confirmed_timestamp_ms t \<noteq> None \<longrightarrow> wt_guardian_signatures t \<noteq> None))"
proof -
  have ok: "queue_ok (hs_queue h)" using reachable_ok [OF assms] by (simp add: bridge_ok_def)
  show ?thesis
    using queue_okD(1,6,7) [OF ok] unfolding txn_shape_def by blast
qed

theorem queue_well_formed_witness:
  "\<exists>r t. wq_requests (hs_queue settled) [13] = Some r \<and> wr_id r = [13] \<and>
     txn_of (hs_queue settled) [14] = Some t \<and> wt_id t = [14] \<and>
     length (sb_signatures (wt_signing t)) = length (wt_inputs t)"
proof -
  obtain r where r: "wq_requests (hs_queue settled) [13] = Some r"
    by (simp add: settled_def committed_def)
  obtain t where t: "txn_of (hs_queue settled) [14] = Some t"
    by (simp add: txn_of_def settled_def)
  note wf = queue_well_formed [OF run_reachable(3)]
  have "wr_id r = [13]" using conjunct1 [OF wf] r by blast
  moreover have "wt_id t = [14] \<and> length (sb_signatures (wt_signing t)) = length (wt_inputs t)"
    using conjunct2 [OF wf] t by blast
  ultimately show ?thesis using r t by blast
qed

section \<open>Presignatures\<close>

text \<open>
  C7: A presignature is never used for two transactions: if a transaction of a state and a
  transaction of any later state wait for a signature under the same nonce of the same epoch, they
  are the same transaction, and the nonces within a transaction are distinct. So the partial
  signatures of two messages never share a nonce.
\<close>
theorem presignature_never_reused:
  assumes r: "reachable nt pkg h" and s: "(bridge_step nt pkg)\<^sup>*\<^sup>* h h'"
    and t: "txn_of (hs_queue h) w = Some t" "n \<in> set (batch_nonces t)"
    and t': "txn_of (hs_queue h') w' = Some t'" "n \<in> set (batch_nonces t')"
    and e: "batch_epoch t' = batch_epoch t"
  shows "w' = w \<and> distinct (batch_nonces t')"
proof -
  have ok: "nonces_ok (hs_committee_set h) (hs_presig_allocator h) (hs_queue h)"
    if "reachable nt pkg h" for h using reachable_ok [OF that] by (simp add: bridge_ok_def)
  have "nonce_held (batch_epoch t) n w h'"
    by (rule nonce_held_run [OF s r nonce_held_now [OF ok [OF r] t]])
  then have "w' = w" using t' e by (simp add: nonce_held_def)
  moreover have "distinct (batch_nonces t')"
    using nonces_okD(3) [OF ok t'(1)] run_keeps [OF s r] by blast
  ultimately show ?thesis by simp
qed

theorem presignature_never_reused_witness:
  "\<exists>t. txn_of (hs_queue committed) [14] = Some t \<and> 0 \<in> set (batch_nonces t) \<and> batch_epoch t = 5 \<and>
     distinct (batch_nonces t)"
proof -
  have t: "txn_of (hs_queue committed) [14] = Some run_txn" "0 \<in> set (batch_nonces run_txn)"
    "batch_epoch run_txn = 5"
    by (simp_all add: txn_of_def committed_def run_txn_def)
  show ?thesis
    using presignature_never_reused [OF run_reachable(2) rtranclp.rtrancl_refl t(1,2) t(1,2) refl] t by blast
qed

section \<open>Archival\<close>

text \<open>
  C18: Archiving a confirmed withdrawal in chunks terminates: whatever the chunks, in whatever order
  and however often a request is repeated, as long as together they name the requests of the
  transaction, every call succeeds, the finishing call succeeds, the transaction and all its
  requests are archived, and the state is the one a single call to archive it would have left.
\<close>
theorem chunked_archival_terminates:
  assumes r: "reachable nt pkg h" and v: "assert_enabled h = Ok ()"
    and t: "wq_withdrawal_txns (hs_queue h) w = Some t" "wt_confirmed_timestamp_ms t \<noteq> None"
    and chunks: "set (concat chunks) = set (wt_request_ids t)"
  shows "\<exists>h1 h2. do_each (\<lambda>ids h. archive_requests_entry h w ids) chunks h = Ok h1 \<and>
    finish_archive_withdrawal_txns h1 [w] = Ok h2 \<and> archive_confirmed_withdrawals h [w] = Ok h2 \<and>
    wq_withdrawal_txns (hs_queue h2) w = None \<and> wq_confirmed_txns (hs_queue h2) w = Some t \<and>
    (\<forall>i \<in> set (wt_request_ids t). wq_requests (hs_queue h2) i = None \<and> wq_processed (hs_queue h2) i \<noteq> None)"
proof -
  let ?q = "hs_queue h" and ?S = "set (wt_request_ids t)"
  have ok: "queue_ok ?q" using reachable_ok [OF r] by (simp add: bridge_ok_def)
  have tx: "txn_of ?q w = Some t" using t(1) by simp
  note arch = txn_archivable [OF ok tx]
  define q1 where "q1 = archived ?S ?q"
  define q2 where "q2 = q1\<lparr>wq_withdrawal_txns := (wq_withdrawal_txns q1)(w := None),
      wq_confirmed_txns := (wq_confirmed_txns q1)(w \<mapsto> t)\<rparr>"
  have done_: "wq_requests q1 i = None" "wq_processed q1 i \<noteq> None" if i: "i \<in> ?S" for i
    using txn_request_linked [OF ok tx i] i by (auto simp: q1_def archived_def request_of_def split: option.splits)
  have move: "move_to_confirmed w q1 = Ok q2"
    using t(1) queue_okD(3) [OF ok t(1)] by (simp add: move_to_confirmed_Ok q2_def q1_def)
  have c: "do_each (\<lambda>ids h. archive_requests_entry h w ids) chunks h = Ok (with_queue h q1)"
    using archive_chunks [OF t v, of chunks] arch chunks by (simp add: q1_def)
  have "bag_contains i (wq_processed q1)" if "i \<in> ?S" for i
    using done_(2) [OF that] by (simp add: bag_contains_def)
  then have "\<not> list_ex (\<lambda>i. \<not> bag_contains i (wq_processed q1)) (wt_request_ids t)" by (simp add: list_ex_iff)
  moreover have "wq_withdrawal_txns q1 w = Some t" using t(1) by (simp add: q1_def)
  ultimately have "finish_archive_withdrawal_txn w q1 = Ok q2"
    using t(2) move by (simp add: finish_archive_withdrawal_txn_def)
  then have f: "finish_archive_withdrawal_txns (with_queue h q1) [w] = Ok (with_queue h q2)"
    using v by (simp add: finish_archive_withdrawal_txns_def assert_enabled_def with_queue_def)
  have "archive_withdrawal_txn w ?q = Ok q2"
    using t move archive_loop_archived [OF arch] by (simp add: archive_withdrawal_txn_def q1_def)
  then have o: "archive_confirmed_withdrawals h [w] = Ok (with_queue h q2)"
    using v by (simp add: archive_confirmed_withdrawals_def)
  show ?thesis
    by (rule exI [of _ "with_queue h q1"], rule exI [of _ "with_queue h q2"])
      (use c f o done_ in \<open>simp add: q2_def\<close>)
qed

theorem chunked_archival_terminates_witness:
  "\<exists>h1 h2. do_each (\<lambda>ids h. archive_requests_entry h [14] ids) [[[13]], [], [[13]]] settled = Ok h1 \<and>
     finish_archive_withdrawal_txns h1 [[14]] = Ok h2 \<and> wq_processed (hs_queue h2) [13] \<noteq> None"
proof -
  obtain t where t: "wq_withdrawal_txns (hs_queue settled) [14] = Some t" "wt_confirmed_timestamp_ms t \<noteq> None"
      "wt_request_ids t = [[13]]"
    by (simp add: settled_def run_txn_def)
  have v: "assert_enabled settled = Ok ()"
    by (simp add: assert_enabled_def assert_version_enabled_def settled_def committed_def launched_def
        ensure_def PACKAGE_VERSION_def)
  have "set (concat [[[13]], [], [[13]]]) = set (wt_request_ids t)" by (simp add: t(3))
  from chunked_archival_terminates [OF run_reachable(3) v t(1,2) this] show ?thesis
    by (auto simp: t(3))
qed

section \<open>Pausing\<close>

text \<open>
  While the bridge is paused no step moves value: whatever is called, the supply of hBTC and the
  spendable bitcoin stay, no deposit is credited, no withdrawal transaction is committed, signed,
  finalised, confirmed or given new presignatures, and the requests still waiting are unchanged, so
  none is approved.
\<close>
theorem paused_bridge_moves_no_value:
  assumes r: "reachable nt pkg h" and p: "paused (hs_config h) = Ok True" and s: "bridge_step nt pkg h h'"
  shows "hbtc_supply h' = hbtc_supply h \<and> available (hs_pool h') = available (hs_pool h) \<and>
    dq_processed (hs_deposits h') = dq_processed (hs_deposits h) \<and>
    txn_of (hs_queue h') = txn_of (hs_queue h) \<and>
    (\<forall>i r. wq_requests (hs_queue h') i = Some r \<longrightarrow> wq_requests (hs_queue h) i = Some r)"
proof -
  have "backed h" "backed h'"
    using reachable_ok [OF r] reachable_ok [OF reachable.step [OF r s]] by (simp_all add: bridge_ok_def)
  then show ?thesis
    using paused_step_frozen [OF s p] by (simp add: value_frozen_def backed_def unminted_def)
qed

theorem paused_bridge_moves_no_value_witness:
  "\<exists>h h'. reachable run_natives run_package h \<and> paused (hs_config h) = Ok True \<and>
     bridge_step run_natives run_package h h' \<and> hbtc_supply h = 40000 \<and> hbtc_supply h' = 40000"
proof -
  let ?v = "hs_versioning committed" and ?e = "hs_epoch_config committed"
  define h where "h = committed\<lparr>hs_config := set_paused (hs_config committed) True,
      hs_epoch_config := ?e, hs_versioning := ?v\<rparr>"
  define h' where "h' = h\<lparr>hs_config := hs_config committed, hs_epoch_config := ?e, hs_versioning := ?v\<rparr>"
  have r: "reachable run_natives run_package h"
    unfolding h_def by (rule reachable.step [OF run_reachable(2) bridge_step.governance])
  have p: "paused (hs_config h) = Ok True"
    by (simp add: h_def set_paused_def paused_def config_upsert_def config_get_def config_try_get_def
        committed_def launched_def)
  have s: "bridge_step run_natives run_package h h'" unfolding h'_def by (rule bridge_step.governance)
  have "hbtc_supply h = 40000" by (simp add: h_def hbtc_supply_def committed_def)
  then show ?thesis using paused_bridge_moves_no_value [OF r p s] r p s by auto
qed

section \<open>The member registry\<close>

text \<open>
  The index of TLS keys agrees with the member registry in every reachable state: a key is
  indexed to an address exactly when it is the nonempty key of the member registered there. So no
  two members share a key and none is left behind by a key change or a removal.
\<close>
theorem tls_index_in_step:
  assumes "reachable nt pkg h"
  shows "st_tls_public_keys (hs_committee_set h) key = Some a \<longleftrightarrow>
    key \<noteq> [] \<and> map_option mi_tls_public_key (st_members (hs_committee_set h) a) = Some key"
proof -
  have "tls_index_ok (hs_committee_set h)"
    using assms
  proof (induction rule: reachable.induct)
    case (launch ctx)
    show ?case by (simp add: hashi_init_def tls_index_create)
  next
    case (step h h')
    show ?case by (rule bridge_step_tls [OF step.hyps(2) step.IH])
  qed
  then show ?thesis unfolding tls_index_ok_def by blast
qed

theorem tls_index_in_step_witness:
  "st_tls_public_keys (hs_committee_set launched) (replicate 32 6) = Some [1]"
  using tls_index_in_step [OF launched_reachable, of "replicate 32 6" "[1]"]
  by (simp add: launched_def)

end
