(* ===== verification/Spec2Isabelle.thy ===== *)
theory Spec2Isabelle
  imports Limiter Coin_Selection_Witness Committee_Props Count_Check_Props
    Deposit_Tracker_Props Move_Bridge_Props
begin

text \<open>
  A verification library for Hashi, a bridge that holds bitcoin for the supply of hBTC on Sui.

  \<^bold>\<open>The program.\<close> A Move package on Sui (\<^verbatim>\<open>packages/hashi/sources\<close>) keeps the state of the bridge:
  the committee of validators, the deposit and withdrawal queues, the pool of Bitcoin outputs and
  the treasury of hBTC. The members of the committee run a node (\<^verbatim>\<open>crates/hashi\<close>) that watches
  Bitcoin for deposits, selects coins for batches of withdrawals, and signs certificates and
  Bitcoin transactions together. A guardian (\<^verbatim>\<open>crates/hashi-guardian\<close>) holds the second key of the
  bridge and signs no more than a rate limit allows. Types shared by all of them are in
  \<^verbatim>\<open>crates/hashi-types\<close>.

  \<^bold>\<open>Conventions.\<close> \<^verbatim>\<open>Hashi_Prelude\<close> has the machine integers (words that wrap as in a release build;
  \<^verbatim>\<open>usize\<close> is a natural number, with the wrap-around written out where it matters), the type
  \<open>outcome\<close> with its three cases \<open>Ok\<close>, \<open>Err\<close> and \<open>Panic\<close> for fallible Rust, and the lemmas on words and
  lists that the components share; \<^verbatim>\<open>Hashi_Ordering\<close> has comparators and the stable sort.
  \<^verbatim>\<open>Move_Base\<close> has the vocabulary of Move: calls that abort, checked arithmetic, bags and loops. The
  functions of libraries (\<^verbatim>\<open>bitcoin\<close>, \<^verbatim>\<open>fastcrypto\<close>, \<^verbatim>\<open>bcs\<close>, the natives of Sui) are arguments of the
  definitions, collected in records; what the code relies on in them is a named hypothesis of the
  theorems that need it (\<open>fee_wu_bounded\<close>, \<open>fee_wu_checked_mul\<close>, \<open>nodes_ok\<close>). Hash maps iterate in an
  order that is an argument too.

  \<^bold>\<open>Components of the node and the guardian.\<close>

  \<^item> \<^verbatim>\<open>Guardian_Types\<close>, \<^verbatim>\<open>Limiter\<close>: \<^verbatim>\<open>guardian/lifecycle.rs\<close>, \<^verbatim>\<open>errors.rs\<close>, \<^verbatim>\<open>limiter.rs\<close> of
    \<^verbatim>\<open>hashi-types\<close> and \<^verbatim>\<open>hashi/src/guardian_limiter.rs\<close>. The guardian's token bucket and the mirror
    each node keeps are two instances of the locale \<open>token_bucket\<close>, tied by \<open>token_bucket_pair\<close>: the
    amounts accepted in any interval are bounded by the capacity and the refill, sequence numbers
    are consecutive, the mirror moves in lockstep with the guardian and can be reconciled with it,
    and the stall tracker alarms exactly after a full window without progress.
  \<^item> \<^verbatim>\<open>Utxo_Pool\<close>, \<^verbatim>\<open>Coin_Selection\<close>, \<^verbatim>\<open>Coin_Selection_Correct\<close>, \<^verbatim>\<open>Coin_Selection_Props\<close>,
    \<^verbatim>\<open>Coin_Selection_Witness\<close>: \<^verbatim>\<open>hashi/src/utxo_pool/mod.rs\<close>. The builder of a batched withdrawal and
    \<open>select_coins\<close>. A selection conserves value, takes the oldest requests, funds them with as few inputs as
    any choice could, pays the fee rate for itself and its unconfirmed ancestors, stays within the
    weight and chain limits, leaves no dust, reports insufficient funds only when no choice would
    do, and does not panic on amounts and weights that fit their types.
  \<^item> \<^verbatim>\<open>Signer_Bitmap\<close>, \<^verbatim>\<open>Committee\<close>, \<^verbatim>\<open>Committee_Props\<close>: \<^verbatim>\<open>hashi-types/src/committee.rs\<close>. Certificates
    and the aggregator that collects them, by stake and by reduced weight (two instances of
    \<open>weight_domain\<close>). Two certificates share an honest signer, a verified one is by distinct members
    of enough weight over the bytes of this deployment and epoch, the aggregator never reports
    more weight than a verifier will count, and no input from a peer makes verification panic.
  \<^item> \<^verbatim>\<open>Byte_Cursor\<close>, \<^verbatim>\<open>Uleb128\<close>, \<^verbatim>\<open>Count_Check\<close>, \<^verbatim>\<open>Count_Check_Grammar\<close>, \<^verbatim>\<open>Count_Check_Props\<close>:
    \<^verbatim>\<open>hashi/src/mpc/count_check.rs\<close>. The structural checks of MPC messages accept exactly the byte
    strings of their grammars, whatever the field sizes, and never panic.
  \<^item> \<^verbatim>\<open>Deposit_Tracker\<close>, \<^verbatim>\<open>Deposit_Tracker_Inv\<close>, \<^verbatim>\<open>Deposit_Tracker_Ops\<close>, \<^verbatim>\<open>Deposit_Tracker_Chain\<close>,
    \<^verbatim>\<open>Deposit_Tracker_Props\<close>: \<^verbatim>\<open>hashi/src/deposit_tracker.rs\<close>. The tracker as a transition system
    (\<open>tracker_step\<close>): its indices and gauges agree in every reachable state, blocks settle exactly
    the outpoints they contain, results from before a reorganisation are ignored, a deposit deep
    enough becomes actionable, and no operation panics short of exhausting its counters (apart
    from the result that \<open>resolve_discovery\<close> asserts against).

  \<^bold>\<open>The Move package.\<close>

  \<^item> \<^verbatim>\<open>Move_Committee\<close>, \<^verbatim>\<open>Move_Committee_Set\<close>: \<^verbatim>\<open>core/config\<close>, \<^verbatim>\<open>core/versioning.move\<close>,
    \<^verbatim>\<open>core/threshold.move\<close>, \<^verbatim>\<open>core/intent.move\<close>, \<^verbatim>\<open>core/committee\<close>. Settings, certificates, the member
    registry and the reconfiguration of committees; BCS is written out, so that the signed bytes
    are those of the code.
  \<^item> \<^verbatim>\<open>Move_Signing\<close>: \<^verbatim>\<open>core/mpc_signing.move\<close>. Presignatures and signing batches.
  \<^item> \<^verbatim>\<open>Move_Bag_Sum\<close>, \<^verbatim>\<open>Move_Utxo_Pool\<close>: \<^verbatim>\<open>btc/utxo.move\<close>, \<^verbatim>\<open>btc/utxo_pool.move\<close>. The pool, an instance of
    the locale \<open>coin_ledger\<close>.
  \<^item> \<^verbatim>\<open>Move_Deposit_Queue\<close>, \<^verbatim>\<open>Move_Withdrawal_Queue\<close>: \<^verbatim>\<open>btc/btc_config.move\<close>, \<^verbatim>\<open>btc/deposit_queue.move\<close>,
    \<^verbatim>\<open>btc/withdrawal_queue.move\<close>.
  \<^item> \<^verbatim>\<open>Move_Bridge\<close>: the shared object and the entry functions of \<^verbatim>\<open>hashi.move\<close>, \<^verbatim>\<open>btc/deposit.move\<close>,
    \<^verbatim>\<open>btc/withdraw.move\<close>, \<^verbatim>\<open>core/reconfig.move\<close>, over \<^verbatim>\<open>core/treasury.move\<close> and
    \<^verbatim>\<open>btc/bitcoin_state.move\<close>.
  \<^item> \<^verbatim>\<open>Move_Queue_Lemmas\<close>, \<^verbatim>\<open>Move_Queue_Inv\<close>, \<^verbatim>\<open>Move_Queue_Steps\<close>: the invariant of the withdrawal queue.
  \<^item> \<^verbatim>\<open>Move_Bridge_Inv\<close>, \<^verbatim>\<open>Move_Bridge_Steps\<close>, \<^verbatim>\<open>Move_Bridge_Safe\<close>, \<^verbatim>\<open>Move_Bridge_Reach\<close>: the bridge as a
    transition system (\<open>bridge_step\<close>, \<open>reachable\<close>) and the invariant of its reachable states. A step is
    any successful entry function with any arguments, a change of the registry, or any change
    governance makes to the settings and versions.
  \<^item> \<^verbatim>\<open>Move_Bridge_Run\<close>, \<^verbatim>\<open>Move_Bridge_Traces\<close>, \<^verbatim>\<open>Move_Bridge_Props\<close>: a sample run, what holds along runs,
    and the properties. The spendable bitcoin always equals the supply of hBTC and the deposits
    without a recipient; an outpoint funds one transaction, a deposit is credited once, a request
    is paid once, less an equal share of the fee, a presignature serves one transaction; the queue is well formed;
    archival in chunks ends where a single call ends; a paused bridge moves no value; and the TLS
    key index follows the registry.

  \<^bold>\<open>Bounds.\<close> No definition uses fuel: every loop of the sources is a structural recursion or has a
  termination proof. Hypotheses of the form \<open>... < 2 ^ 64\<close> keep sums of amounts and weights, or the
  product of a fee rate and a weight, from wrapping where the code does not check; the supply of
  bitcoin and the stake of Sui are far below. In the bridge nothing of the kind is assumed, since
  Move checks its arithmetic; its steps only assume that Sui gives new objects unused ids.

  \<^bold>\<open>Not modelled.\<close> The network services of the node and the guardian, storage, configuration files,
  command-line tools, the monitor and the proxies are input and output around these components.
  The MPC protocols are calls into a cryptographic library. Of the Move package, voting on
  proposals and the bulletin board for MPC certificates are left out: governance may do anything
  to the settings here, and nothing modelled reads the board. Events are not part of the state.
  Cryptographic strength is not a subject of the library: a theorem about certificates speaks of
  what verification checked.
\<close>

end
